(* ===== verification/Prelude.thy ===== *)
theory Prelude
  imports Main "HOL-Library.AList" "HOL-Library.Sublist" "HOL-Library.Word"
begin

text \<open>
  Shared vocabulary of the development: Go's maps as association lists with distinct keys, Go's
  error returns as a sum, Go strings and byte slices as character lists (one \<open>char\<close> is one byte),
  and the generic lemmas the component theories share.
\<close>

named_theorems store_simps \<open>lookups after updates of the record and map types of the model\<close>
named_theorems inv_intros \<open>introduction rules: operations keep the invariants of their component\<close>

section \<open>Strings and byte slices\<close>

text \<open>A Go \<open>string\<close> and a Go \<open>[]byte\<close> are both sequences of bytes; conversions copy them.\<close>

type_synonym bytes = string

section \<open>Errors\<close>

text \<open>
  Error values. The code compares errors with \<open>leveldb.ErrNotFound\<close> by identity, so a wrapped
  error (\<open>errors.Wrap\<close>, \<open>fmt.Errorf\<close>) is a different value: \<open>Wrapped\<close> keeps the cause and the
  comparison fails.
\<close>

datatype err =
    LdbNotFound
  | Wrapped err
  | Failure string

type_synonym 'a res = "err + 'a"

definition bind_res :: "'e + 'a \<Rightarrow> ('a \<Rightarrow> 'e + 'b) \<Rightarrow> 'e + 'b" where
  "bind_res m f = (case m of Inl e \<Rightarrow> Inl e | Inr x \<Rightarrow> f x)"

definition wrap_err :: "'a res \<Rightarrow> 'a res" where
  "wrap_err m = (case m of Inl e \<Rightarrow> Inl (Wrapped e) | Inr x \<Rightarrow> Inr x)"

lemma bind_res_simps [simp]:
  "bind_res (Inl e) f = Inl e"
  "bind_res (Inr x) f = f x"
  by (simp_all add: bind_res_def)

lemma bind_res_Inr_iff: "bind_res m f = Inr y \<longleftrightarrow> (\<exists>x. m = Inr x \<and> f x = Inr y)"
  by (cases m) auto

lemma bind_res_Inl_iff:
  "bind_res m f = Inl e \<longleftrightarrow> m = Inl e \<or> (\<exists>x. m = Inr x \<and> f x = Inl e)"
  by (cases m) auto

lemma wrap_err_simps [simp]:
  "wrap_err (Inl e) = Inl (Wrapped e)"
  "wrap_err (Inr x) = Inr x"
  by (simp_all add: wrap_err_def)

lemma wrap_err_Inr_iff [simp]: "wrap_err m = Inr y \<longleftrightarrow> m = Inr y"
  by (cases m) auto

lemma wrap_err_not_found [simp]: "wrap_err m \<noteq> Inl LdbNotFound"
  by (cases m) auto

section \<open>Go maps\<close>

text \<open>
  A Go map is an association list whose keys are distinct. Lookup is \<open>map_of\<close>, assignment is
  \<open>AList.update\<close> (in place, or at the end for a new key), \<open>delete\<close> is \<open>AList.delete\<close>. Go iterates
  a map in an order it does not promise; where that order can be observed, the model takes the
  order as an argument and the theorems hold for each.
\<close>

type_synonym ('k, 'v) gomap = "('k \<times> 'v) list"

abbreviation gm_get :: "('k, 'v) gomap \<Rightarrow> 'k \<Rightarrow> 'v option" where
  "gm_get \<equiv> map_of"

abbreviation gm_put :: "'k \<Rightarrow> 'v \<Rightarrow> ('k, 'v) gomap \<Rightarrow> ('k, 'v) gomap" where
  "gm_put \<equiv> AList.update"

abbreviation gm_del :: "'k \<Rightarrow> ('k, 'v) gomap \<Rightarrow> ('k, 'v) gomap" where
  "gm_del \<equiv> AList.delete"

definition gm_keys :: "('k, 'v) gomap \<Rightarrow> 'k list" where
  "gm_keys m = map fst m"

definition gm_has :: "('k, 'v) gomap \<Rightarrow> 'k \<Rightarrow> bool" where
  "gm_has m k = (gm_get m k \<noteq> None)"

abbreviation gm_wf :: "('k, 'v) gomap \<Rightarrow> bool" where
  "gm_wf m \<equiv> distinct (map fst m)"

lemma gm_get_put [simp]: "gm_get (gm_put k v m) k' = (if k' = k then Some v else gm_get m k')"
  by (simp add: update_conv)

lemma gm_has_put [simp]: "gm_has (gm_put k v m) k' \<longleftrightarrow> k' = k \<or> gm_has m k'"
  by (simp add: gm_has_def)

lemma gm_wf_put [simp, intro]: "gm_wf m \<Longrightarrow> gm_wf (gm_put k v m)"
  by (rule distinct_update)

lemma gm_wf_del [simp, intro]: "gm_wf m \<Longrightarrow> gm_wf (gm_del k m)"
  by (rule distinct_delete)

lemma gm_get_del [simp]: "gm_get (gm_del k m) k' = (if k' = k then None else gm_get m k')"
  by (simp add: delete_conv')

lemma set_gm_keys: "set (gm_keys m) = {k. gm_has m k}"
  by (auto simp: gm_keys_def gm_has_def map_of_eq_None_iff)

lemma gm_has_iff_key: "gm_has m k \<longleftrightarrow> k \<in> fst ` set m"
  by (auto simp: gm_has_def map_of_eq_None_iff)

lemma gm_has_Some: "gm_get m k = Some v \<Longrightarrow> gm_has m k"
  by (simp add: gm_has_def)

lemma fst_set_gm_put: "fst ` set (gm_put k v m) = insert k (fst ` set m)"
  by (induction m) auto

lemma snd_set_gm_put: "snd ` set (gm_put k v m) \<subseteq> insert v (snd ` set m)"
  by (induction m) auto

lemma set_gm_put: "set (gm_put k v m) \<subseteq> insert (k, v) (set m)"
  by (induction m) auto

lemma length_gm_put:
  "length (gm_put k v m) = (if gm_has m k then length m else Suc (length m))"
  by (induction m) (auto simp: gm_has_def)

lemma gm_get_in_set: "gm_get m k = Some v \<Longrightarrow> (k, v) \<in> set m"
  by (rule map_of_SomeD)

lemma gm_wf_in_set_iff: "gm_wf m \<Longrightarrow> (k, v) \<in> set m \<longleftrightarrow> gm_get m k = Some v"
  by simp

section \<open>Sets kept as lists\<close>

text \<open>A Go \<open>map[K]struct\<close> used as a set: a list without repetitions, new elements at the end.\<close>

definition set_add :: "'a \<Rightarrow> 'a list \<Rightarrow> 'a list" where
  "set_add x xs = (if x \<in> set xs then xs else xs @ [x])"

lemma set_set_add [simp]: "set (set_add x xs) = insert x (set xs)"
  by (auto simp: set_add_def)

lemma distinct_set_add [simp, intro]: "distinct xs \<Longrightarrow> distinct (set_add x xs)"
  by (simp add: set_add_def)

lemma length_set_add: "length (set_add x xs) = (if x \<in> set xs then length xs else Suc (length xs))"
  by (simp add: set_add_def)

lemma set_fold_set_add [simp]: "set (fold set_add ys xs) = set xs \<union> set ys"
  by (induction ys arbitrary: xs) auto

lemma distinct_fold_set_add [simp, intro]: "distinct xs \<Longrightarrow> distinct (fold set_add ys xs)"
  by (induction ys arbitrary: xs) auto

section \<open>Folds and lists\<close>

lemma fold_invariant_set:
  assumes "P s" and "\<And>x s. x \<in> set xs \<Longrightarrow> P s \<Longrightarrow> P (f x s)"
  shows "P (fold f xs s)"
  using assms by (induction xs arbitrary: s) auto

text \<open>A loop whose body may return an error: it stops at the first one.\<close>

fun fold_res :: "('x \<Rightarrow> 's \<Rightarrow> 'e + 's) \<Rightarrow> 'x list \<Rightarrow> 's \<Rightarrow> 'e + 's" where
  "fold_res f [] s = Inr s"
| "fold_res f (x # xs) s = bind_res (f x s) (fold_res f xs)"

lemma fold_res_append:
  "fold_res f (xs @ ys) s = bind_res (fold_res f xs s) (fold_res f ys)"
proof (induction xs arbitrary: s)
  case (Cons x xs)
  then show ?case by (cases "f x s") auto
qed simp

lemma fold_res_invariant:
  assumes "fold_res f xs s = Inr t" and "P s"
    and "\<And>x s t. x \<in> set xs \<Longrightarrow> P s \<Longrightarrow> f x s = Inr t \<Longrightarrow> P t"
  shows "P t"
  using assms
proof (induction xs arbitrary: s)
  case (Cons x xs)
  from Cons.prems(1) obtain s' where s': "f x s = Inr s'" and rest: "fold_res f xs s' = Inr t"
    by (auto simp: bind_res_Inr_iff)
  have "P s'" using Cons.prems(2,3) s' by auto
  with rest Cons show ?case by auto
qed simp

lemma fold_res_total:
  assumes "P s" and "\<And>x s. x \<in> set xs \<Longrightarrow> P s \<Longrightarrow> \<exists>t. f x s = Inr t \<and> P t"
  shows "\<exists>t. fold_res f xs s = Inr t \<and> P t"
  using assms
proof (induction xs arbitrary: s)
  case (Cons x xs)
  from Cons.prems obtain s' where "f x s = Inr s'" and "P s'" by auto
  moreover from Cons.prems this Cons.IH[of s'] obtain t where "fold_res f xs s' = Inr t \<and> P t"
    by auto
  ultimately show ?case by auto
qed simp

text \<open>\<open>append(xs[:i], xs[i+1:]...)\<close>: remove the element at position \<open>i\<close>.\<close>

definition remove_nth :: "nat \<Rightarrow> 'a list \<Rightarrow> 'a list" where
  "remove_nth i xs = take i xs @ drop (Suc i) xs"

lemma length_remove_nth: "i < length xs \<Longrightarrow> length (remove_nth i xs) = length xs - 1"
  by (simp add: remove_nth_def)

text \<open>The first index of a list whose element satisfies a predicate.\<close>

fun find_index :: "('a \<Rightarrow> bool) \<Rightarrow> 'a list \<Rightarrow> nat option" where
  "find_index P [] = None"
| "find_index P (x # xs) = (if P x then Some 0 else map_option Suc (find_index P xs))"

lemma find_index_Some:
  "find_index P xs = Some i \<Longrightarrow> i < length xs \<and> P (xs ! i) \<and> (\<forall>j < i. \<not> P (xs ! j))"
proof (induction xs arbitrary: i)
  case (Cons x xs)
  then show ?case
    by (auto split: if_splits simp: less_Suc_eq_0_disj)
qed simp

lemma find_index_None: "find_index P xs = None \<longleftrightarrow> (\<forall>x \<in> set xs. \<not> P x)"
  by (induction xs) auto

lemma list_all_split: "list_all P (take n xs) \<Longrightarrow> list_all P (drop n xs) \<Longrightarrow> list_all P xs"
  by (metis append_take_drop_id list_all_append)

end
