(* ===== verification/Turtle.thy ===== *)
theory Turtle
  imports GoStrings
begin

text \<open>
  The \<open>turtle\<close> package: URIs and their textual forms (turtle/handle.go), data sets
  (turtle/dataset.go), the callbacks the Raptor parser drives, and the splitting of large source
  files (turtle/raptor.go). Raptor itself is a C library outside the repository: what it reports is
  the list of events a run of the parser is given.
\<close>

section \<open>URIs\<close>

record uri =
  Namespace :: string
  Value :: string

abbreviation mkURI :: "string \<Rightarrow> string \<Rightarrow> uri" where
  "mkURI n v \<equiv> \<lparr>Namespace = n, Value = v\<rparr>"

definition empty_uri :: uri where
  "empty_uri = mkURI [] []"

definition uri_string :: "uri \<Rightarrow> string" where
  "uri_string u =
     (if Namespace u \<noteq> [] then Namespace u @ ''#'' @ Value u else Value u)"

definition uri_bytes :: "uri \<Rightarrow> bytes" where
  "uri_bytes u =
     (if Namespace u \<noteq> [] then Namespace u @ ''#'' @ Value u else Value u)"

definition is_variable :: "uri \<Rightarrow> bool" where
  "is_variable u = has_prefix (Value u) ''?''"

definition quote_char :: char where
  "quote_char = CHR 0x22"

definition parse_uri :: "string \<Rightarrow> uri" where
  "parse_uri s0 =
     (let s = trim_right CHR ''>'' (trim_left CHR ''<'' s0);
          parts0 = split_on CHR ''#'' s;
          parts = parts0[0 := trim_right CHR ''#'' (parts0 ! 0)]
      in if length parts \<noteq> 2 then
           if has_prefix s [quote_char] then
             mkURI [] (trim_suffix ''@en'' (trim quote_char s))
           else
             (let ps = split_first CHR '':'' s
              in if length ps > 1 then mkURI (ps ! 0) (ps ! 1)
                 else mkURI [] (trim_suffix ''@en'' (trim quote_char s)))
         else mkURI (parts ! 0) (parts ! 1))"

section \<open>Triples and data sets\<close>

record triple =
  Subject :: uri
  Predicate :: uri
  Object :: uri

definition make_triple :: "string \<Rightarrow> string \<Rightarrow> string \<Rightarrow> triple" where
  "make_triple sub pred obj =
     \<lparr>Subject = parse_uri sub, Predicate = parse_uri pred, Object = parse_uri obj\<rparr>"

record dataset =
  triplecount :: nat
  nscount :: nat
  Namespaces :: "(string, string) gomap"
  Triples :: "triple list"

definition new_dataset :: dataset where
  "new_dataset = \<lparr>triplecount = 0, nscount = 0, Namespaces = [], Triples = []\<rparr>"

definition add_triple_strings :: "string \<Rightarrow> string \<Rightarrow> string \<Rightarrow> dataset \<Rightarrow> dataset" where
  "add_triple_strings s p o' d =
     d\<lparr>triplecount := triplecount d + 1, Triples := Triples d @ [make_triple s p o']\<rparr>"

definition add_triple_uris :: "uri \<Rightarrow> uri \<Rightarrow> uri \<Rightarrow> dataset \<Rightarrow> dataset" where
  "add_triple_uris s p o' d =
     d\<lparr>triplecount := triplecount d + 1,
       Triples := Triples d @ [\<lparr>Subject = s, Predicate = p, Object = o'\<rparr>]\<rparr>"

definition add_namespace :: "string \<Rightarrow> string \<Rightarrow> dataset \<Rightarrow> dataset" where
  "add_namespace pfx namespace d =
     (let ns = trim_right CHR ''#'' namespace
      in d\<lparr>nscount := nscount d + 1, Namespaces := gm_put pfx ns (Namespaces d)\<rparr>)"

definition num_triples :: "dataset \<Rightarrow> nat" where
  "num_triples d = triplecount d"

definition num_namespaces :: "dataset \<Rightarrow> nat" where
  "num_namespaces d = nscount d"

text \<open>What a run of the Raptor parser reports, in order, through the two exported callbacks.\<close>

datatype raptor_event =
    RaptorTriple string string string
  | RaptorNamespace string string

fun parser_callback :: "raptor_event \<Rightarrow> dataset \<Rightarrow> dataset" where
  "parser_callback (RaptorTriple s p o') d = add_triple_strings s p o' d"
| "parser_callback (RaptorNamespace ns pfx) d = add_namespace pfx ns d"

text \<open>\<open>Parser.Parse\<close>: a fresh data set, then every event of the file.\<close>

definition parser_parse :: "raptor_event list \<Rightarrow> dataset" where
  "parser_parse evs = fold parser_callback evs new_dataset"

section \<open>Splitting large source files\<close>

text \<open>
  A file is its bytes. \<open>linecutoff\<close> and \<open>epsilon\<close> are package variables of the code, so they are
  arguments here; \<open>default_linecutoff\<close> and \<open>default_epsilon\<close> are their values.
\<close>

definition default_linecutoff :: nat where
  "default_linecutoff = 5000000"

definition default_epsilon :: nat where
  "default_epsilon = 1000"

abbreviation newline :: char where "newline \<equiv> CHR 0x0A"
abbreviation return :: char where "return \<equiv> CHR 0x0D"

text \<open>\<open>getFileSize\<close> counts the newline bytes.\<close>

definition num_lines :: "bytes \<Rightarrow> nat" where
  "num_lines data = count_list data newline"

text \<open>
  What the calls of \<open>Scan\<close> on Go's \<open>bufio.Scanner\<close> return, one after the other: a line without its end,
  or \<open>None\<close> for false; false for ever at the end of the list. A line has to fit into the buffer of 64
  KB. When one does not, \<open>Scan\<close> returns false, but the next call gives what the buffer holds as a line,
  and only then is the scanner done.
\<close>

definition max_token :: nat where
  "max_token = 65536"

definition raw_lines :: "bytes \<Rightarrow> string list" where
  "raw_lines data = (let ps = split_on newline data in if last ps = [] then butlast ps else ps)"

definition drop_cr :: "string \<Rightarrow> string" where
  "drop_cr l = (if has_suffix l [return] then butlast l else l)"

definition scanned :: "bytes \<Rightarrow> string option list" where
  "scanned data =
     (let ls = raw_lines data; short = takeWhile (\<lambda>l. length l < max_token) ls
      in map (\<lambda>l. Some (drop_cr l)) short @
         (case drop (length short) ls of
            [] \<Rightarrow> [] | l # _ \<Rightarrow> [None, Some (drop_cr (take max_token l))]))"

definition is_prefix_line :: "string \<Rightarrow> bool" where
  "is_prefix_line l = (has_prefix l ''@prefix'' \<or> has_prefix l ''@PREFIX'')"

text \<open>The header, and what is left: the line that ends the loop has been scanned.\<close>

fun read_header :: "string option list \<Rightarrow> string list \<times> string option list" where
  "read_header [] = ([], [])"
| "read_header (None # ts) = ([], ts)"
| "read_header (Some l # ts) =
     (if is_prefix_line l then let (h, rest) = read_header ts in (l # h, rest) else ([], ts))"

fun read_chunk :: "nat \<Rightarrow> nat \<Rightarrow> string option list \<Rightarrow> string list \<times> string option list" where
  "read_chunk linecutoff numread [] = ([], [])"
| "read_chunk linecutoff numread (None # ts) = ([], ts)"
| "read_chunk linecutoff numread (Some l # ts) =
     (if numread + 1 > linecutoff \<and> has_suffix l ''.'' then ([l], ts)
      else let (c, rest) = read_chunk linecutoff (numread + 1) ts in (l # c, rest))"

fun read_chunks :: "nat \<Rightarrow> nat \<Rightarrow> string option list \<Rightarrow> string list list" where
  "read_chunks linecutoff 0 ts = []"
| "read_chunks linecutoff (Suc n) ts =
     (let (c, rest) = read_chunk linecutoff 0 ts in c # read_chunks linecutoff n rest)"

definition unlines :: "string list \<Rightarrow> bytes" where
  "unlines ls = concat (map (\<lambda>l. l @ [newline]) ls)"

text \<open>The contents of the files that \<open>chunkFile\<close> names.\<close>

definition chunk_file :: "nat \<Rightarrow> nat \<Rightarrow> bytes \<Rightarrow> bytes list" where
  "chunk_file linecutoff epsilon data =
     (if num_lines data > linecutoff + epsilon then
        (let (header, rest) = read_header (scanned data)
         in map (\<lambda>c. unlines (header @ c)) (read_chunks linecutoff (num_lines data div linecutoff + 1) rest))
      else [data])"

section \<open>Textual forms of URIs\<close>

text \<open>
  A namespaced URI whose parts hold no separator and which is not mistaken for a bracketed URL
  survives being stored as bytes and parsed back.
\<close>

definition plain_name :: "uri \<Rightarrow> bool" where
  "plain_name u \<longleftrightarrow>
     Namespace u \<noteq> [] \<and> hd (Namespace u) \<noteq> CHR ''<'' \<and>
     CHR ''#'' \<notin> set (Namespace u) \<and> CHR ''#'' \<notin> set (Value u) \<and>
     (Value u = [] \<or> last (Value u) \<noteq> CHR ''>'')"

definition plain_literal :: "uri \<Rightarrow> bool" where
  "plain_literal u \<longleftrightarrow>
     Namespace u = [] \<and> CHR ''#'' \<notin> set (Value u) \<and> CHR '':'' \<notin> set (Value u) \<and>
     quote_char \<notin> set (Value u) \<and> CHR ''<'' \<notin> set (Value u) \<and> CHR ''>'' \<notin> set (Value u) \<and>
     \<not> has_suffix (Value u) ''@en''"

lemma uri_bytes_eq_string: "uri_bytes u = uri_string u"
  by (simp add: uri_bytes_def uri_string_def)

lemma parse_uri_hash:
  assumes "CHR ''#'' \<notin> set a" and "CHR ''#'' \<notin> set b"
    and "a \<noteq> []" and "hd a \<noteq> CHR ''<''" and "b = [] \<or> last b \<noteq> CHR ''>''"
  shows "parse_uri (a @ ''#'' @ b) = mkURI a b"
proof -
  have left: "trim_left CHR ''<'' (a @ ''#'' @ b) = a @ ''#'' @ b"
    using assms by (intro trim_left_id) auto
  have right: "trim_right CHR ''>'' (a @ ''#'' @ b) = a @ ''#'' @ b"
    using assms by (intro trim_right_id) auto
  have parts: "split_on CHR ''#'' (a @ ''#'' @ b) = [a, b]"
    using assms by (simp add: split_on_append split_on_notin)
  have "trim_right CHR ''#'' a = a"
    using assms(1) by (rule trim_right_notin)
  then show ?thesis
    unfolding parse_uri_def left right parts Let_def by simp
qed

lemma parse_uri_plain_name: "plain_name u \<Longrightarrow> parse_uri (uri_string u) = u"
  by (auto simp: plain_name_def uri_string_def parse_uri_hash[simplified] parse_uri_hash)

lemma trim_notin: "c \<notin> set s \<Longrightarrow> trim c s = s"
  by (cases s) (auto simp: trim_def trim_right_notin trim_left_id)

lemma parse_uri_plain_literal:
  assumes "plain_literal u"
  shows "parse_uri (uri_string u) = u"
proof -
  obtain v where u: "u = mkURI [] v" and v: "CHR ''#'' \<notin> set v" "CHR '':'' \<notin> set v"
    "quote_char \<notin> set v" "CHR ''<'' \<notin> set v" "CHR ''>'' \<notin> set v" "\<not> has_suffix v ''@en''"
    using assms by (cases u) (auto simp: plain_literal_def)
  have s: "trim_right CHR ''>'' (trim_left CHR ''<'' v) = v"
    using v by (cases v) (auto simp: trim_right_notin trim_left_id)
  have "\<not> has_prefix v [quote_char]"
    using v(3) by (cases v) (auto simp: has_prefix_def)
  moreover have "trim_right CHR ''#'' v = v" using v(1) by (rule trim_right_notin)
  ultimately show ?thesis
    using v unfolding u
    by (simp add: parse_uri_def uri_string_def s split_on_notin split_first_notin trim_notin
        trim_suffix_id Let_def)
qed

text \<open>On URIs whose fields hold no separator the stored form determines the URI.\<close>

definition hash_free :: "uri \<Rightarrow> bool" where
  "hash_free u \<longleftrightarrow> CHR ''#'' \<notin> set (Namespace u) \<and> CHR ''#'' \<notin> set (Value u)"

lemma append_hash_eq:
  assumes "c \<notin> set a" "c \<notin> set a'" "a @ c # b = a' @ c # b'"
  shows "a = a' \<and> b = b'"
  using assms by (induction a arbitrary: a') (auto simp: Cons_eq_append_conv)

lemma uri_bytes_inj:
  assumes "hash_free u" "hash_free v" "uri_bytes u = uri_bytes v"
  shows "u = v"
proof -
  have "Namespace u = Namespace v \<and> Value u = Value v"
  proof (cases "Namespace u = [] \<or> Namespace v = []")
    case True
    have "CHR ''#'' \<in> set (uri_bytes w)" if "Namespace w \<noteq> []" for w
      using that by (simp add: uri_bytes_def)
    moreover have "CHR ''#'' \<notin> set (uri_bytes w)" if "Namespace w = []" "hash_free w" for w
      using that by (simp add: uri_bytes_def hash_free_def)
    ultimately have "Namespace u = [] \<and> Namespace v = []"
      using True assms by metis
    then show ?thesis using assms(3) by (simp add: uri_bytes_def)
  next
    case False
    then show ?thesis
      using assms append_hash_eq[of "CHR ''#''" "Namespace u" "Namespace v" "Value u" "Value v"]
      by (simp add: hash_free_def uri_bytes_def)
  qed
  then show ?thesis by simp
qed

section \<open>Data sets\<close>

definition dataset_inv :: "dataset \<Rightarrow> bool" where
  "dataset_inv d \<longleftrightarrow> triplecount d = length (Triples d) \<and> gm_wf (Namespaces d)
     \<and> length (Namespaces d) \<le> nscount d \<and> (\<forall>(p, ns) \<in> set (Namespaces d). ns = [] \<or> last ns \<noteq> CHR ''#'')"

lemma trim_right_last: "trim_right c s = [] \<or> last (trim_right c s) \<noteq> c"
proof -
  have "dropWhile (\<lambda>x. x = c) (rev s) = [] \<or> hd (dropWhile (\<lambda>x. x = c) (rev s)) \<noteq> c"
    by (metis (mono_tags, lifting) hd_dropWhile)
  then show ?thesis by (auto simp: trim_right_def last_rev)
qed

lemma new_dataset_inv: "dataset_inv new_dataset"
  by (simp add: dataset_inv_def new_dataset_def)

lemma add_namespace_inv:
  assumes "dataset_inv d"
  shows "dataset_inv (add_namespace p ns d)"
proof -
  let ?ns = "trim_right CHR ''#'' ns"
  have sub: "set (gm_put p ?ns (Namespaces d)) \<subseteq> insert (p, ?ns) (set (Namespaces d))"
    by (rule set_gm_put)
  have len: "length (gm_put p ?ns (Namespaces d)) \<le> Suc (length (Namespaces d))"
    by (simp add: length_gm_put)
  show ?thesis
    using assms sub len trim_right_last[of "CHR ''#''" ns]
    by (auto simp: dataset_inv_def add_namespace_def Let_def)
qed

lemma add_triple_uris_inv: "dataset_inv d \<Longrightarrow> dataset_inv (add_triple_uris s p o' d)"
  by (simp add: dataset_inv_def add_triple_uris_def)

lemma add_triple_strings_inv: "dataset_inv d \<Longrightarrow> dataset_inv (add_triple_strings s p o' d)"
  by (simp add: dataset_inv_def add_triple_strings_def)

lemma parser_callback_inv: "dataset_inv d \<Longrightarrow> dataset_inv (parser_callback e d)"
  by (cases e) (simp_all add: add_triple_strings_inv add_namespace_inv)

lemma fold_parser_callback_inv: "dataset_inv d \<Longrightarrow> dataset_inv (fold parser_callback evs d)"
  by (induction evs arbitrary: d) (auto simp: parser_callback_inv)

lemma parser_parse_inv: "dataset_inv (parser_parse evs)"
  by (simp add: parser_parse_def fold_parser_callback_inv new_dataset_inv)

section \<open>Chunks\<close>

text \<open>Without a long line, the chunks together are the lines, and each but the last ends a statement.\<close>

lemma read_chunk_split:
  "read_chunk k n (map Some ls) = (c, rest) \<Longrightarrow>
     \<exists>ls'. rest = map Some ls' \<and> ls = c @ ls' \<and> (ls' = [] \<or> n + length c > k)"
proof (induction ls arbitrary: n c)
  case (Cons l ls)
  show ?case
  proof (cases "n + 1 > k \<and> has_suffix l ''.''")
    case True
    then show ?thesis using Cons.prems by auto
  next
    case False
    then obtain c' where "read_chunk k (n + 1) (map Some ls) = (c', rest)" "c = l # c'"
      using Cons.prems by (auto simp: Let_def split: prod.splits if_splits)
    then show ?thesis using Cons.IH[of "n + 1" c'] by auto
  qed
qed simp

lemma read_chunk_ends:
  "read_chunk k n (map Some ls) = (c, rest) \<Longrightarrow> rest \<noteq> [] \<Longrightarrow> c \<noteq> [] \<and> has_suffix (last c) ''.''"
proof (induction ls arbitrary: n c)
  case (Cons l ls)
  show ?case
  proof (cases "n + 1 > k \<and> has_suffix l ''.''")
    case True
    then show ?thesis using Cons.prems by auto
  next
    case False
    then obtain c' where "read_chunk k (n + 1) (map Some ls) = (c', rest)" "c = l # c'"
      using Cons.prems by (auto simp: Let_def split: prod.splits if_splits)
    then show ?thesis using Cons.IH[of "n + 1" c'] Cons.prems(2) by auto
  qed
qed simp

lemma read_chunks_concat:
  "length ls \<le> n * Suc k \<Longrightarrow> concat (read_chunks k n (map Some ls)) = ls"
proof (induction n arbitrary: ls)
  case (Suc n)
  obtain c rest where cr: "read_chunk k 0 (map Some ls) = (c, rest)" by fastforce
  then obtain ls' where ls': "rest = map Some ls'" "ls = c @ ls'" "ls' = [] \<or> length c > k"
    using read_chunk_split[OF cr] by auto
  then have "length ls' \<le> n * Suc k" using Suc.prems by auto
  then show ?case using Suc.IH[of ls'] cr ls' by simp
qed simp

lemma length_read_chunks: "length (read_chunks k n ts) = n"
  by (induction n arbitrary: ts) (auto split: prod.splits)

text \<open>In general they are a prefix of the lines that \<open>Scan\<close> gives.\<close>

abbreviation lines_of :: "string option list \<Rightarrow> string list" where
  "lines_of ts \<equiv> map the (filter (\<lambda>t. t \<noteq> None) ts)"

lemma read_chunk_lines: "read_chunk k n ts = (c, rest) \<Longrightarrow> c @ lines_of rest = lines_of ts"
  by (induction k n ts arbitrary: c rest rule: read_chunk.induct)
     (auto simp: Let_def split: if_splits prod.splits)

lemma read_chunks_lines: "prefix (concat (read_chunks k n ts)) (lines_of ts)"
proof (induction n arbitrary: ts)
  case (Suc n)
  obtain c rest where cr: "read_chunk k 0 ts = (c, rest)" by fastforce
  then show ?case using Suc.IH[of rest] read_chunk_lines[OF cr, symmetric] by simp
qed simp

lemma chunk_capacity: "0 < k \<Longrightarrow> (n::nat) \<le> (n div k + 1) * Suc k"
proof -
  assume "0 < k"
  then have "n < (n div k + 1) * k"
    by (metis Suc_eq_plus1 div_less_iff_less_mult less_Suc_eq mult.commute)
  then show ?thesis by simp
qed

lemma length_raw_lines: "length (raw_lines data) \<le> Suc (num_lines data)"
  by (simp add: raw_lines_def num_lines_def length_split_on Let_def)

lemma scanned_short:
  assumes "list_all (\<lambda>l. length l < max_token) (raw_lines data)"
  shows "scanned data = map Some (map drop_cr (raw_lines data))"
proof -
  have short: "takeWhile (\<lambda>l. length l < max_token) (raw_lines data) = raw_lines data"
    using assms by (simp add: list_all_iff takeWhile_eq_all_conv)
  show ?thesis unfolding scanned_def Let_def short by (simp add: comp_def)
qed

lemma scanned_long:
  assumes "raw_lines data = short @ l # rest" "list_all (\<lambda>l. length l < max_token) short" "length l \<ge> max_token"
  shows "scanned data = map Some (map drop_cr short) @ [None, Some (drop_cr (take max_token l))]"
proof -
  have "takeWhile (\<lambda>l. length l < max_token) (raw_lines data) = short"
    using assms by (simp add: list_all_iff takeWhile_tail)
  then show ?thesis using assms(1) by (simp add: scanned_def Let_def comp_def)
qed

lemma read_header_line:
  "\<lbrakk>list_all is_prefix_line header; \<not> is_prefix_line l\<rbrakk> \<Longrightarrow>
     read_header (map Some header @ Some l # ts) = (header, ts)"
  by (induction header) simp_all

text \<open>
  A line that does not fit into the scanner's buffer ends the file for the splitting: nothing behind it
  is in a chunk, and of the line itself at most the first 64 KB.
\<close>

lemma chunk_file_long_line:
  assumes "num_lines data > linecutoff + epsilon" "raw_lines data = short @ long # rest"
    and "list_all (\<lambda>l. length l < max_token) short" "length long \<ge> max_token"
    and "map drop_cr short = header @ l # body" "list_all is_prefix_line header" "\<not> is_prefix_line l"
  shows "\<exists>bodies. chunk_file linecutoff epsilon data = map (\<lambda>c. unlines (header @ c)) bodies \<and>
    prefix (concat bodies) (body @ [drop_cr (take max_token long)])"
proof -
  let ?ts = "map Some body @ [None, Some (drop_cr (take max_token long))]"
  have "read_header (scanned data) = (header, ?ts)"
    using scanned_long[OF assms(2-4)] read_header_line[OF assms(6,7), of ?ts] by (simp add: assms(5))
  moreover have "lines_of ?ts = body @ [drop_cr (take max_token long)]" by (simp add: comp_def)
  ultimately show ?thesis
    using assms(1) read_chunks_lines[of linecutoff "num_lines data div linecutoff + 1" ?ts]
    by (auto simp: chunk_file_def simp del: read_chunks.simps)
qed

section \<open>Properties\<close>

text \<open>
  C28: A URI with a namespace whose parts hold no separator, and a literal without separators, quotes
  and brackets, survive being written out and parsed again.
\<close>

theorem parse_uri_round_trip:
  assumes "plain_name u \<or> plain_literal u"
  shows "parse_uri (uri_string u) = u"
  using assms by (auto simp: parse_uri_plain_name parse_uri_plain_literal)

theorem parse_uri_round_trip_witness:
  "parse_uri (uri_string (mkURI ''https://brickschema.org/schema/Brick'' ''Room'')) =
     mkURI ''https://brickschema.org/schema/Brick'' ''Room''"
  by (rule parse_uri_round_trip) (simp add: plain_name_def)

text \<open>
  C29: A file that is too long and whose lines all fit into the scanner's buffer of 64 KB is split into
  files that all start with its header of prefix lines, and whose remaining lines, put together, are the
  body without its first line: the line that ends the header is lost, and only that.
\<close>

theorem chunk_file_loses_line:
  assumes "num_lines data > linecutoff + epsilon" "0 < linecutoff"
    and "list_all (\<lambda>l. length l < max_token) (raw_lines data)"
    and "map drop_cr (raw_lines data) = header @ l # body"
    and "list_all is_prefix_line header" "\<not> is_prefix_line l"
  shows "\<exists>bodies. chunk_file linecutoff epsilon data = map (\<lambda>c. unlines (header @ c)) bodies \<and>
           concat bodies = body \<and> length bodies = num_lines data div linecutoff + 1"
proof -
  have "read_header (scanned data) = (header, map Some body)"
    using scanned_short[OF assms(3)] read_header_line[OF assms(5,6), of "map Some body"] by (simp add: assms(4))
  moreover have "length body \<le> num_lines data"
    using length_raw_lines[of data] arg_cong[OF assms(4), of length] by simp
  then have "length body \<le> (num_lines data div linecutoff + 1) * Suc linecutoff"
    using chunk_capacity[OF assms(2), of "num_lines data"] by linarith
  ultimately show ?thesis
    using assms(1) read_chunks_concat[of body "num_lines data div linecutoff + 1" linecutoff]
      length_read_chunks[of linecutoff "num_lines data div linecutoff + 1" "map Some body"]
    by (auto simp: chunk_file_def simp del: read_chunks.simps)
qed

theorem chunk_file_loses_line_witness:
  "\<exists>bodies. chunk_file 1 0 (unlines [''@prefix a: <b> .'', ''a:x a:y a:z .'', ''a:u a:v a:w .'']) =
       map (\<lambda>c. unlines ([''@prefix a: <b> .''] @ c)) bodies \<and> concat bodies = [''a:u a:v a:w .''] \<and>
       length bodies = 4"
proof -
  let ?d = "unlines [''@prefix a: <b> .'', ''a:x a:y a:z .'', ''a:u a:v a:w .'']"
  have f: "num_lines ?d = 3" "raw_lines ?d = [''@prefix a: <b> .'', ''a:x a:y a:z .'', ''a:u a:v a:w .'']"
    "map drop_cr [''@prefix a: <b> .'', ''a:x a:y a:z .'', ''a:u a:v a:w .''] =
       [''@prefix a: <b> .''] @ ''a:x a:y a:z .'' # [''a:u a:v a:w .'']"
    by code_simp+
  show ?thesis
    using chunk_file_loses_line[of 1 0 ?d "[''@prefix a: <b> .'']" "''a:x a:y a:z .''" "[''a:u a:v a:w .'']"]
    unfolding f by (simp add: max_token_def is_prefix_line_def has_prefix_def)
qed

end
