(* ===== verification/Keys.thy ===== *)
theory Keys
  imports Turtle
begin

unbundle bit_operations_syntax

text \<open>
  Eight-byte entity keys (db/key.go), the Murmur3 hash the repository vendors and the hash of a URI
  (db/util.go). A key is a fixed array of eight bytes, so it is a datatype with eight fields.
\<close>

type_synonym u32 = "32 word"
type_synonym u64 = "64 word"

datatype key = Key char char char char char char char char

abbreviation nul :: char where "nul \<equiv> CHR 0x00"

definition empty_key :: key where
  "empty_key = Key nul nul nul nul nul nul nul nul"

fun key_bytes :: "key \<Rightarrow> bytes" where
  "key_bytes (Key a b c d e f g h) = [a, b, c, d, e, f, g, h]"

fun key_of_bytes :: "bytes \<Rightarrow> key" where
  "key_of_bytes [a, b, c, d, e, f, g, h] = Key a b c d e f g h"
| "key_of_bytes _ = empty_key"

text \<open>\<open>copy(k[:], src)\<close>: the first \<open>min(8, len(src))\<close> bytes are overwritten.\<close>

definition from_slice :: "key \<Rightarrow> bytes \<Rightarrow> key" where
  "from_slice k src = key_of_bytes (take 8 src @ drop (length src) (key_bytes k))"

definition key_string :: "key \<Rightarrow> string" where
  "key_string k = key_bytes k"

section \<open>Little-endian integers\<close>

fun le_nat :: "bytes \<Rightarrow> nat" where
  "le_nat [] = 0"
| "le_nat (b # bs) = of_char b + 256 * le_nat bs"

definition le_uint64 :: "bytes \<Rightarrow> u64" where
  "le_uint64 bs = word_of_nat (le_nat (take 8 bs))"

definition le_uint32 :: "bytes \<Rightarrow> u32" where
  "le_uint32 bs = word_of_nat (le_nat (take 4 bs))"

definition byte_at :: "nat \<Rightarrow> 'a::len word \<Rightarrow> char" where
  "byte_at i w = char_of (unat (drop_bit (8 * i) w))"

definition put_uint32 :: "u32 \<Rightarrow> bytes" where
  "put_uint32 w = [byte_at 0 w, byte_at 1 w, byte_at 2 w, byte_at 3 w]"

definition put_uint64 :: "u64 \<Rightarrow> bytes" where
  "put_uint64 w = [byte_at 0 w, byte_at 1 w, byte_at 2 w, byte_at 3 w,
                   byte_at 4 w, byte_at 5 w, byte_at 6 w, byte_at 7 w]"

definition key_less_than :: "key \<Rightarrow> key \<Rightarrow> bool" where
  "key_less_than k other = (le_uint64 (key_bytes k) < le_uint64 (key_bytes other))"

section \<open>Murmur3\<close>

definition rotl :: "nat \<Rightarrow> u32 \<Rightarrow> u32" where
  "rotl r k = (push_bit r k OR drop_bit (32 - r) k)"

definition murmur_seed :: u32 where
  "murmur_seed = 1"

definition murmur_scramble :: "u32 \<Rightarrow> u32" where
  "murmur_scramble k = rotl 15 (k * 0xcc9e2d51) * 0x1b873593"

fun murmur_blocks :: "bytes \<Rightarrow> u32 \<Rightarrow> u32 \<times> bytes" where
  "murmur_blocks (a # b # c # d # rest) hash =
     (let k = of_char a OR push_bit 8 (of_char b) OR push_bit 16 (of_char c)
                OR push_bit 24 (of_char d);
          h = rotl 13 (hash XOR murmur_scramble k)
      in murmur_blocks rest (h * 5 + 0xe6546b64))"
| "murmur_blocks rest hash = (hash, rest)"

fun murmur_tail :: "bytes \<Rightarrow> u32 \<Rightarrow> u32" where
  "murmur_tail [a, b, c] hash =
     hash XOR murmur_scramble (push_bit 16 (of_char c) + push_bit 8 (of_char b) + of_char a)"
| "murmur_tail [a, b] hash = hash XOR murmur_scramble (push_bit 8 (of_char b) + of_char a)"
| "murmur_tail [a] hash = hash XOR murmur_scramble (of_char a)"
| "murmur_tail _ hash = hash"

definition murmur_final :: "u32 \<Rightarrow> u32" where
  "murmur_final h0 =
     (let h1 = h0 XOR drop_bit 16 h0;
          h2 = h1 * 0x85ebca6b;
          h3 = h2 XOR drop_bit 13 h2;
          h4 = h3 * 0xc2b2ae35
      in h4 XOR drop_bit 16 h4)"

definition murmur3 :: "bytes \<Rightarrow> u32" where
  "murmur3 key =
     (let (hash, rest) = murmur_blocks key murmur_seed
      in murmur_final (murmur_tail rest hash XOR word_of_nat (length key)))"

section \<open>The hash of a URI\<close>

text \<open>
  \<open>hashURI(u, dest, salt)\<close> with an eight-byte \<open>dest\<close>, as at every call: the first four bytes are
  overwritten. The 32-bit hash function is an argument, \<open>murmur3\<close> in the program, so that the
  theorems hold whatever the collisions.
\<close>

definition hash_uri :: "(bytes \<Rightarrow> u32) \<Rightarrow> uri \<Rightarrow> key \<Rightarrow> u64 \<Rightarrow> key" where
  "hash_uri hf u dest salt =
     (let hash = (if salt > 0 then hf (uri_bytes u @ put_uint64 salt) else hf (uri_bytes u))
      in from_slice dest (put_uint32 hash))"

text \<open>\<open>Entity.Less\<close> compares the first four bytes only.\<close>

definition entity_less :: "key \<Rightarrow> key \<Rightarrow> bool" where
  "entity_less pk1 pk2 = (le_uint32 (key_bytes pk1) < le_uint32 (key_bytes pk2))"

section \<open>Lemmas\<close>

lemma length_key_bytes [simp]: "length (key_bytes k) = 8"
  by (cases k) simp

lemma key_of_key_bytes [simp]: "key_of_bytes (key_bytes k) = k"
  by (cases k) simp

lemma key_bytes_inj [simp]: "key_bytes k = key_bytes k' \<longleftrightarrow> k = k'"
  by (metis key_of_key_bytes)

lemma length8E:
  assumes "length bs = 8"
  obtains a b c d e f g h where "bs = [a, b, c, d, e, f, g, h]"
  using assms by (auto simp: eval_nat_numeral length_Suc_conv)

lemma key_bytes_of_bytes: "length bs = 8 \<Longrightarrow> key_bytes (key_of_bytes bs) = bs"
  by (erule length8E) simp

lemma key_string_inj [simp]: "key_string k = key_string k' \<longleftrightarrow> k = k'"
  by (simp add: key_string_def)

lemma from_slice_key [simp]: "from_slice k (key_bytes k') = k'"
  by (simp add: from_slice_def)

lemma from_slice_key_string [simp]: "from_slice k (key_string k') = k'"
  by (simp add: key_string_def)

lemma key_bytes_from_slice:
  "key_bytes (from_slice k src) = take 8 src @ drop (length src) (key_bytes k)"
  unfolding from_slice_def by (rule key_bytes_of_bytes) simp

lemma of_char_less_256 [simp]: "(of_char c :: nat) < 256"
  by (metis of_char_mod_256 mod_less_divisor zero_less_numeral)

lemma le_nat_bound: "le_nat bs < 256 ^ length bs"
proof (induction bs)
  case (Cons b bs)
  have "of_char b + 256 * le_nat bs < 256 + 256 * le_nat bs"
    by simp
  also have "\<dots> = 256 * Suc (le_nat bs)" by simp
  also have "\<dots> \<le> 256 * 256 ^ length bs"
    using Cons.IH by (intro mult_le_mono) simp_all
  finally show ?case by simp
qed simp

lemma le_nat_inj:
  "length as = length bs \<Longrightarrow> le_nat as = le_nat bs \<Longrightarrow> as = bs"
proof (induction as bs rule: list_induct2)
  case (Cons a as b bs)
  have "(of_char a + 256 * le_nat as) mod 256 = (of_char b + 256 * le_nat bs) mod 256"
    using Cons.prems by simp
  then have "(of_char a :: nat) = of_char b"
    by (simp add: mod_add_right_eq)
  then show ?case using Cons by (simp add: of_char_eq_iff)
qed simp

lemma unat_le_uint64_key: "unat (le_uint64 (key_bytes k)) = le_nat (key_bytes k)"
  using le_nat_bound[of "key_bytes k"]
  by (simp add: le_uint64_def unat_of_nat take_bit_eq_mod)

lemma key_less_than_nat: "key_less_than k k' \<longleftrightarrow> le_nat (key_bytes k) < le_nat (key_bytes k')"
  by (simp add: key_less_than_def word_less_nat_alt unat_le_uint64_key)

lemma le_nat_key_inj: "le_nat (key_bytes k) = le_nat (key_bytes k') \<longleftrightarrow> k = k'"
  using le_nat_inj[of "key_bytes k" "key_bytes k'"] by auto

text \<open>The order of the B-tree: keys are totally ordered by \<open>LessThan\<close>.\<close>

instantiation key :: linorder
begin

definition less_key :: "key \<Rightarrow> key \<Rightarrow> bool" where
  "less_key k k' = key_less_than k k'"

definition less_eq_key :: "key \<Rightarrow> key \<Rightarrow> bool" where
  "less_eq_key k k' = (key_less_than k k' \<or> k = k')"

instance
  by standard (auto simp: less_key_def less_eq_key_def key_less_than_nat le_nat_key_inj[symmetric])

end

lemma le_nat_append: "le_nat (as @ bs) = le_nat as + 256 ^ length as * le_nat bs"
  by (induction as) (auto simp: algebra_simps)

lemma put_uint32_length [simp]: "length (put_uint32 w) = 4"
  by (simp add: put_uint32_def)

lemma put_uint64_length [simp]: "length (put_uint64 w) = 8"
  by (simp add: put_uint64_def)

lemma byte_at_value: "(of_char (byte_at i w) :: nat) = unat w div 256 ^ i mod 256"
proof -
  have "unat (drop_bit (8 * i) w) = unat w div 2 ^ (8 * i)"
    unfolding unat_drop_bit_eq by (rule drop_bit_eq_div)
  then show ?thesis
    by (simp add: byte_at_def power_mult)
qed

lemma digits4:
  assumes "(n::nat) < 256 ^ 4"
  shows "n mod 256 + 256 * (n div 256 mod 256 + 256 * (n div 256 ^ 2 mod 256 + 256 * (n div 256 ^ 3 mod 256))) = n"
proof -
  define n1 where "n1 = n div 256"
  define n2 where "n2 = n1 div 256"
  define n3 where "n3 = n2 div 256"
  have "n div 256 ^ 2 = n2" "n div 256 ^ 3 = n3"
    by (simp_all add: n1_def n2_def n3_def div_mult2_eq[symmetric])
  moreover have "n3 < 256"
    using assms by (simp add: n1_def n2_def n3_def)
  moreover have "n = 256 * n1 + n mod 256" "n1 = 256 * n2 + n1 mod 256" "n2 = 256 * n3 + n2 mod 256"
    by (simp_all add: n1_def n2_def n3_def)
  ultimately show ?thesis
    by (simp add: n1_def[symmetric])
qed

lemma le_nat_put_uint32: "le_nat (put_uint32 w) = unat w"
proof -
  have "unat w < 256 ^ 4" using unsigned_less[of w] by simp
  from digits4[OF this] show ?thesis
    by (simp only: put_uint32_def le_nat.simps byte_at_value power_0 power_one_right div_by_1
        mult_0_right add_0_right)
qed

lemma put_uint32_inj: "put_uint32 w = put_uint32 w' \<longleftrightarrow> w = w'"
  by (metis le_nat_put_uint32 word_unat_eq_iff)

lemma le_uint32_put_uint32 [simp]: "le_uint32 (put_uint32 w) = w"
  by (simp add: le_uint32_def le_nat_put_uint32)

text \<open>Only four bytes of a key carry the hash.\<close>

definition hash_of :: "(bytes \<Rightarrow> u32) \<Rightarrow> uri \<Rightarrow> u64 \<Rightarrow> u32" where
  "hash_of hf u salt =
     (if salt > 0 then hf (uri_bytes u @ put_uint64 salt) else hf (uri_bytes u))"

lemma hash_uri_bytes:
  "key_bytes (hash_uri hf u dest salt) = put_uint32 (hash_of hf u salt) @ drop 4 (key_bytes dest)"
  by (simp add: hash_uri_def hash_of_def key_bytes_from_slice Let_def)

definition short_key :: "key \<Rightarrow> bool" where
  "short_key k \<longleftrightarrow> drop 4 (key_bytes k) = [nul, nul, nul, nul]"

lemma short_key_empty [simp]: "short_key empty_key"
  by (simp add: short_key_def empty_key_def)

lemma short_key_hash_uri: "short_key dest \<Longrightarrow> short_key (hash_uri hf u dest salt)"
  by (simp add: short_key_def hash_uri_bytes)

lemma hash_uri_short_eq:
  "short_key d \<Longrightarrow> short_key d' \<Longrightarrow>
     hash_uri hf u d s = hash_uri hf v d' s' \<longleftrightarrow> hash_of hf u s = hash_of hf v s'"
proof -
  assume "short_key d" "short_key d'"
  then have "key_bytes (hash_uri hf u d s) = key_bytes (hash_uri hf v d' s') \<longleftrightarrow>
      put_uint32 (hash_of hf u s) = put_uint32 (hash_of hf v s')"
    by (simp add: hash_uri_bytes short_key_def)
  then show ?thesis by (simp add: put_uint32_inj)
qed

lemma le_nat_short: "short_key k \<Longrightarrow> le_nat (key_bytes k) = le_nat (take 4 (key_bytes k))"
  using le_nat_append[of "take 4 (key_bytes k)" "drop 4 (key_bytes k)"]
  unfolding append_take_drop_id by (simp add: short_key_def)

lemma unat_le_uint32: "unat (le_uint32 (key_bytes k)) = le_nat (take 4 (key_bytes k))"
  using le_nat_bound[of "take 4 (key_bytes k)"]
  by (simp add: le_uint32_def unat_of_nat take_bit_eq_mod)

lemma entity_less_short:
  "short_key k \<Longrightarrow> short_key k' \<Longrightarrow> entity_less k k' \<longleftrightarrow> key_less_than k k'"
  by (simp add: entity_less_def key_less_than_nat word_less_nat_alt unat_le_uint32 le_nat_short)

text \<open>There are \<open>2 ^ 32\<close> keys to hand out.\<close>

lemma short_key_inj: "inj_on (\<lambda>k. le_uint32 (key_bytes k)) {k. short_key k}"
proof (rule inj_onI)
  fix k k' assume k: "k \<in> {k. short_key k}" "k' \<in> {k. short_key k}"
    and eq: "le_uint32 (key_bytes k) = le_uint32 (key_bytes k')"
  from eq have "unat (le_uint32 (key_bytes k)) = unat (le_uint32 (key_bytes k'))" by simp
  then have "le_nat (key_bytes k) = le_nat (key_bytes k')"
    using k by (simp add: unat_le_uint32 le_nat_short)
  then show "k = k'" by (simp add: le_nat_key_inj)
qed

lemma card_short_keys: "card {k. short_key k} \<le> 2 ^ 32"
proof -
  have "card {k. short_key k} \<le> card (UNIV :: u32 set)"
    by (rule card_inj_on_le[OF short_key_inj]) auto
  also have "\<dots> = 2 ^ 32" by (simp add: card_word)
  finally show ?thesis .
qed

end
