(* ===== verification/Entities.thy ===== *)
theory Entities
  imports Keys
begin

text \<open>
  The values of the graph database (db/entity.go): an entity with its incoming and outgoing edges,
  the predicate index, and the extended index of edges reached by one or more steps. The maps are
  keyed by the eight bytes of a key as a string, as in the code.
\<close>

type_synonym edge_map = "(string, key list) gomap"
type_synonym pair_map = "(string, (string, u32) gomap) gomap"

record entity =
  PK :: key
  InEdges :: edge_map
  OutEdges :: edge_map

definition new_entity :: entity where
  "new_entity = \<lparr>PK = empty_key, InEdges = [], OutEdges = []\<rparr>"

record predicate_entity =
  PredPK :: key
  Subjects :: pair_map
  Objects :: pair_map

definition new_predicate_entity :: predicate_entity where
  "new_predicate_entity = \<lparr>PredPK = empty_key, Subjects = [], Objects = []\<rparr>"

record extended_index =
  ExtPK :: key
  InPlusEdges :: edge_map
  OutPlusEdges :: edge_map

definition new_extended_index :: extended_index where
  "new_extended_index = \<lparr>ExtPK = empty_key, InPlusEdges = [], OutPlusEdges = []\<rparr>"

section \<open>Adding edges\<close>

text \<open>
  The four \<open>Add...Edge\<close> methods run the same code on different maps: a new edge list, nothing when
  the endpoint is listed already, an append otherwise. The boolean says whether an endpoint was
  added.
\<close>

definition add_edge :: "key \<Rightarrow> key \<Rightarrow> edge_map \<Rightarrow> edge_map \<times> bool" where
  "add_edge predicate endpoint m =
     (case gm_get m (key_string predicate) of
        None \<Rightarrow> (gm_put (key_string predicate) [endpoint] m, True)
      | Some edgeList \<Rightarrow>
          if endpoint \<in> set edgeList then (m, False)
          else (gm_put (key_string predicate) (edgeList @ [endpoint]) m, True))"

definition add_in_edge :: "key \<Rightarrow> key \<Rightarrow> entity \<Rightarrow> entity \<times> bool" where
  "add_in_edge predicate endpoint e =
     (let (m, b) = add_edge predicate endpoint (InEdges e) in (e\<lparr>InEdges := m\<rparr>, b))"

definition add_out_edge :: "key \<Rightarrow> key \<Rightarrow> entity \<Rightarrow> entity \<times> bool" where
  "add_out_edge predicate endpoint e =
     (let (m, b) = add_edge predicate endpoint (OutEdges e) in (e\<lparr>OutEdges := m\<rparr>, b))"

definition add_out_plus_edge :: "key \<Rightarrow> key \<Rightarrow> extended_index \<Rightarrow> extended_index \<times> bool" where
  "add_out_plus_edge predicate endpoint e =
     (let (m, b) = add_edge predicate endpoint (OutPlusEdges e) in (e\<lparr>OutPlusEdges := m\<rparr>, b))"

definition add_in_plus_edge :: "key \<Rightarrow> key \<Rightarrow> extended_index \<Rightarrow> extended_index \<times> bool" where
  "add_in_plus_edge predicate endpoint e =
     (let (m, b) = add_edge predicate endpoint (InPlusEdges e) in (e\<lparr>InPlusEdges := m\<rparr>, b))"

section \<open>The predicate index\<close>

definition add_pair :: "key \<Rightarrow> key \<Rightarrow> pair_map \<Rightarrow> pair_map \<times> bool" where
  "add_pair k k' m =
     (case gm_get m (key_string k) of
        Some submap \<Rightarrow>
          if gm_has submap (key_string k') then (m, False)
          else (gm_put (key_string k) (gm_put (key_string k') 0 submap) m, True)
      | None \<Rightarrow> (gm_put (key_string k) [(key_string k', 0)] m, True))"

definition add_subject_object :: "key \<Rightarrow> key \<Rightarrow> predicate_entity \<Rightarrow> predicate_entity \<times> bool" where
  "add_subject_object subject object e =
     (let (subs, changed1) = add_pair subject object (Subjects e);
          (objs, changed2) = add_pair object subject (Objects e)
      in (e\<lparr>Subjects := subs, Objects := objs\<rparr>, changed1 \<or> changed2))"

section \<open>Abstract view\<close>

text \<open>The endpoints a map lists for a predicate, and the pairs of the predicate index.\<close>

definition edge_list :: "edge_map \<Rightarrow> key \<Rightarrow> key list" where
  "edge_list m p = (case gm_get m (key_string p) of None \<Rightarrow> [] | Some ks \<Rightarrow> ks)"

definition edges :: "edge_map \<Rightarrow> key \<Rightarrow> key set" where
  "edges m p = set (edge_list m p)"

definition pair_in :: "pair_map \<Rightarrow> key \<Rightarrow> key \<Rightarrow> bool" where
  "pair_in m k k' =
     (case gm_get m (key_string k) of None \<Rightarrow> False | Some sub \<Rightarrow> gm_has sub (key_string k'))"

definition pred_pairs :: "predicate_entity \<Rightarrow> (key \<times> key) set" where
  "pred_pairs e = {(s, o'). pair_in (Subjects e) s o'}"

text \<open>
  Well-formedness: distinct map keys of eight bytes, edge lists without repetitions and never
  empty; in the predicate index the two maps hold the same pairs.
\<close>

definition edge_map_wf :: "edge_map \<Rightarrow> bool" where
  "edge_map_wf m \<longleftrightarrow> gm_wf m \<and>
     (\<forall>(s, ks) \<in> set m. length s = 8 \<and> distinct ks \<and> ks \<noteq> [])"

definition entity_wf :: "entity \<Rightarrow> bool" where
  "entity_wf e \<longleftrightarrow> edge_map_wf (InEdges e) \<and> edge_map_wf (OutEdges e)"

definition ext_wf :: "extended_index \<Rightarrow> bool" where
  "ext_wf e \<longleftrightarrow> edge_map_wf (InPlusEdges e) \<and> edge_map_wf (OutPlusEdges e)"

definition pair_map_wf :: "pair_map \<Rightarrow> bool" where
  "pair_map_wf m \<longleftrightarrow> gm_wf m \<and>
     (\<forall>(s, sub) \<in> set m. length s = 8 \<and> gm_wf sub \<and> (\<forall>t \<in> fst ` set sub. length t = 8))"

definition pred_wf :: "predicate_entity \<Rightarrow> bool" where
  "pred_wf e \<longleftrightarrow> pair_map_wf (Subjects e) \<and> pair_map_wf (Objects e) \<and>
     (\<forall>s o'. pair_in (Subjects e) s o' \<longleftrightarrow> pair_in (Objects e) o' s)"

section \<open>Edges: lemmas\<close>

lemma length_key_string [simp]: "length (key_string k) = 8"
  by (simp add: key_string_def)

lemma edges_Nil [simp]: "edges [] p = {}" "edge_list [] p = []"
  by (simp_all add: edges_def edge_list_def)

lemma edge_map_wf_Nil [simp]: "edge_map_wf []"
  by (simp add: edge_map_wf_def)

lemma edges_add_edge:
  "edges (fst (add_edge p k m)) q = (if q = p then insert k (edges m p) else edges m q)"
  by (auto simp: add_edge_def edges_def edge_list_def split: option.splits)

lemma add_edge_new_iff: "snd (add_edge p k m) \<longleftrightarrow> k \<notin> edges m p"
  by (auto simp: add_edge_def edges_def edge_list_def split: option.splits)

lemma add_edge_same: "\<not> snd (add_edge p k m) \<Longrightarrow> fst (add_edge p k m) = m"
  by (auto simp: add_edge_def split: option.splits)

lemma edge_map_wf_put:
  assumes "edge_map_wf m" "distinct ks" "ks \<noteq> []" "length s = 8"
  shows "edge_map_wf (gm_put s ks m)"
  using assms set_gm_put[of s ks m] by (auto simp: edge_map_wf_def)

lemma edge_map_wf_get:
  "edge_map_wf m \<Longrightarrow> gm_get m s = Some ks \<Longrightarrow> distinct ks \<and> ks \<noteq> [] \<and> length s = 8"
  by (auto simp: edge_map_wf_def dest: map_of_SomeD)

lemma edge_map_wf_add_edge [inv_intros]:
  "edge_map_wf m \<Longrightarrow> edge_map_wf (fst (add_edge p k m))"
  by (auto simp: add_edge_def split: option.splits
      intro!: edge_map_wf_put dest: edge_map_wf_get)

text \<open>With distinct lists an entry exists exactly when the edge set is not empty.\<close>

lemma edge_map_wf_entry:
  "edge_map_wf m \<Longrightarrow> gm_get m (key_string p) = None \<longleftrightarrow> edges m p = {}"
  by (auto simp: edges_def edge_list_def split: option.splits dest: edge_map_wf_get)

lemma add_out_edge_sel [store_simps]:
  "PK (fst (add_out_edge p k e)) = PK e"
  "InEdges (fst (add_out_edge p k e)) = InEdges e"
  "OutEdges (fst (add_out_edge p k e)) = fst (add_edge p k (OutEdges e))"
  "snd (add_out_edge p k e) = snd (add_edge p k (OutEdges e))"
  by (simp_all add: add_out_edge_def split: prod.splits)

lemma add_in_edge_sel [store_simps]:
  "PK (fst (add_in_edge p k e)) = PK e"
  "OutEdges (fst (add_in_edge p k e)) = OutEdges e"
  "InEdges (fst (add_in_edge p k e)) = fst (add_edge p k (InEdges e))"
  "snd (add_in_edge p k e) = snd (add_edge p k (InEdges e))"
  by (simp_all add: add_in_edge_def split: prod.splits)

lemma add_out_plus_edge_sel [store_simps]:
  "ExtPK (fst (add_out_plus_edge p k e)) = ExtPK e"
  "InPlusEdges (fst (add_out_plus_edge p k e)) = InPlusEdges e"
  "OutPlusEdges (fst (add_out_plus_edge p k e)) = fst (add_edge p k (OutPlusEdges e))"
  "snd (add_out_plus_edge p k e) = snd (add_edge p k (OutPlusEdges e))"
  by (simp_all add: add_out_plus_edge_def split: prod.splits)

lemma add_in_plus_edge_sel [store_simps]:
  "ExtPK (fst (add_in_plus_edge p k e)) = ExtPK e"
  "OutPlusEdges (fst (add_in_plus_edge p k e)) = OutPlusEdges e"
  "InPlusEdges (fst (add_in_plus_edge p k e)) = fst (add_edge p k (InPlusEdges e))"
  "snd (add_in_plus_edge p k e) = snd (add_edge p k (InPlusEdges e))"
  by (simp_all add: add_in_plus_edge_def split: prod.splits)

lemma entity_wf_new [simp]: "entity_wf new_entity"
  by (simp add: entity_wf_def new_entity_def)

lemma entity_wf_add_out_edge [inv_intros]: "entity_wf e \<Longrightarrow> entity_wf (fst (add_out_edge p k e))"
  by (simp add: entity_wf_def store_simps inv_intros)

lemma entity_wf_add_in_edge [inv_intros]: "entity_wf e \<Longrightarrow> entity_wf (fst (add_in_edge p k e))"
  by (simp add: entity_wf_def store_simps inv_intros)

lemma ext_wf_new [simp]: "ext_wf new_extended_index"
  by (simp add: ext_wf_def new_extended_index_def)

lemma ext_wf_add_out_plus [inv_intros]: "ext_wf e \<Longrightarrow> ext_wf (fst (add_out_plus_edge p k e))"
  by (simp add: ext_wf_def store_simps inv_intros)

lemma ext_wf_add_in_plus [inv_intros]: "ext_wf e \<Longrightarrow> ext_wf (fst (add_in_plus_edge p k e))"
  by (simp add: ext_wf_def store_simps inv_intros)

section \<open>The predicate index: lemmas\<close>

lemma pair_in_add_pair:
  "pair_in (fst (add_pair k l m)) k' l' \<longleftrightarrow> (k' = k \<and> l' = l) \<or> pair_in m k' l'"
  by (auto simp: add_pair_def pair_in_def gm_has_def split: option.splits)

lemma add_pair_new_iff: "snd (add_pair k l m) \<longleftrightarrow> \<not> pair_in m k l"
  by (auto simp: add_pair_def pair_in_def split: option.splits)

lemma pair_map_wf_put:
  assumes "pair_map_wf m" "length s = 8" "gm_wf sub" "\<forall>t \<in> fst ` set sub. length t = 8"
  shows "pair_map_wf (gm_put s sub m)"
  using assms set_gm_put[of s sub m] by (fastforce simp: pair_map_wf_def)

lemma pair_map_wf_get:
  "pair_map_wf m \<Longrightarrow> gm_get m s = Some sub \<Longrightarrow>
     gm_wf sub \<and> length s = 8 \<and> (\<forall>t \<in> fst ` set sub. length t = 8)"
  by (auto simp: pair_map_wf_def dest!: map_of_SomeD)

lemma pair_map_wf_add_pair [inv_intros]:
  assumes "pair_map_wf m"
  shows "pair_map_wf (fst (add_pair k l m))"
proof (cases "gm_get m (key_string k)")
  case None
  then show ?thesis using assms by (auto simp: add_pair_def intro!: pair_map_wf_put)
next
  case (Some sub)
  have "\<forall>t \<in> fst ` set (gm_put (key_string l) 0 sub). length t = 8"
    using pair_map_wf_get[OF assms Some] by (simp add: fst_set_gm_put)
  then show ?thesis
    using assms Some pair_map_wf_get[OF assms Some]
    by (auto simp: add_pair_def intro!: pair_map_wf_put)
qed

lemma add_subject_object_sel [store_simps]:
  "PredPK (fst (add_subject_object s o' e)) = PredPK e"
  "Subjects (fst (add_subject_object s o' e)) = fst (add_pair s o' (Subjects e))"
  "Objects (fst (add_subject_object s o' e)) = fst (add_pair o' s (Objects e))"
  "snd (add_subject_object s o' e) \<longleftrightarrow>
     snd (add_pair s o' (Subjects e)) \<or> snd (add_pair o' s (Objects e))"
  by (simp_all add: add_subject_object_def split: prod.splits)

lemma pred_wf_new [simp]: "pred_wf new_predicate_entity"
  by (simp add: pred_wf_def new_predicate_entity_def pair_map_wf_def pair_in_def)

lemma pred_pairs_new [simp]: "pred_pairs new_predicate_entity = {}"
  by (simp add: pred_pairs_def new_predicate_entity_def pair_in_def)

lemma pred_wf_PredPK [simp]: "pred_wf (e\<lparr>PredPK := k\<rparr>) = pred_wf e"
  by (simp add: pred_wf_def)

lemma pred_pairs_PredPK [simp]: "pred_pairs (e\<lparr>PredPK := k\<rparr>) = pred_pairs e"
  by (simp add: pred_pairs_def)

lemma pred_wf_add_subject_object [inv_intros]:
  "pred_wf e \<Longrightarrow> pred_wf (fst (add_subject_object s o' e))"
  by (auto simp: pred_wf_def store_simps inv_intros pair_in_add_pair)

lemma pred_pairs_add_subject_object:
  "pred_pairs (fst (add_subject_object s o' e)) = insert (s, o') (pred_pairs e)"
  by (auto simp: pred_pairs_def store_simps pair_in_add_pair)

lemma add_subject_object_changed:
  "pred_wf e \<Longrightarrow> snd (add_subject_object s o' e) \<longleftrightarrow> (s, o') \<notin> pred_pairs e"
  by (simp add: store_simps add_pair_new_iff pred_pairs_def pred_wf_def)

text \<open>
  Iterating the two maps of a predicate: every subject with its objects. \<open>pair_list\<close> is the list of
  pairs the nested loops \<open>for subject, objectMap := range ... { for object := range objectMap\<close> visit.
\<close>

definition pair_list :: "pair_map \<Rightarrow> (key \<times> key) list" where
  "pair_list m =
     concat (map (\<lambda>(s, sub). map (\<lambda>(t, _). (from_slice empty_key s, from_slice empty_key t)) sub) m)"

lemma from_slice_inj8:
  "length s = 8 \<Longrightarrow> key_string (from_slice k s) = s"
  by (simp add: key_string_def key_bytes_from_slice)

lemma set_pair_list:
  assumes "pair_map_wf m"
  shows "set (pair_list m) = {(k, l). pair_in m k l}"
proof -
  have wf: "gm_wf m" using assms by (simp add: pair_map_wf_def)
  have "(k, l) \<in> set (pair_list m) \<longleftrightarrow> pair_in m k l" for k l
  proof
    assume "(k, l) \<in> set (pair_list m)"
    then obtain s sub t v where st: "(s, sub) \<in> set m" "(t, v) \<in> set sub"
      "k = from_slice empty_key s" "l = from_slice empty_key t"
      by (auto simp: pair_list_def)
    then have "length s = 8" "length t = 8" "gm_wf sub"
      using assms by (force simp: pair_map_wf_def)+
    then have ks: "key_string k = s" "key_string l = t"
      using st by (simp_all add: from_slice_inj8)
    moreover have "gm_get m s = Some sub" using st(1) wf by simp
    ultimately show "pair_in m k l"
      using st(2) by (force simp: pair_in_def gm_has_iff_key)
  next
    assume "pair_in m k l"
    then obtain sub v where "(key_string k, sub) \<in> set m" "(key_string l, v) \<in> set sub"
      by (auto simp: pair_in_def gm_has_iff_key split: option.splits dest!: map_of_SomeD)
    then show "(k, l) \<in> set (pair_list m)"
      by (force simp: pair_list_def)
  qed
  then show ?thesis by auto
qed

end
