(* ===== verification/Ast.thy ===== *)
theory Ast
  imports Turtle
begin

text \<open>
  The abstract syntax of queries (lang/ast/ast.go): triple patterns with property paths, graph
  groups with unions, the clauses of a query, and the constructor functions the parser's actions
  call. A Go slice is a list, a nil pointer is \<open>None\<close>.
\<close>

section \<open>Paths and triples\<close>

text \<open>\<open>PATTERN_ZERO\<close> is the zero value of the Go type, which no parser action produces.\<close>

datatype pattern =
    PATTERN_ZERO
  | PATTERN_SINGLE
  | PATTERN_ZERO_ONE
  | PATTERN_ONE_PLUS
  | PATTERN_ZERO_PLUS

fun pattern_string :: "pattern \<Rightarrow> string" where
  "pattern_string PATTERN_SINGLE = ''''"
| "pattern_string PATTERN_ZERO_ONE = ''?''"
| "pattern_string PATTERN_ONE_PLUS = ''+''"
| "pattern_string PATTERN_ZERO_PLUS = ''*''"
| "pattern_string PATTERN_ZERO = ''unknown''"

record path_pattern =
  PathPredicate :: uri
  PathMod :: pattern

definition zero_path_pattern :: path_pattern where
  "zero_path_pattern = \<lparr>PathPredicate = empty_uri, PathMod = PATTERN_ZERO\<rparr>"

definition path_pattern_string :: "path_pattern \<Rightarrow> string" where
  "path_pattern_string pp = uri_string (PathPredicate pp) @ pattern_string (PathMod pp)"

record qtriple =
  QSubject :: uri
  QPredicates :: "path_pattern list"
  QObject :: uri

definition qtriple_string :: "qtriple \<Rightarrow> string" where
  "qtriple_string t =
     ''<'' @ uri_string (QSubject t) @ ''|'' @
     concat (map (\<lambda>pp. '' '' @ path_pattern_string pp) (QPredicates t)) @
     '' | '' @ uri_string (QObject t) @ ''>''"

definition qtriple_copy :: "qtriple \<Rightarrow> qtriple" where
  "qtriple_copy t = \<lparr>QSubject = QSubject t, QPredicates = QPredicates t, QObject = QObject t\<rparr>"

section \<open>Groups and clauses\<close>

datatype graph_group = GraphGroup (Terms: "qtriple list") (Unions: "graph_group list")

record where_clause =
  WhereTerms :: "qtriple list"
  WhereGroup :: "graph_group option"

record select_clause =
  SelectVars :: "string list"
  AllVars :: bool

record from_clause =
  Databases :: "string list"
  AllDBs :: bool

record query =
  Select :: select_clause
  From :: from_clause
  QCount :: bool
  InsertTerms :: "qtriple list"
  Where :: where_clause
  Variables :: "string list"
  QType :: nat

definition SELECT_QUERY :: nat where "SELECT_QUERY = 1"
definition INSERT_QUERY :: nat where "INSERT_QUERY = 2"
definition DELETE_QUERY :: nat where "DELETE_QUERY = 4"

definition is_insert :: "query \<Rightarrow> bool" where
  "is_insert q = (and (QType q) INSERT_QUERY = INSERT_QUERY)"

definition is_select :: "query \<Rightarrow> bool" where
  "is_select q = (and (QType q) SELECT_QUERY = SELECT_QUERY)"

section \<open>Variables\<close>

text \<open>
  The variables are collected in a Go map, here a list without repetitions. Reading the map back
  gives them in an order Go does not promise: \<open>ord\<close>.
\<close>

definition add_if_var :: "uri \<Rightarrow> string list \<Rightarrow> string list" where
  "add_if_var u m = (if is_variable u then set_add (uri_string u) m else m)"

definition vars_from_triple :: "qtriple \<Rightarrow> string list \<Rightarrow> string list" where
  "vars_from_triple t m =
     fold (\<lambda>pp. add_if_var (PathPredicate pp)) (QPredicates t)
       (add_if_var (QObject t) (add_if_var (QSubject t) m))"

fun vars_from_group :: "graph_group \<Rightarrow> string list \<Rightarrow> string list" where
  "vars_from_group (GraphGroup ts us) m = fold vars_from_group us (fold vars_from_triple ts m)"

definition collect_vars :: "query \<Rightarrow> string list" where
  "collect_vars q =
     (let m1 = fold vars_from_triple (WhereTerms (Where q)) [];
          m2 = fold vars_from_triple (InsertTerms q) m1
      in case WhereGroup (Where q) of None \<Rightarrow> m2 | Some g \<Rightarrow> vars_from_group g m2)"

definition populate_vars :: "(string list \<Rightarrow> string list) \<Rightarrow> query \<Rightarrow> query" where
  "populate_vars ord q = q\<lparr>Variables := ord (collect_vars q)\<rparr>"

section \<open>Building queries\<close>

definition from_empty :: "from_clause \<Rightarrow> bool" where
  "from_empty f = (Databases f = [] \<and> \<not> AllDBs f)"

definition no_from :: from_clause where
  "no_from = \<lparr>Databases = [], AllDBs = False\<rparr>"

text \<open>What the four constructors share after their struct literal.\<close>

definition finish_query :: "(string list \<Rightarrow> string list) \<Rightarrow> query \<Rightarrow> query" where
  "finish_query ord q0 =
     (let q1 = (if from_empty (From q0) then q0\<lparr>From := (From q0)\<lparr>AllDBs := True\<rparr>\<rparr> else q0);
          q2 = populate_vars ord q1
      in if AllVars (Select q2) then q2\<lparr>Select := (Select q2)\<lparr>SelectVars := Variables q2\<rparr>\<rparr>
         else q2)"

definition new_query ::
    "(string list \<Rightarrow> string list) \<Rightarrow> select_clause \<Rightarrow> where_clause \<Rightarrow> bool \<Rightarrow> query" where
  "new_query ord sel wh count =
     finish_query ord \<lparr>Select = sel, From = no_from, QCount = count, InsertTerms = [],
       Where = wh, Variables = [], QType = SELECT_QUERY\<rparr>"

definition new_insert_query ::
    "(string list \<Rightarrow> string list) \<Rightarrow> qtriple list \<Rightarrow> where_clause \<Rightarrow> bool \<Rightarrow> query" where
  "new_insert_query ord ins wh count =
     finish_query ord \<lparr>Select = \<lparr>SelectVars = [], AllVars = True\<rparr>, From = no_from, QCount = count,
       InsertTerms = ins, Where = wh, Variables = [], QType = INSERT_QUERY\<rparr>"

text \<open>The struct literal of \<open>NewQueryMulti\<close> sets no query type.\<close>

definition new_query_multi ::
    "(string list \<Rightarrow> string list) \<Rightarrow> select_clause \<Rightarrow> from_clause \<Rightarrow> where_clause \<Rightarrow> bool \<Rightarrow> query" where
  "new_query_multi ord sel frm wh count =
     finish_query ord \<lparr>Select = sel, From = frm, QCount = count, InsertTerms = [],
       Where = wh, Variables = [], QType = 0\<rparr>"

definition new_insert_query_multi ::
    "(string list \<Rightarrow> string list) \<Rightarrow> qtriple list \<Rightarrow> from_clause \<Rightarrow> where_clause \<Rightarrow> bool \<Rightarrow> query" where
  "new_insert_query_multi ord ins frm wh count =
     finish_query ord \<lparr>Select = \<lparr>SelectVars = [], AllVars = True\<rparr>, From = frm, QCount = count,
       InsertTerms = ins, Where = wh, Variables = [], QType = INSERT_QUERY\<rparr>"

definition copy_with_new_terms :: "query \<Rightarrow> qtriple list \<Rightarrow> query" where
  "copy_with_new_terms q terms =
     \<lparr>Select = Select q, From = From q, QCount = False, InsertTerms = terms,
      Where = \<lparr>WhereTerms = terms, WhereGroup = None\<rparr>, Variables = Variables q, QType = QType q\<rparr>"

definition query_copy :: "query \<Rightarrow> query" where
  "query_copy q =
     \<lparr>Select = Select q, From = From q, QCount = QCount q, InsertTerms = InsertTerms q,
      Where = Where q, Variables = Variables q, QType = QType q\<rparr>"

section \<open>Iterating and expanding\<close>

fun group_iter_triples :: "(qtriple \<Rightarrow> qtriple) \<Rightarrow> graph_group \<Rightarrow> graph_group" where
  "group_iter_triples f (GraphGroup ts us) =
     GraphGroup (map f ts) (map (group_iter_triples f) us)"

definition iter_triples :: "(qtriple \<Rightarrow> qtriple) \<Rightarrow> query \<Rightarrow> query" where
  "iter_triples f q =
     q\<lparr>Where := \<lparr>WhereTerms = map f (WhereTerms (Where q)),
                 WhereGroup = map_option (group_iter_triples f) (WhereGroup (Where q))\<rparr>,
       InsertTerms := map f (InsertTerms q)\<rparr>"

fun group_iter :: "graph_group \<Rightarrow> uri list" where
  "group_iter (GraphGroup ts us) =
     concat (map (\<lambda>t. [QSubject t, QObject t] @ map PathPredicate (QPredicates t)) ts)
     @ concat (map group_iter us)"

fun expand_group :: "graph_group \<Rightarrow> qtriple list list" where
  "expand_group (GraphGroup ts us) =
     (if us \<noteq> [] then concat (map (\<lambda>u. map (\<lambda>subgroup. ts @ subgroup) (expand_group u)) us)
      else [ts])"

section \<open>The parser's actions\<close>

definition new_all_select_clause :: select_clause where
  "new_all_select_clause = \<lparr>SelectVars = [], AllVars = True\<rparr>"

definition new_select_clause :: "string list \<Rightarrow> select_clause" where
  "new_select_clause vs = \<lparr>SelectVars = vs, AllVars = False\<rparr>"

definition new_all_from_clause :: from_clause where
  "new_all_from_clause = \<lparr>Databases = [], AllDBs = True\<rparr>"

definition new_from_clause :: "string list \<Rightarrow> from_clause" where
  "new_from_clause dbs = \<lparr>Databases = dbs, AllDBs = False\<rparr>"

definition from_string :: "from_clause \<Rightarrow> string" where
  "from_string f = (if AllDBs f then ''*'' else join_with CHR '' '' (Databases f))"

definition new_where_clause :: "qtriple list \<Rightarrow> where_clause" where
  "new_where_clause ts = \<lparr>WhereTerms = ts, WhereGroup = None\<rparr>"

definition new_where_clause_with_graph_group :: "qtriple list \<Rightarrow> graph_group \<Rightarrow> where_clause" where
  "new_where_clause_with_graph_group ts g = \<lparr>WhereTerms = ts, WhereGroup = Some g\<rparr>"

definition new_where_clause_graph_group :: "graph_group \<Rightarrow> where_clause" where
  "new_where_clause_graph_group g = \<lparr>WhereTerms = [], WhereGroup = Some g\<rparr>"

definition graph_group_from_triples :: "qtriple list \<Rightarrow> graph_group" where
  "graph_group_from_triples ts = GraphGroup ts []"

definition graph_group_union :: "graph_group \<Rightarrow> graph_group \<Rightarrow> graph_group" where
  "graph_group_union l r = GraphGroup [] [l, r]"

definition add_triples_to_graph_group :: "graph_group \<Rightarrow> qtriple list \<Rightarrow> graph_group" where
  "add_triples_to_graph_group l ts = GraphGroup (Terms l @ ts) (Unions l)"

definition merge_graph_groups :: "graph_group \<Rightarrow> graph_group \<Rightarrow> graph_group" where
  "merge_graph_groups l r = GraphGroup (Terms l @ Terms r) (Unions l @ Unions r)"

definition new_qtriple :: "uri \<Rightarrow> path_pattern list \<Rightarrow> uri \<Rightarrow> qtriple" where
  "new_qtriple s p o' = \<lparr>QSubject = s, QPredicates = p, QObject = o'\<rparr>"

definition new_triple_block :: "qtriple \<Rightarrow> qtriple list" where
  "new_triple_block t = [t]"

definition append_triple_block :: "qtriple list \<Rightarrow> qtriple \<Rightarrow> qtriple list" where
  "append_triple_block block t = block @ [t]"

definition new_uri :: "string \<Rightarrow> uri" where
  "new_uri v = parse_uri v"

definition new_var_list :: "string \<Rightarrow> string list" where
  "new_var_list v = [v]"

definition append_var :: "string list \<Rightarrow> string \<Rightarrow> string list" where
  "append_var vs v = vs @ [v]"

definition new_string_list :: "string \<Rightarrow> string list" where
  "new_string_list s = [s]"

definition append_string :: "string list \<Rightarrow> string \<Rightarrow> string list" where
  "append_string ss s = ss @ [s]"

definition new_path_sequence :: "path_pattern \<Rightarrow> path_pattern list" where
  "new_path_sequence p = [p]"

definition append_path_sequence :: "path_pattern list \<Rightarrow> path_pattern \<Rightarrow> path_pattern list" where
  "append_path_sequence ps p = ps @ [p]"

definition new_path_pattern :: "string \<Rightarrow> path_pattern" where
  "new_path_pattern lit =
     (let pred = (if lit = ''a'' then ''rdf:type'' else lit)
      in \<lparr>PathPredicate = parse_uri pred, PathMod = PATTERN_SINGLE\<rparr>)"

definition add_path_mod :: "path_pattern \<Rightarrow> pattern \<Rightarrow> path_pattern" where
  "add_path_mod p m = \<lparr>PathPredicate = PathPredicate p, PathMod = m\<rparr>"

definition path_from_var :: "string \<Rightarrow> path_pattern list" where
  "path_from_var v = [\<lparr>PathPredicate = parse_uri v, PathMod = PATTERN_SINGLE\<rparr>]"

section \<open>What a group means\<close>

text \<open>
  \<open>holds\<close> says which triple patterns a candidate solution satisfies. A group asks for all its
  terms and, when it has unions, for one of them.
\<close>

fun group_sat :: "(qtriple \<Rightarrow> bool) \<Rightarrow> graph_group \<Rightarrow> bool" where
  "group_sat holds (GraphGroup ts us) \<longleftrightarrow>
     list_all holds ts \<and> (us = [] \<or> list_ex (group_sat holds) us)"

lemma expand_group_sat:
  "group_sat holds g \<longleftrightarrow> (\<exists>cs \<in> set (expand_group g). list_all holds cs)"
proof (induction g)
  case (GraphGroup ts us)
  show ?case
  proof (cases "us = []")
    case False
    then show ?thesis
      using GraphGroup.IH by (auto simp: list_ex_iff)
  qed simp
qed

lemma expand_group_nonempty: "expand_group g \<noteq> []"
proof (induction g)
  case (GraphGroup ts us)
  then show ?case by (cases us) auto
qed

fun group_triples :: "graph_group \<Rightarrow> qtriple set" where
  "group_triples (GraphGroup ts us) = set ts \<union> (\<Union>u \<in> set us. group_triples u)"

lemma expand_group_triples: "cs \<in> set (expand_group g) \<Longrightarrow> set cs \<subseteq> group_triples g"
proof (induction g arbitrary: cs)
  case (GraphGroup ts us)
  then show ?case by (fastforce split: if_splits)
qed

lemma merge_graph_groups_sat:
  "group_sat holds (merge_graph_groups l r) \<longleftrightarrow>
     list_all holds (Terms l @ Terms r) \<and>
     (Unions l @ Unions r = [] \<or> list_ex (group_sat holds) (Unions l) \<or> list_ex (group_sat holds) (Unions r))"
  by (auto simp: merge_graph_groups_def)

lemma graph_group_union_sat:
  "group_sat holds (graph_group_union l r) \<longleftrightarrow> group_sat holds l \<or> group_sat holds r"
  by (simp add: graph_group_union_def)

lemma add_triples_sat:
  "group_sat holds (add_triples_to_graph_group g ts) \<longleftrightarrow> group_sat holds g \<and> list_all holds ts"
  by (cases g) (auto simp: add_triples_to_graph_group_def)

text \<open>
  Two unions written one after the other ask for one of the four alternatives, not for one of each union:
  the merge of two groups appends their lists of alternatives.
\<close>

lemma merge_unions_disjunction:
  "group_sat holds (merge_graph_groups (graph_group_union a b) (graph_group_union c d)) \<longleftrightarrow>
     group_sat holds a \<or> group_sat holds b \<or> group_sat holds c \<or> group_sat holds d"
  by (auto simp: merge_graph_groups_def graph_group_union_def)

section \<open>The variables of a query\<close>

definition triple_vars :: "qtriple \<Rightarrow> string set" where
  "triple_vars t = uri_string ` {u. is_variable u \<and>
     (u = QSubject t \<or> u = QObject t \<or> u \<in> PathPredicate ` set (QPredicates t))}"

definition group_vars :: "graph_group \<Rightarrow> string set" where
  "group_vars g = (\<Union>t \<in> group_triples g. triple_vars t)"

lemma set_add_if_var [simp]:
  "set (add_if_var u m) = set m \<union> (if is_variable u then {uri_string u} else {})"
  by (simp add: add_if_var_def)

lemma distinct_add_if_var [simp, intro]: "distinct m \<Longrightarrow> distinct (add_if_var u m)"
  by (simp add: add_if_var_def)

lemma set_fold_add_if_var:
  "set (fold (\<lambda>pp. add_if_var (PathPredicate pp)) ps m) =
     set m \<union> uri_string ` {u. is_variable u \<and> u \<in> PathPredicate ` set ps}"
  by (induction ps arbitrary: m) auto

lemma distinct_fold_add_if_var:
  "distinct m \<Longrightarrow> distinct (fold (\<lambda>pp. add_if_var (PathPredicate pp)) ps m)"
  by (induction ps arbitrary: m) auto

lemma set_vars_from_triple [simp]: "set (vars_from_triple t m) = set m \<union> triple_vars t"
  unfolding vars_from_triple_def triple_vars_def set_fold_add_if_var by auto

lemma distinct_vars_from_triple [intro]: "distinct m \<Longrightarrow> distinct (vars_from_triple t m)"
  by (simp add: vars_from_triple_def distinct_fold_add_if_var)

lemma set_fold_vars_from_triple:
  "set (fold vars_from_triple ts m) = set m \<union> (\<Union>t \<in> set ts. triple_vars t)"
  by (induction ts arbitrary: m) auto

lemma distinct_fold_vars_from_triple:
  "distinct m \<Longrightarrow> distinct (fold vars_from_triple ts m)"
  by (induction ts arbitrary: m) auto

lemma set_vars_from_group: "set (vars_from_group g m) = set m \<union> group_vars g"
proof (induction g arbitrary: m)
  case (GraphGroup ts us)
  have "set (fold vars_from_group us m') = set m' \<union> (\<Union>u \<in> set us. group_vars u)" for m'
    using GraphGroup.IH by (induction us arbitrary: m') auto
  then show ?case
    by (auto simp: set_fold_vars_from_triple group_vars_def)
qed

lemma distinct_vars_from_group: "distinct m \<Longrightarrow> distinct (vars_from_group g m)"
proof (induction g arbitrary: m)
  case (GraphGroup ts us)
  have "distinct m' \<Longrightarrow> distinct (fold vars_from_group us m')" for m'
    using GraphGroup.IH by (induction us arbitrary: m') auto
  then show ?case
    using GraphGroup.prems by (simp add: distinct_fold_vars_from_triple)
qed

definition query_vars :: "query \<Rightarrow> string set" where
  "query_vars q = (\<Union>t \<in> set (WhereTerms (Where q)) \<union> set (InsertTerms q). triple_vars t)
     \<union> (case WhereGroup (Where q) of None \<Rightarrow> {} | Some g \<Rightarrow> group_vars g)"

lemma set_collect_vars: "set (collect_vars q) = query_vars q"
  by (auto simp: collect_vars_def query_vars_def Let_def set_vars_from_group
      set_fold_vars_from_triple split: option.splits)

lemma distinct_collect_vars: "distinct (collect_vars q)"
  by (auto simp: collect_vars_def Let_def split: option.splits
      intro!: distinct_vars_from_group distinct_fold_vars_from_triple)

section \<open>Properties\<close>

text \<open>
  C12: The expansion of a graph group is its disjunctive normal form: a solution satisfies the group
  exactly when it satisfies all the triples of one of the expanded lists; there is at least one list,
  and every triple in a list comes from the group.
\<close>

theorem expand_group_correct:
  "(group_sat holds g \<longleftrightarrow> list_ex (list_all holds) (expand_group g)) \<and>
   expand_group g \<noteq> [] \<and> \<Union> (set ` set (expand_group g)) \<subseteq> group_triples g"
  using expand_group_triples[of _ g]
  by (auto simp: expand_group_sat expand_group_nonempty list_ex_iff)

text \<open>
  C27: Every constructor of a query records exactly the variables of its triples, each once; a query for
  all variables selects these, and a query without a database list goes to all databases.
\<close>

theorem new_query_variables:
  assumes "\<And>vs. set (ord vs) = set vs" "\<And>vs. distinct vs \<Longrightarrow> distinct (ord vs)"
  shows "set (Variables (new_query ord sel wh c)) = query_vars (new_query ord sel wh c) \<and>
         distinct (Variables (new_query ord sel wh c)) \<and>
         SelectVars (Select (new_query ord sel wh c)) =
           (if AllVars sel then Variables (new_query ord sel wh c) else SelectVars sel) \<and>
         AllDBs (From (new_query ord sel wh c))"
proof -
  let ?q0 = "\<lparr>Select = sel, From = no_from\<lparr>AllDBs := True\<rparr>, QCount = c, InsertTerms = [],
       Where = wh, Variables = [], QType = SELECT_QUERY\<rparr>"
  have v: "Variables (new_query ord sel wh c) = ord (collect_vars ?q0)"
    by (simp add: new_query_def finish_query_def populate_vars_def from_empty_def no_from_def Let_def)
  have "query_vars (new_query ord sel wh c) = query_vars ?q0"
    by (simp add: new_query_def finish_query_def populate_vars_def from_empty_def no_from_def
        Let_def query_vars_def)
  then show ?thesis
    unfolding v
    by (simp add: assms set_collect_vars distinct_collect_vars)
       (simp add: new_query_def finish_query_def populate_vars_def from_empty_def no_from_def Let_def)
qed

theorem new_query_variables_witness:
  "set (Variables (new_query rev new_all_select_clause
      (new_where_clause [new_qtriple (parse_uri ''?x'') (path_from_var ''?p'') (parse_uri ''?x'')]) False)) =
   query_vars (new_query rev new_all_select_clause
      (new_where_clause [new_qtriple (parse_uri ''?x'') (path_from_var ''?p'') (parse_uri ''?x'')]) False)"
  using new_query_variables[of rev new_all_select_clause
      "new_where_clause [new_qtriple (parse_uri ''?x'') (path_from_var ''?p'') (parse_uri ''?x'')]" False]
  by simp

end
