(* ===== verification/Traversal.thy ===== *)
theory Traversal
  imports Entities Ast
begin

text \<open>
  Graph traversal (db/traversal.go; db/snapshot.go repeats the same functions): following one path
  segment from an entity by breadth-first search with the extended index as a shortcut, following a
  whole path, and the reads on single entities. The interface \<open>traversable\<close> of the code is the
  record \<open>view\<close>: what a snapshot or a transaction answers.
\<close>

section \<open>The traversable interface\<close>

text \<open>
  \<open>vw_graph\<close> are the entities that can be read by key, \<open>vw_all\<close> those that \<open>iterAllEntities\<close> goes through
  (they differ when reads go through a cache, which the iteration does not). \<open>vw_ext\<close> answers \<open>Inr None\<close>
  for the nil index a snapshot returns when there is no entry; a transaction answers an error there.
\<close>

record view =
  vw_hash :: "uri \<Rightarrow> key res"
  vw_uri :: "key \<Rightarrow> uri res"
  vw_graph :: "(key, entity) gomap"
  vw_all :: "(key, entity) gomap"
  vw_missing :: err
  vw_ext :: "key \<Rightarrow> extended_index option res"
  vw_pred :: "key \<Rightarrow> predicate_entity res"
  vw_reverse :: "uri \<Rightarrow> uri option"

definition get_entity_by_hash :: "view \<Rightarrow> key \<Rightarrow> entity res" where
  "get_entity_by_hash v hash =
     (case gm_get (vw_graph v) hash of None \<Rightarrow> Inl (vw_missing v) | Some e \<Rightarrow> Inr e)"

definition get_entity_by_uri :: "view \<Rightarrow> uri \<Rightarrow> entity res" where
  "get_entity_by_uri v u = bind_res (vw_hash v u) (get_entity_by_hash v)"

definition get_extended_index_by_uri :: "view \<Rightarrow> uri \<Rightarrow> extended_index option res" where
  "get_extended_index_by_uri v u = bind_res (vw_hash v u) (vw_ext v)"

definition get_predicate_by_uri :: "view \<Rightarrow> uri \<Rightarrow> predicate_entity res" where
  "get_predicate_by_uri v u = bind_res (vw_hash v u) (vw_pred v)"

section \<open>Path reversal\<close>

text \<open>
  \<open>reversePath\<close> of db/util.go: a path of one segment is returned as it is; otherwise a new slice of
  zero values is filled by swapping from both ends while \<open>i < j\<close>.
\<close>

function reverse_path_loop ::
    "path_pattern list \<Rightarrow> nat \<Rightarrow> nat \<Rightarrow> path_pattern list \<Rightarrow> path_pattern list" where
  "reverse_path_loop path i j newpath =
     (if i < j then reverse_path_loop path (i + 1) (j - 1) (newpath[i := path ! j, j := path ! i])
      else newpath)"
  by pat_completeness auto
termination
  by (relation "measure (\<lambda>(path, i, j, newpath). j - i)") auto

declare reverse_path_loop.simps [simp del]

definition reverse_path :: "path_pattern list \<Rightarrow> path_pattern list" where
  "reverse_path path =
     (let newpath = replicate (length path) zero_path_pattern
      in if length newpath = 1 then path
         else reverse_path_loop path 0 (length path - 1) newpath)"

text \<open>\<open>reversePathPattern\<close>: nil (\<open>None\<close>) when a predicate has no inverse.\<close>

fun reverse_predicates :: "view \<Rightarrow> path_pattern list \<Rightarrow> path_pattern list option" where
  "reverse_predicates v [] = Some []"
| "reverse_predicates v (p # ps) =
     (case vw_reverse v (PathPredicate p) of
        None \<Rightarrow> None
      | Some rev_uri \<Rightarrow> map_option (\<lambda>r. p\<lparr>PathPredicate := rev_uri\<rparr> # r) (reverse_predicates v ps))"

definition reverse_path_pattern :: "view \<Rightarrow> path_pattern list \<Rightarrow> path_pattern list option" where
  "reverse_path_pattern v path = map_option reverse_path (reverse_predicates v path)"

section \<open>Following one segment\<close>

text \<open>
  \<open>followPathFromObject\<close> reads incoming edges and \<open>followPathFromSubject\<close> outgoing edges; apart from
  that they are the same code, so the loop takes the direction as an argument.
\<close>

datatype dir = FromObject | FromSubject

fun dir_edges :: "dir \<Rightarrow> entity \<Rightarrow> edge_map" where
  "dir_edges FromObject e = InEdges e"
| "dir_edges FromSubject e = OutEdges e"

fun dir_plus :: "dir \<Rightarrow> extended_index \<Rightarrow> edge_map" where
  "dir_plus FromObject x = InPlusEdges x"
| "dir_plus FromSubject x = OutPlusEdges x"

text \<open>
  The inner loop of the two closure patterns over the endpoints of an entity: load each one, record
  it, push it on the search stack of the caller and on the local stack. An error ends everything.
\<close>

fun visit_zero_plus ::
    "view \<Rightarrow> key list \<Rightarrow> key list \<Rightarrow> entity list \<Rightarrow> entity list
      \<Rightarrow> err option \<times> key list \<times> entity list \<times> entity list" where
  "visit_zero_plus v [] results stack searchstack = (None, results, stack, searchstack)"
| "visit_zero_plus v (entityHash # ks) results stack searchstack =
     (case get_entity_by_hash v entityHash of
        Inl er \<Rightarrow> (Some er, results, stack, searchstack)
      | Inr nextEntity \<Rightarrow>
          visit_zero_plus v ks (set_add entityHash results) (stack @ [nextEntity])
            (if PK nextEntity \<notin> set results then searchstack @ [nextEntity] else searchstack))"

fun visit_one_plus ::
    "view \<Rightarrow> key list \<Rightarrow> key list \<Rightarrow> entity list \<Rightarrow> entity list
      \<Rightarrow> err option \<times> key list \<times> entity list \<times> entity list" where
  "visit_one_plus v [] results stack searchstack = (None, results, stack, searchstack)"
| "visit_one_plus v (entityHash # ks) results stack searchstack =
     (case get_entity_by_hash v entityHash of
        Inl er \<Rightarrow> (Some er, results, stack, searchstack)
      | Inr nextEntity \<Rightarrow>
          visit_one_plus v ks (set_add (PK nextEntity) results) (stack @ [nextEntity])
            (searchstack @ [nextEntity]))"

text \<open>The entry of the extended index for a predicate, when there is an index and an entry.\<close>

definition index_entry :: "dir \<Rightarrow> extended_index option \<Rightarrow> key \<Rightarrow> key list option" where
  "index_entry d idx p =
     (case idx of None \<Rightarrow> None | Some x \<Rightarrow> gm_get (dir_plus d x) (key_string p))"

lemma visit_zero_plus_stack:
  "visit_zero_plus v ks res stack ss = (er, res', stack', ss') \<Longrightarrow>
     set stack' \<subseteq> set stack \<union> snd ` set (vw_graph v)"
proof (induction v ks res stack ss rule: visit_zero_plus.induct)
  case (2 v k ks res stack ss)
  then show ?case
    by (fastforce simp: get_entity_by_hash_def image_iff split: option.splits dest!: map_of_SomeD)
qed simp

lemma visit_one_plus_stack:
  "visit_one_plus v ks res stack ss = (er, res', stack', ss') \<Longrightarrow>
     set stack' \<subseteq> set stack \<union> snd ` set (vw_graph v)"
proof (induction v ks res stack ss rule: visit_one_plus.induct)
  case (2 v k ks res stack ss)
  then show ?case
    by (fastforce simp: get_entity_by_hash_def image_iff split: option.splits dest!: map_of_SomeD)
qed simp

text \<open>
  The keys that can still be visited: those of the graph and of the stack that are not marked.
  Marking an entity shrinks this finite set, which is why the search ends.
\<close>

definition open_keys :: "view \<Rightarrow> entity list \<Rightarrow> key list \<Rightarrow> key set" where
  "open_keys v stack traversed = (PK ` (snd ` set (vw_graph v) \<union> set stack)) - set traversed"

lemma finite_open_keys [simp]: "finite (open_keys v stack traversed)"
  by (simp add: open_keys_def)

lemma open_keys_pop:
  assumes "PK e \<notin> set traversed" "set stack' \<subseteq> set stack \<union> snd ` set (vw_graph v)"
  shows "card (open_keys v stack' (set_add (PK e) traversed)) < card (open_keys v (e # stack) traversed)"
proof (rule psubset_card_mono)
  have "open_keys v stack' (set_add (PK e) traversed) \<subseteq> open_keys v (e # stack) traversed - {PK e}"
    using assms(2) by (auto simp: open_keys_def)
  moreover have "PK e \<in> open_keys v (e # stack) traversed"
    using assms(1) by (simp add: open_keys_def)
  ultimately show "open_keys v stack' (set_add (PK e) traversed) \<subset> open_keys v (e # stack) traversed"
    by auto
qed simp

lemma open_keys_skip:
  "PK e \<in> set traversed \<Longrightarrow> open_keys v stack traversed = open_keys v (e # stack) traversed"
  by (auto simp: open_keys_def)

text \<open>
  The \<open>switch\<close> on the pattern for an entity popped from the stack: \<open>Inl\<close> is a return of the whole
  search (an error, or a hit in the extended index), \<open>Inr\<close> goes on with a new stack.
\<close>

definition follow_step ::
    "dir \<Rightarrow> view \<Rightarrow> pattern \<Rightarrow> key \<Rightarrow> entity \<Rightarrow> entity list \<Rightarrow> key list \<Rightarrow> entity list
      \<Rightarrow> (err option \<times> key list \<times> entity list) + (entity list \<times> key list \<times> entity list)" where
  "follow_step d v pat predHash entity stack results searchstack =
     (case pat of
        PATTERN_ZERO \<Rightarrow> Inr (stack, results, searchstack)
      | PATTERN_SINGLE \<Rightarrow>
          (case gm_get (dir_edges d entity) (key_string predHash) of
             None \<Rightarrow> Inr (stack, results, searchstack)
           | Some endpoints \<Rightarrow> Inr (stack, fold set_add endpoints results, searchstack))
      | PATTERN_ZERO_ONE \<Rightarrow>
          (let results1 = set_add (PK entity) results in
           case gm_get (dir_edges d entity) (key_string predHash) of
             None \<Rightarrow> Inr (stack, results1, searchstack)
           | Some endpoints \<Rightarrow> Inr (stack, fold set_add endpoints results1, searchstack))
      | PATTERN_ZERO_PLUS \<Rightarrow>
          (let results1 = set_add (PK entity) results in
           case vw_ext v (PK entity) of
             Inl er \<Rightarrow> Inl (Some er, results1, searchstack)
           | Inr idx \<Rightarrow>
               (case index_entry d idx predHash of
                  Some endpoints \<Rightarrow> Inl (None, fold set_add endpoints results1, searchstack)
                | None \<Rightarrow>
                    (case gm_get (dir_edges d entity) (key_string predHash) of
                       None \<Rightarrow> Inr (stack, results1, searchstack)
                     | Some endpoints \<Rightarrow>
                         (case visit_zero_plus v endpoints results1 stack searchstack of
                            (Some er, results2, stack2, ss2) \<Rightarrow> Inl (Some er, results2, ss2)
                          | (None, results2, stack2, ss2) \<Rightarrow> Inr (stack2, results2, ss2)))))
      | PATTERN_ONE_PLUS \<Rightarrow>
          (case vw_ext v (PK entity) of
             Inl er \<Rightarrow> Inl (Some er, results, searchstack)
           | Inr idx \<Rightarrow>
               (case index_entry d idx predHash of
                  Some endpoints \<Rightarrow> Inl (None, fold set_add endpoints results, searchstack)
                | None \<Rightarrow>
                    (case gm_get (dir_edges d entity) (key_string predHash) of
                       None \<Rightarrow> Inr (stack, results, searchstack)
                     | Some endpoints \<Rightarrow>
                         (case visit_one_plus v endpoints results stack searchstack of
                            (Some er, results2, stack2, ss2) \<Rightarrow> Inl (Some er, results2, ss2)
                          | (None, results2, stack2, ss2) \<Rightarrow> Inr (stack2, results2, ss2))))))"

lemma follow_step_stack:
  "follow_step d v pat p e stack res ss = Inr (stack', res', ss') \<Longrightarrow>
     set stack' \<subseteq> set stack \<union> snd ` set (vw_graph v)"
  by (auto simp: follow_step_def Let_def split: pattern.splits option.splits sum.splits prod.splits
      dest!: visit_zero_plus_stack visit_one_plus_stack)

function follow_loop ::
    "dir \<Rightarrow> view \<Rightarrow> pattern \<Rightarrow> key \<Rightarrow> entity list \<Rightarrow> key list \<Rightarrow> key list \<Rightarrow> entity list
      \<Rightarrow> err option \<times> key list \<times> entity list" where
  "follow_loop d v pat predHash [] traversed results searchstack = (None, results, searchstack)"
| "follow_loop d v pat predHash (entity # stack) traversed results searchstack =
     (if PK entity \<in> set traversed then
        follow_loop d v pat predHash stack traversed results searchstack
      else
        (case follow_step d v pat predHash entity stack results searchstack of
           Inl ret \<Rightarrow> ret
         | Inr (stack2, results2, ss2) \<Rightarrow>
             follow_loop d v pat predHash stack2 (set_add (PK entity) traversed) results2 ss2))"
  by pat_completeness auto
termination
proof (relation "measures [\<lambda>(d, v, pat, p, stack, trav, res, ss). card (open_keys v stack trav),
                           \<lambda>(d, v, pat, p, stack, trav, res, ss). length stack]", goal_cases)
  case 1
  show ?case by simp
qed (auto simp: open_keys_skip[symmetric] intro!: open_keys_pop dest!: follow_step_stack[OF sym]
      follow_step_stack)

text \<open>The equation for a non-empty stack unfolds only where a proof asks for it.\<close>

declare follow_loop.simps(2) [simp del]

text \<open>Invariant rule of the loop: \<open>I\<close> holds before each pop, \<open>Q\<close> of what the search returns.\<close>

lemma follow_loop_rule:
  assumes "I stack trav res ss"
    and "\<And>e stack trav res ss. I (e # stack) trav res ss \<Longrightarrow> PK e \<in> set trav \<Longrightarrow> I stack trav res ss"
    and "\<And>e stack trav res ss stack' res' ss'. I (e # stack) trav res ss \<Longrightarrow> PK e \<notin> set trav \<Longrightarrow>
        follow_step d v pat p e stack res ss = Inr (stack', res', ss') \<Longrightarrow>
        I stack' (set_add (PK e) trav) res' ss'"
    and "\<And>e stack trav res ss r. I (e # stack) trav res ss \<Longrightarrow> PK e \<notin> set trav \<Longrightarrow>
        follow_step d v pat p e stack res ss = Inl r \<Longrightarrow> Q r"
    and "\<And>trav res ss. I [] trav res ss \<Longrightarrow> Q (None, res, ss)"
  shows "Q (follow_loop d v pat p stack trav res ss)"
  using assms
proof (induction d v pat p stack trav res ss rule: follow_loop.induct)
  case (1 d v pat p trav res ss)
  show ?case using "1.prems"(1) "1.prems"(5) by simp
next
  case (2 d v pat p e stack trav res ss)
  note I = "2.prems"(1) and skip = "2.prems"(2) and go = "2.prems"(3) and ret = "2.prems"(4)
    and fin = "2.prems"(5)
  show ?case
  proof (cases "PK e \<in> set trav")
    case True
    have "Q (follow_loop d v pat p stack trav res ss)"
      by (rule "2.IH"(1)[OF True skip[OF I True] skip go ret fin])
    then show ?thesis using True by (simp add: follow_loop.simps(2))
  next
    case False
    show ?thesis
    proof (cases "follow_step d v pat p e stack res ss")
      case (Inl r)
      then show ?thesis using ret[OF I False Inl] False by (simp add: follow_loop.simps(2))
    next
      case (Inr t)
      obtain stack' res' ss' where t: "t = (stack', res', ss')" by (cases t)
      have "Q (follow_loop d v pat p stack' (set_add (PK e) trav) res' ss')"
        by (rule "2.IH"(2)[OF False Inr t[symmetric] refl go[OF I False Inr[unfolded t]] skip go ret fin])
      then show ?thesis using False Inr t by (simp add: follow_loop.simps(2))
    qed
  qed
qed

definition follow_path ::
    "dir \<Rightarrow> view \<Rightarrow> entity \<Rightarrow> key list \<Rightarrow> entity list \<Rightarrow> path_pattern
      \<Rightarrow> err option \<times> key list \<times> entity list" where
  "follow_path d v start results searchstack pat =
     (case vw_hash v (PathPredicate pat) of
        Inl er \<Rightarrow> (Some (Wrapped er), results, searchstack)
      | Inr predHash \<Rightarrow> follow_loop d v (PathMod pat) predHash [start] [] results searchstack)"

definition follow_path_from_object ::
    "view \<Rightarrow> entity \<Rightarrow> key list \<Rightarrow> entity list \<Rightarrow> path_pattern
      \<Rightarrow> err option \<times> key list \<times> entity list" where
  "follow_path_from_object = follow_path FromObject"

definition follow_path_from_subject ::
    "view \<Rightarrow> entity \<Rightarrow> key list \<Rightarrow> entity list \<Rightarrow> path_pattern
      \<Rightarrow> err option \<times> key list \<times> entity list" where
  "follow_path_from_subject = follow_path FromSubject"

section \<open>Following a whole path\<close>

lemma visit_zero_plus_searchstack:
  "visit_zero_plus v ks res stack ss = (er, res', stack', ss') \<Longrightarrow>
     set ss' \<subseteq> set ss \<union> snd ` set (vw_graph v)"
proof (induction v ks res stack ss rule: visit_zero_plus.induct)
  case (2 v k ks res stack ss)
  then show ?case
    by (fastforce simp: get_entity_by_hash_def image_iff split: option.splits if_splits dest!: map_of_SomeD)
qed simp

lemma visit_one_plus_searchstack:
  "visit_one_plus v ks res stack ss = (er, res', stack', ss') \<Longrightarrow>
     set ss' \<subseteq> set ss \<union> snd ` set (vw_graph v)"
proof (induction v ks res stack ss rule: visit_one_plus.induct)
  case (2 v k ks res stack ss)
  then show ?case
    by (fastforce simp: get_entity_by_hash_def image_iff split: option.splits dest!: map_of_SomeD)
qed simp

lemma follow_step_searchstack:
  "follow_step d v pat p e stack res ss = Inr (stack', res', ss') \<Longrightarrow>
     set ss' \<subseteq> set ss \<union> snd ` set (vw_graph v)"
  "follow_step d v pat p e stack res ss = Inl (er, res', ss') \<Longrightarrow>
     set ss' \<subseteq> set ss \<union> snd ` set (vw_graph v)"
  by (auto simp: follow_step_def Let_def split: pattern.splits option.splits sum.splits prod.splits
      dest!: visit_zero_plus_searchstack visit_one_plus_searchstack)

lemma follow_loop_searchstack:
  assumes "follow_loop d v pat p stack trav res ss = (er, res', ss')"
  shows "set ss' \<subseteq> set ss \<union> snd ` set (vw_graph v)"
proof -
  have "(\<lambda>(er, res', ss'). set ss' \<subseteq> set ss \<union> snd ` set (vw_graph v))
      (follow_loop d v pat p stack trav res ss)"
    by (rule follow_loop_rule[where I = "\<lambda>_ _ _ ss'. set ss' \<subseteq> set ss \<union> snd ` set (vw_graph v)"])
       (fastforce dest: follow_step_searchstack)+
  then show ?thesis using assms by simp
qed

lemma follow_path_searchstack:
  "follow_path d v e res ss pat = (er, res', ss') \<Longrightarrow>
     set ss' \<subseteq> set ss \<union> snd ` set (vw_graph v)"
  by (auto simp: follow_path_def split: sum.splits dest!: follow_loop_searchstack)

text \<open>
  One segment of a path from every entity on the stack; the searches push further entities on the
  same stack, and their errors are dropped. The result is the set of reached keys.
\<close>

function segment_loop ::
    "dir \<Rightarrow> view \<Rightarrow> path_pattern \<Rightarrow> entity list \<Rightarrow> key list \<Rightarrow> key list \<Rightarrow> key list" where
  "segment_loop d v segment [] traversed reachable = reachable"
| "segment_loop d v segment (entity # stack) traversed reachable =
     (if PK entity \<in> set traversed then segment_loop d v segment stack traversed reachable
      else
        (case follow_path d v entity reachable stack segment of
           (er, reachable', stack') \<Rightarrow>
             segment_loop d v segment stack' (set_add (PK entity) traversed) reachable'))"
  by pat_completeness auto
termination
proof (relation "measures [\<lambda>(d, v, seg, stack, trav, res). card (open_keys v stack trav),
                           \<lambda>(d, v, seg, stack, trav, res). length stack]", goal_cases)
  case 1
  show ?case by simp
qed (auto simp: open_keys_skip[symmetric] intro!: open_keys_pop
      dest!: follow_path_searchstack[OF sym] follow_path_searchstack)

declare segment_loop.simps(2) [simp del]

text \<open>
  The entities pushed for the next segment: those of the reached keys that can be loaded, in the
  order \<open>ord\<close> in which Go iterates the map.
\<close>

definition load_entities :: "view \<Rightarrow> key list \<Rightarrow> entity list" where
  "load_entities v ks =
     concat (map (\<lambda>k. case get_entity_by_hash v k of Inl _ \<Rightarrow> [] | Inr e \<Rightarrow> [e]) ks)"

fun path_loop ::
    "dir \<Rightarrow> view \<Rightarrow> (key list \<Rightarrow> key list) \<Rightarrow> path_pattern list \<Rightarrow> entity list \<Rightarrow> key list" where
  "path_loop d v ord [] stack = []"
| "path_loop d v ord [segment] stack = segment_loop d v segment stack [] []"
| "path_loop d v ord (segment # path) stack =
     path_loop d v ord path (load_entities v (ord (segment_loop d v segment stack [] [])))"

text \<open>
  From an object the search panics on a predicate for which \<open>getHash\<close> gives \<open>leveldb.ErrNotFound\<close>
  itself, as soon as an entity is on the stack; other errors end the search of that entity.
\<close>

definition panics_on :: "view \<Rightarrow> path_pattern \<Rightarrow> bool" where
  "panics_on v segment = (vw_hash v (PathPredicate segment) = Inl LdbNotFound)"

fun path_panics :: "view \<Rightarrow> (key list \<Rightarrow> key list) \<Rightarrow> path_pattern list \<Rightarrow> entity list \<Rightarrow> bool" where
  "path_panics v ord [] stack = False"
| "path_panics v ord [segment] stack = (stack \<noteq> [] \<and> panics_on v segment)"
| "path_panics v ord (segment # path) stack =
     (stack \<noteq> [] \<and> panics_on v segment \<or>
      path_panics v ord path (load_entities v (ord (segment_loop FromObject v segment stack [] []))))"

text \<open>\<open>None\<close> is the panic.\<close>

definition get_subject_from_pred_object ::
    "view \<Rightarrow> (key list \<Rightarrow> key list) \<Rightarrow> key \<Rightarrow> path_pattern list \<Rightarrow> key list res option" where
  "get_subject_from_pred_object v ord objectHash path =
     (case get_entity_by_hash v objectHash of
        Inl er \<Rightarrow> Some (Inl (Wrapped er))
      | Inr objEntity \<Rightarrow>
          if path_panics v ord (reverse_path path) [objEntity] then None
          else Some (Inr (path_loop FromObject v ord (reverse_path path) [objEntity])))"

lemma path_panics_never: "(\<And>u. vw_hash v u \<noteq> Inl LdbNotFound) \<Longrightarrow> \<not> path_panics v ord path stack"
  by (induction v ord path stack rule: path_panics.induct) (simp_all add: panics_on_def)

text \<open>A missing subject gives a nil map, here \<open>None\<close>.\<close>

definition get_object_from_subject_pred ::
    "view \<Rightarrow> (key list \<Rightarrow> key list) \<Rightarrow> key \<Rightarrow> path_pattern list \<Rightarrow> key list option" where
  "get_object_from_subject_pred v ord subjectHash path =
     (case get_entity_by_hash v subjectHash of
        Inl er \<Rightarrow> None
      | Inr subEntity \<Rightarrow> Some (path_loop FromSubject v ord path [subEntity]))"

section \<open>Reads on single entities and on the predicate index\<close>

text \<open>\<open>path[0]\<close> of an empty path panics in Go: \<open>None\<close>.\<close>

definition get_subject_object_from_pred ::
    "view \<Rightarrow> path_pattern list \<Rightarrow> (key \<times> key) list res option" where
  "get_subject_object_from_pred v path =
     (case path of
        [] \<Rightarrow> None
      | pp # _ \<Rightarrow>
          Some (case get_predicate_by_uri v (PathPredicate pp) of
                  Inl er \<Rightarrow> Inl (Wrapped er)
                | Inr pe \<Rightarrow> Inr (pair_list (Subjects pe))))"

definition edge_hits :: "edge_map \<Rightarrow> key \<Rightarrow> key list \<Rightarrow> key list" where
  "edge_hits m pk reachable =
     fold (\<lambda>(edge, objects). if pk \<in> set objects then set_add (from_slice empty_key edge) else id) m reachable"

definition get_predicate_from_subject_object :: "entity \<Rightarrow> entity \<Rightarrow> key list" where
  "get_predicate_from_subject_object subject object =
     edge_hits (OutEdges subject) (PK object) (edge_hits (InEdges subject) (PK object) [])"

definition get_predicates_from_object :: "entity \<Rightarrow> key list" where
  "get_predicates_from_object object =
     fold (\<lambda>edge. set_add (from_slice empty_key edge)) (gm_keys (InEdges object)) []"

definition get_predicates_from_subject :: "entity \<Rightarrow> key list" where
  "get_predicates_from_subject subject =
     fold (\<lambda>edge. set_add (from_slice empty_key edge)) (gm_keys (OutEdges subject)) []"

text \<open>
  \<open>iterAllEntities\<close> with the only callback the program gives it (\<open>resolveVarTripleAll\<close>): every
  outgoing edge of every entity, as triples of keys.
\<close>

definition all_edges :: "view \<Rightarrow> (key \<times> key \<times> key) list" where
  "all_edges v =
     concat (map (\<lambda>(subjectHash, entity).
       concat (map (\<lambda>(edge, objects). map (\<lambda>k. (subjectHash, from_slice empty_key edge, k)) objects)
         (OutEdges entity))) (vw_all v))"

end
