(* ===== verification/Transaction.thy ===== *)
theory Transaction
  imports Traversal
begin

text \<open>
  The store and the write path (db/transaction.go, db/insert.go, db/snapshot.go): the five LevelDB
  databases, the reads of a snapshot and of a transaction, adding URIs and triples, materialising
  inverse edges, rolling up the extended index, and committing.

  A database is a map from byte strings; the model keeps the values decoded (their encoding
  round-trips). LevelDB itself is not under src/: a read fails only with \<open>ErrNotFound\<close> and a write
  does not fail, except for the commits, whose outcome is an argument.
\<close>

section \<open>The databases\<close>

record store =
  entityDB :: "(bytes, key) gomap"
  pkDB :: "(key, bytes) gomap"
  graphDB :: "(key, entity) gomap"
  extendedDB :: "(key, extended_index) gomap"
  predDB :: "(key, predicate_entity) gomap"

definition empty_store :: store where
  "empty_store = \<lparr>entityDB = [], pkDB = [], graphDB = [], extendedDB = [], predDB = []\<rparr>"

definition new_pred :: "key \<Rightarrow> predicate_entity" where
  "new_pred hash = new_predicate_entity\<lparr>PredPK := hash\<rparr>"

section \<open>Reads of a snapshot\<close>

definition snap_get_hash :: "store \<Rightarrow> uri \<Rightarrow> key res" where
  "snap_get_hash st u =
     (case gm_get (entityDB st) (uri_bytes u) of
        None \<Rightarrow> Inl (Wrapped LdbNotFound)
      | Some k \<Rightarrow> if k = empty_key then Inl (Failure ''Got bad hash'') else Inr k)"

definition snap_get_uri :: "store \<Rightarrow> key \<Rightarrow> uri res" where
  "snap_get_uri st hash =
     (case gm_get (pkDB st) hash of None \<Rightarrow> Inl LdbNotFound | Some b \<Rightarrow> Inr (parse_uri b))"

definition snap_must_get_uri :: "store \<Rightarrow> key \<Rightarrow> uri" where
  "snap_must_get_uri st hash =
     (if hash = empty_key then empty_uri
      else case snap_get_uri st hash of Inl er \<Rightarrow> empty_uri | Inr u \<Rightarrow> u)"

definition snap_get_predicate_by_hash :: "store \<Rightarrow> key \<Rightarrow> predicate_entity res" where
  "snap_get_predicate_by_hash st hash =
     (case gm_get (predDB st) hash of None \<Rightarrow> Inr (new_pred hash) | Some p \<Rightarrow> Inr p)"

definition snap_get_entity_by_hash :: "store \<Rightarrow> key \<Rightarrow> entity res" where
  "snap_get_entity_by_hash st hash =
     (case gm_get (graphDB st) hash of None \<Rightarrow> Inl (Wrapped LdbNotFound) | Some e \<Rightarrow> Inr e)"

definition snap_get_extended_index_by_hash :: "store \<Rightarrow> key \<Rightarrow> extended_index option res" where
  "snap_get_extended_index_by_hash st hash = Inr (gm_get (extendedDB st) hash)"

text \<open>The snapshot as a \<open>traversable\<close>; \<open>rels\<close> is \<open>db.relationships\<close>.\<close>

definition snapshot_view :: "(uri, uri) gomap \<Rightarrow> store \<Rightarrow> view" where
  "snapshot_view rels st =
     \<lparr>vw_hash = snap_get_hash st, vw_uri = snap_get_uri st, vw_graph = graphDB st, vw_all = graphDB st,
      vw_missing = Wrapped LdbNotFound, vw_ext = snap_get_extended_index_by_hash st,
      vw_pred = snap_get_predicate_by_hash st, vw_reverse = gm_get rels\<rparr>"

section \<open>Transactions\<close>

text \<open>
  \<open>tx_evicted\<close> collects the keys sent to the cache's channel, in order.
\<close>

record transaction =
  tx_db :: store
  predbatch :: "(key, predicate_entity) gomap"
  triplesAdded :: nat
  hashes :: "(uri, key) gomap"
  inverseRelationships :: "(key, key) gomap"
  tx_evicted :: "key list"

definition open_transaction :: "store \<Rightarrow> transaction" where
  "open_transaction st =
     \<lparr>tx_db = st, predbatch = [], triplesAdded = 0, hashes = [], inverseRelationships = [],
      tx_evicted = []\<rparr>"

definition tx_get_hash :: "transaction \<Rightarrow> uri \<Rightarrow> key res" where
  "tx_get_hash tx u =
     (case gm_get (entityDB (tx_db tx)) (uri_bytes u) of
        None \<Rightarrow> Inl (Failure ''Got non-existent hash'') | Some k \<Rightarrow> Inr k)"

definition tx_get_uri :: "transaction \<Rightarrow> key \<Rightarrow> uri res" where
  "tx_get_uri tx hash =
     (if hash = empty_key then Inr empty_uri
      else case gm_get (pkDB (tx_db tx)) hash of
             None \<Rightarrow> Inl (Wrapped LdbNotFound) | Some b \<Rightarrow> Inr (parse_uri b))"

text \<open>The map \<open>tx.hashes\<close> read at a URI gives the zero key when it is missing.\<close>

definition tx_hash :: "transaction \<Rightarrow> uri \<Rightarrow> key" where
  "tx_hash tx u = (case gm_get (hashes tx) u of None \<Rightarrow> empty_key | Some k \<Rightarrow> k)"

definition put_entity :: "entity \<Rightarrow> transaction \<Rightarrow> transaction" where
  "put_entity ent tx =
     tx\<lparr>tx_db := (tx_db tx)\<lparr>graphDB := gm_put (PK ent) ent (graphDB (tx_db tx))\<rparr>\<rparr>"

text \<open>A missing entity is read as no bytes, whose decoding fails.\<close>

definition tx_get_entity_by_hash :: "transaction \<Rightarrow> key \<Rightarrow> entity res" where
  "tx_get_entity_by_hash tx hash =
     (case gm_get (graphDB (tx_db tx)) hash of
        None \<Rightarrow> Inl (Wrapped (Failure ''short bytes'')) | Some e \<Rightarrow> Inr e)"

definition tx_get_entity_by_uri :: "transaction \<Rightarrow> uri \<Rightarrow> entity res" where
  "tx_get_entity_by_uri tx u = bind_res (tx_get_hash tx u) (tx_get_entity_by_hash tx)"

definition tx_get_extended_index_by_hash :: "transaction \<Rightarrow> key \<Rightarrow> extended_index res" where
  "tx_get_extended_index_by_hash tx hash =
     (case gm_get (extendedDB (tx_db tx)) hash of None \<Rightarrow> Inl LdbNotFound | Some x \<Rightarrow> Inr x)"

definition save_extended_index :: "extended_index \<Rightarrow> transaction \<Rightarrow> transaction" where
  "save_extended_index x tx =
     tx\<lparr>tx_db := (tx_db tx)\<lparr>extendedDB := gm_put (ExtPK x) x (extendedDB (tx_db tx))\<rparr>\<rparr>"

text \<open>
  Reading a predicate puts it into the batch. The batch holds pointers, so what a caller adds to the
  returned entity is in the batch at once; here the callers write the changed entity back.
\<close>

definition tx_get_predicate_by_hash :: "transaction \<Rightarrow> key \<Rightarrow> predicate_entity \<times> transaction" where
  "tx_get_predicate_by_hash tx hash =
     (case gm_get (predbatch tx) hash of
        Some pred \<Rightarrow> (pred, tx)
      | None \<Rightarrow>
          (let pred = (case gm_get (predDB (tx_db tx)) hash of None \<Rightarrow> new_pred hash | Some p \<Rightarrow> p)
           in (pred, tx\<lparr>predbatch := gm_put (PredPK pred) pred (predbatch tx)\<rparr>)))"

definition tx_get_predicate_by_uri ::
    "transaction \<Rightarrow> uri \<Rightarrow> (predicate_entity \<times> transaction) res" where
  "tx_get_predicate_by_uri tx u =
     bind_res (tx_get_hash tx u) (\<lambda>hash. Inr (tx_get_predicate_by_hash tx hash))"

definition tx_get_reverse_relationship :: "transaction \<Rightarrow> uri \<Rightarrow> uri option" where
  "tx_get_reverse_relationship tx forward =
     (case tx_get_hash tx forward of
        Inl er \<Rightarrow> None
      | Inr forwardHash \<Rightarrow>
          (case gm_get (inverseRelationships tx) forwardHash of
             None \<Rightarrow> None
           | Some reverseHash \<Rightarrow>
               (case tx_get_uri tx reverseHash of Inl er \<Rightarrow> None | Inr u \<Rightarrow> Some u)))"

text \<open>The transaction as a \<open>traversable\<close>: a missing extended index is an error here.\<close>

definition transaction_view :: "transaction \<Rightarrow> view" where
  "transaction_view tx =
     \<lparr>vw_hash = tx_get_hash tx, vw_uri = tx_get_uri tx, vw_graph = graphDB (tx_db tx),
      vw_all = graphDB (tx_db tx),
      vw_missing = Wrapped (Failure ''short bytes''),
      vw_ext = (\<lambda>k. map_sum id Some (tx_get_extended_index_by_hash tx k)),
      vw_pred = (\<lambda>k. Inr (fst (tx_get_predicate_by_hash tx k))),
      vw_reverse = tx_get_reverse_relationship tx\<rparr>"

section \<open>Adding a URI\<close>

text \<open>
  The loop looks for a free key by salting the hash. It may run forever (every salted hash may be
  taken), which is the value \<open>None\<close>.
\<close>

partial_function (option) find_key ::
    "(bytes \<Rightarrow> u32) \<Rightarrow> (key, bytes) gomap \<Rightarrow> uri \<Rightarrow> key \<Rightarrow> u64 \<Rightarrow> key option" where
  "find_key hf pk u hashdest salt =
     (if gm_has pk hashdest then find_key hf pk u (hash_uri hf u hashdest (salt + 1)) (salt + 1)
      else Some hashdest)"

declare find_key.simps [code]

definition alloc_key :: "(bytes \<Rightarrow> u32) \<Rightarrow> uri \<Rightarrow> store \<Rightarrow> (key \<times> store) option" where
  "alloc_key hf u st =
     (case find_key hf (pkDB st) u (hash_uri hf u empty_key 0) 0 of
        None \<Rightarrow> None
      | Some k \<Rightarrow>
          Some (k, st\<lparr>entityDB := gm_put (uri_bytes u) k (entityDB st),
                      pkDB := gm_put k (uri_bytes u) (pkDB st)\<rparr>))"

text \<open>The key of a URI: remembered in the transaction, stored already, or new.\<close>

definition resolve_key :: "(bytes \<Rightarrow> u32) \<Rightarrow> uri \<Rightarrow> transaction \<Rightarrow> (key \<times> transaction) option" where
  "resolve_key hf u tx =
     (case gm_get (hashes tx) u of
        Some k \<Rightarrow> Some (k, tx)
      | None \<Rightarrow>
          (case gm_get (entityDB (tx_db tx)) (uri_bytes u) of
             Some k \<Rightarrow> Some (k, tx\<lparr>hashes := gm_put u k (hashes tx)\<rparr>)
           | None \<Rightarrow>
               (case alloc_key hf u (tx_db tx) of
                  None \<Rightarrow> None
                | Some (k, st) \<Rightarrow>
                    Some (k, tx\<lparr>tx_db := st, hashes := gm_put u k (hashes tx)\<rparr>))))"

definition add_uri :: "(bytes \<Rightarrow> u32) \<Rightarrow> uri \<Rightarrow> transaction \<Rightarrow> transaction option" where
  "add_uri hf u tx =
     (case resolve_key hf u tx of
        None \<Rightarrow> None
      | Some (k, tx1) \<Rightarrow>
          Some (if gm_has (graphDB (tx_db tx1)) k then tx1
                else put_entity (new_entity\<lparr>PK := k\<rparr>) tx1))"

section \<open>Adding a triple\<close>

definition plus_uri :: "uri \<Rightarrow> uri" where
  "plus_uri u = u\<lparr>Value := Value u @ ''+''\<rparr>"

fun add_uris :: "(bytes \<Rightarrow> u32) \<Rightarrow> uri list \<Rightarrow> transaction \<Rightarrow> transaction option" where
  "add_uris hf [] tx = Some tx"
| "add_uris hf (u # us) tx =
     (case add_uri hf u tx of None \<Rightarrow> None | Some tx1 \<Rightarrow> add_uris hf us tx1)"

definition evict :: "key \<Rightarrow> transaction \<Rightarrow> transaction" where
  "evict k tx = tx\<lparr>tx_evicted := tx_evicted tx @ [k]\<rparr>"

text \<open>
  The two edges of a triple. Both entities have been read before the first is written; an entity is
  written only when the edge is new to it.
\<close>

definition link_edges :: "key \<Rightarrow> entity \<Rightarrow> entity \<Rightarrow> transaction \<Rightarrow> transaction" where
  "link_edges predicateHash subject object tx =
     (let (subject1, addedOut) = add_out_edge predicateHash (PK object) subject;
          tx1 = (if addedOut then put_entity subject1 tx else tx);
          (object1, addedIn) = add_in_edge predicateHash (PK subject) object
      in if addedIn then put_entity object1 tx1 else tx1)"

text \<open>The part of \<open>addTriple\<close> after the URIs are there.\<close>

definition link_triple :: "triple \<Rightarrow> transaction \<Rightarrow> transaction res" where
  "link_triple t tx =
     (let subjectHash = tx_hash tx (Subject t);
          predicateHash = tx_hash tx (Predicate t);
          objectHash = tx_hash tx (Object t)
      in bind_res (tx_get_predicate_by_uri tx (Predicate t)) (\<lambda>(pred, tx1).
         (let pred1 = fst (add_subject_object subjectHash objectHash pred);
              tx2 = tx1\<lparr>predbatch := gm_put (PredPK pred) pred1 (predbatch tx1)\<rparr>
          in bind_res (tx_get_entity_by_uri tx2 (Subject t)) (\<lambda>subject.
             bind_res (tx_get_entity_by_uri tx2 (Object t)) (\<lambda>object.
               Inr (evict predicateHash (evict objectHash (evict subjectHash
                 (link_edges predicateHash subject object tx2)))))))))"

definition add_triple ::
    "(bytes \<Rightarrow> u32) \<Rightarrow> triple \<Rightarrow> transaction \<Rightarrow> transaction res option" where
  "add_triple hf t tx =
     map_option (link_triple t)
       (add_uris hf [Subject t, Predicate t, Object t, plus_uri (Predicate t)] tx)"

section \<open>Adding a data set\<close>

definition OWL_NAMESPACE :: string where
  "OWL_NAMESPACE = ''http://www.w3.org/2002/07/owl''"

definition INVERSEOF :: uri where
  "INVERSEOF = \<lparr>Namespace = OWL_NAMESPACE, Value = ''inverseOf''\<rparr>"

definition set_inverse :: "key \<Rightarrow> key \<Rightarrow> transaction \<Rightarrow> transaction" where
  "set_inverse a b tx =
     tx\<lparr>inverseRelationships := gm_put b a (gm_put a b (inverseRelationships tx))\<rparr>"

text \<open>A read of a predicate whose result is ignored; it still fills the batch.\<close>

definition touch_predicate :: "uri \<Rightarrow> transaction \<Rightarrow> transaction" where
  "touch_predicate u tx = (case tx_get_predicate_by_uri tx u of Inl er \<Rightarrow> tx | Inr (p, tx1) \<Rightarrow> tx1)"

definition note_inverse :: "triple \<Rightarrow> transaction \<Rightarrow> transaction" where
  "note_inverse t tx =
     (if Namespace (Predicate t) = OWL_NAMESPACE \<and> Value (Predicate t) = ''inverseOf'' then
        touch_predicate (Object t)
          (touch_predicate (Subject t) (set_inverse (tx_hash tx (Subject t)) (tx_hash tx (Object t)) tx))
      else tx)"

text \<open>The first loop: every triple, collecting the set of predicates seen.\<close>

fun add_all ::
    "(bytes \<Rightarrow> u32) \<Rightarrow> triple list \<Rightarrow> key list \<Rightarrow> transaction \<Rightarrow> (key list \<times> transaction) res option" where
  "add_all hf [] newPredicates tx = Some (Inr (newPredicates, tx))"
| "add_all hf (t # ts) newPredicates tx =
     (case add_triple hf t tx of
        None \<Rightarrow> None
      | Some (Inl er) \<Rightarrow> Some (Inl (Wrapped er))
      | Some (Inr tx1) \<Rightarrow>
          (let tx2 = note_inverse t tx1
           in add_all hf ts (set_add (tx_hash tx1 (Predicate t)) newPredicates)
                (tx2\<lparr>triplesAdded := triplesAdded tx2 + 1\<rparr>)))"

text \<open>The orders in which Go iterates the maps, and the keys it picks from sets.\<close>

record orders =
  ord_inverse :: "(key \<times> key) list \<Rightarrow> (key \<times> key) list"
  ord_pairs :: "key \<Rightarrow> (key \<times> key) list \<Rightarrow> (key \<times> key) list"
  ord_preds :: "key list \<Rightarrow> key list"
  ord_ents :: "dir \<Rightarrow> key \<Rightarrow> key list \<Rightarrow> key list"
  pick_max :: "dir \<Rightarrow> key \<Rightarrow> key \<Rightarrow> key list \<Rightarrow> key"
  pick_del :: "dir \<Rightarrow> key \<Rightarrow> key \<Rightarrow> key list \<Rightarrow> key"

text \<open>The second step: the inverse relationships the database knows.\<close>

definition load_inverses :: "orders \<Rightarrow> transaction \<Rightarrow> transaction" where
  "load_inverses ords tx =
     (case tx_get_predicate_by_uri tx INVERSEOF of
        Inl er \<Rightarrow> tx
      | Inr (pred, tx1) \<Rightarrow>
          fold (\<lambda>(sh, oh). set_inverse sh oh) (ord_pairs ords (PredPK pred) (pair_list (Subjects pred))) tx1)"

text \<open>
  The third step adds the edges of every predicate to its inverse and back; the pairs of a predicate
  are those it has when its loop starts (pairs added to a predicate that is its own inverse while it is iterated change nothing).
\<close>

definition link_inverse ::
    "key \<Rightarrow> key \<Rightarrow> key \<times> key \<Rightarrow> predicate_entity \<times> transaction
      \<Rightarrow> (predicate_entity \<times> transaction) res" where
  "link_inverse predicate reversePredicate so st =
     (case so of (subject, object) \<Rightarrow>
        (case st of (revPred, tx) \<Rightarrow>
           bind_res (wrap_err (tx_get_entity_by_hash tx subject)) (\<lambda>subjectEnt.
           bind_res (wrap_err (tx_get_entity_by_hash tx object)) (\<lambda>objectEnt.
             (let subjectEnt1 = fst (add_in_edge reversePredicate object subjectEnt);
                  subjectEnt2 = fst (add_out_edge predicate object subjectEnt1);
                  objectEnt1 = fst (add_out_edge reversePredicate subject objectEnt);
                  objectEnt2 = fst (add_in_edge predicate subject objectEnt1);
                  tx1 = put_entity objectEnt2 (put_entity subjectEnt2 tx)
              in Inr (fst (add_subject_object object subject revPred), tx1))))))"

definition build_inverse ::
    "orders \<Rightarrow> key \<times> key \<Rightarrow> transaction \<Rightarrow> transaction res" where
  "build_inverse ords pr tx =
     (case pr of (predicate, reversePredicate) \<Rightarrow>
        (let (pred, tx1) = tx_get_predicate_by_hash tx predicate;
             (revPred, tx2) = tx_get_predicate_by_hash tx1 reversePredicate
         in bind_res (fold_res (link_inverse predicate reversePredicate)
                       (ord_pairs ords predicate (pair_list (Subjects pred))) (revPred, tx2))
              (\<lambda>(revPred1, tx3). Inr (tx3\<lparr>predbatch := gm_put reversePredicate revPred1 (predbatch tx3)\<rparr>))))"

definition build_inverses :: "orders \<Rightarrow> transaction \<Rightarrow> transaction res" where
  "build_inverses ords tx =
     fold_res (build_inverse ords) (ord_inverse ords (inverseRelationships tx)) tx"

section \<open>Rolling up a predicate\<close>

text \<open>
  \<open>rollupPredicate\<close> returns an error that its caller drops, so what it did before the error stays:
  these functions return the state with an optional error.
\<close>

definition ensure_index :: "key \<Rightarrow> transaction \<Rightarrow> transaction" where
  "ensure_index k tx =
     (if gm_has (extendedDB (tx_db tx)) k then tx
      else save_extended_index (new_extended_index\<lparr>ExtPK := k\<rparr>) tx)"

text \<open>
  The index of the entity itself (its direction) and the one of an entity it reaches (the other one).
\<close>

fun add_plus :: "dir \<Rightarrow> key \<Rightarrow> key \<Rightarrow> extended_index \<Rightarrow> extended_index" where
  "add_plus FromSubject p k x = fst (add_out_plus_edge p k x)"
| "add_plus FromObject p k x = fst (add_in_plus_edge p k x)"

fun other_dir :: "dir \<Rightarrow> dir" where
  "other_dir FromSubject = FromObject"
| "other_dir FromObject = FromSubject"

text \<open>
  \<open>results.Max()\<close> and \<open>results.DeleteMax()\<close> both take some key of a Go map, not necessarily the same
  one; \<open>chosen\<close> makes the choice functions total.
\<close>

definition chosen :: "key \<Rightarrow> key list \<Rightarrow> key" where
  "chosen k ks = (if k \<in> set ks then k else hd ks)"

function drain_results ::
    "orders \<Rightarrow> dir \<Rightarrow> key \<Rightarrow> key \<Rightarrow> key list \<Rightarrow> extended_index \<Rightarrow> transaction
      \<Rightarrow> (extended_index \<times> transaction) + transaction" where
  "drain_results ords d p e results idx tx =
     (if results = [] then Inl (idx, tx)
      else
        (let mx = chosen (pick_max ords d p e results) results;
             dl = chosen (pick_del ords d p e results) results
         in case tx_get_extended_index_by_hash tx mx of
              Inl er \<Rightarrow> Inr tx
            | Inr x \<Rightarrow>
                drain_results ords d p e (remove1 dl results) (add_plus d p dl idx)
                  (save_extended_index (add_plus (other_dir d) p e x) tx)))"
  by pat_completeness auto
termination
  by (relation "measure (\<lambda>(ords, d, p, e, results, idx, tx). length results)")
     (auto simp: chosen_def length_remove1 Let_def)

declare drain_results.simps [simp del]

definition rollup_path :: "uri \<Rightarrow> path_pattern" where
  "rollup_path u = \<lparr>PathPredicate = u, PathMod = PATTERN_ONE_PLUS\<rparr>"

text \<open>
  One iteration over the subjects (or objects) of the predicate; \<open>Inr\<close> is the early return. The map
  of results is shared by all iterations, and empty between them.
\<close>

definition rollup_entity ::
    "orders \<Rightarrow> dir \<Rightarrow> key \<Rightarrow> path_pattern \<Rightarrow> key \<Rightarrow> transaction \<Rightarrow> transaction + transaction" where
  "rollup_entity ords d p path e tx =
     (let tx1 = ensure_index e tx
      in case tx_get_extended_index_by_hash tx1 e of
           Inl er \<Rightarrow> Inr tx1
         | Inr idx \<Rightarrow>
             (case tx_get_entity_by_hash tx1 e of
                Inl er \<Rightarrow> Inr tx1
              | Inr ent \<Rightarrow>
                  (case follow_path d (transaction_view tx1) ent [] [] path of
                     (er, results, ss) \<Rightarrow>
                       (case drain_results ords d p e results idx tx1 of
                          Inr tx2 \<Rightarrow> Inr tx2
                        | Inl (idx2, tx2) \<Rightarrow> Inl (save_extended_index idx2 tx2)))))"

fun rollup_all ::
    "orders \<Rightarrow> dir \<Rightarrow> key \<Rightarrow> path_pattern \<Rightarrow> key list \<Rightarrow> transaction \<Rightarrow> transaction + transaction" where
  "rollup_all ords d p path [] tx = Inl tx"
| "rollup_all ords d p path (e # es) tx =
     (case rollup_entity ords d p path e tx of
        Inr tx1 \<Rightarrow> Inr tx1
      | Inl tx1 \<Rightarrow> rollup_all ords d p path es tx1)"

definition pair_keys :: "pair_map \<Rightarrow> key list" where
  "pair_keys m = map (from_slice empty_key) (gm_keys m)"

definition rollup_predicate :: "orders \<Rightarrow> key \<Rightarrow> transaction \<Rightarrow> transaction" where
  "rollup_predicate ords p tx =
     (case tx_get_uri tx p of
        Inl er \<Rightarrow> tx
      | Inr u \<Rightarrow>
          (let (predicate, tx1) = tx_get_predicate_by_hash tx p;
               path = rollup_path u
           in case rollup_all ords FromSubject p path
                     (ord_ents ords FromSubject p (pair_keys (Subjects predicate))) tx1 of
                Inr tx2 \<Rightarrow> tx2
              | Inl tx2 \<Rightarrow>
                  (case rollup_all ords FromObject p path
                          (ord_ents ords FromObject p (pair_keys (Objects predicate))) tx2 of
                     Inr tx3 \<Rightarrow> tx3 | Inl tx3 \<Rightarrow> tx3)))"

definition rollup_new :: "orders \<Rightarrow> key \<Rightarrow> transaction \<Rightarrow> transaction" where
  "rollup_new ords p tx =
     (let tx1 = rollup_predicate ords p tx
      in case gm_get (inverseRelationships tx1) p of
           None \<Rightarrow> tx1 | Some reversePredicate \<Rightarrow> rollup_predicate ords reversePredicate tx1)"

definition add_triples ::
    "(bytes \<Rightarrow> u32) \<Rightarrow> orders \<Rightarrow> dataset \<Rightarrow> transaction \<Rightarrow> transaction res option" where
  "add_triples hf ords ds tx =
     (case add_all hf (Triples ds) [] tx of
        None \<Rightarrow> None
      | Some (Inl er) \<Rightarrow> Some (Inl er)
      | Some (Inr (newPredicates, tx1)) \<Rightarrow>
          Some (bind_res (build_inverses ords (load_inverses ords tx1))
            (\<lambda>tx2. Inr (fold (rollup_new ords) (ord_preds ords newPredicates) tx2))))"

section \<open>Committing\<close>

text \<open>
  \<open>done\<close> writes the batch into the predicate database and commits the five databases one after the
  other; \<open>commit_faults\<close> says whether the write fails and which commits do. The result is what the databases hold afterwards.
\<close>

definition flush_batch :: "transaction \<Rightarrow> store" where
  "flush_batch tx =
     (tx_db tx)\<lparr>predDB := fold (\<lambda>(k, p). gm_put k p) (predbatch tx) (predDB (tx_db tx))\<rparr>"

record commit_faults =
  fail_write :: bool
  fail_entity :: bool
  fail_pk :: bool
  fail_graph :: bool
  fail_ext :: bool
  fail_pred :: bool

definition commit :: "commit_faults \<Rightarrow> store \<Rightarrow> store \<Rightarrow> err option \<times> store" where
  "commit f new old =
     (let e = Some (Failure ''commit'');
          s1 = old\<lparr>entityDB := entityDB new\<rparr>;
          s2 = s1\<lparr>pkDB := pkDB new\<rparr>;
          s3 = s2\<lparr>graphDB := graphDB new\<rparr>;
          s4 = s3\<lparr>extendedDB := extendedDB new\<rparr>;
          s5 = s4\<lparr>predDB := predDB new\<rparr>
      in if fail_entity f then (e, old)
         else if fail_pk f then (e, s1)
         else if fail_graph f then (e, s2)
         else if fail_ext f then (e, s3)
         else if fail_pred f then (e, s4)
         else (None, s5))"

definition tx_done :: "commit_faults \<Rightarrow> transaction \<Rightarrow> store \<Rightarrow> err option \<times> store" where
  "tx_done f tx old =
     (if fail_write f then (Some (Failure ''write''), old) else commit f (flush_batch tx) old)"

end
