(* ===== verification/TraversalCorrect.thy ===== *)
theory TraversalCorrect
  imports Traversal
begin

text \<open>
  What a path pattern means and that the traversal computes it. The edges of a predicate are a
  relation on keys; a segment denotes the relation, its reflexive closure, its transitive closure or
  its reflexive transitive closure, and a path the composition. The searches of Traversal return
  exactly the image of the start under that relation.
\<close>

section \<open>The meaning of a path\<close>

definition edge_rel :: "dir \<Rightarrow> view \<Rightarrow> key \<Rightarrow> (key \<times> key) set" where
  "edge_rel d v p = {(a, b). \<exists>e. gm_get (vw_graph v) a = Some e \<and> b \<in> edges (dir_edges d e) p}"

fun pattern_rel :: "pattern \<Rightarrow> (key \<times> key) set \<Rightarrow> (key \<times> key) set" where
  "pattern_rel PATTERN_ZERO E = {}"
| "pattern_rel PATTERN_SINGLE E = E"
| "pattern_rel PATTERN_ZERO_ONE E = E\<^sup>="
| "pattern_rel PATTERN_ONE_PLUS E = E\<^sup>+"
| "pattern_rel PATTERN_ZERO_PLUS E = E\<^sup>*"

text \<open>A predicate without a hash selects nothing.\<close>

definition segment_rel :: "dir \<Rightarrow> view \<Rightarrow> path_pattern \<Rightarrow> (key \<times> key) set" where
  "segment_rel d v pp =
     (case vw_hash v (PathPredicate pp) of
        Inl er \<Rightarrow> {} | Inr p \<Rightarrow> pattern_rel (PathMod pp) (edge_rel d v p))"

fun path_rel :: "dir \<Rightarrow> view \<Rightarrow> path_pattern list \<Rightarrow> (key \<times> key) set" where
  "path_rel d v [] = Id"
| "path_rel d v (pp # path) = segment_rel d v pp O path_rel d v path"

section \<open>Views the theorems are about\<close>

text \<open>
  Every entity of the graph is stored under its key and its edges end in the graph; the extended
  index answers without an error, and an entry it has lists everything reachable in one or more
  steps. A snapshot of a database after a complete roll-up is such a view.
\<close>

definition loaded :: "view \<Rightarrow> entity set" where
  "loaded v = {e. gm_get (vw_graph v) (PK e) = Some e}"

definition graph_closed :: "dir \<Rightarrow> view \<Rightarrow> bool" where
  "graph_closed d v \<longleftrightarrow>
     (\<forall>k e. gm_get (vw_graph v) k = Some e \<longrightarrow> PK e = k) \<and>
     (\<forall>p a b. (a, b) \<in> edge_rel d v p \<longrightarrow> gm_get (vw_graph v) b \<noteq> None)"

definition index_exact :: "dir \<Rightarrow> view \<Rightarrow> bool" where
  "index_exact d v \<longleftrightarrow>
     (\<forall>k. gm_get (vw_graph v) k \<noteq> None \<longrightarrow>
        (\<exists>idx. vw_ext v k = Inr idx \<and>
           (\<forall>p ks. index_entry d idx p = Some ks \<longrightarrow> set ks = (edge_rel d v p)\<^sup>+ `` {k})))"

text \<open>From an object, no \<open>getHash\<close> may give the plain \<open>ErrNotFound\<close>; neither snapshots nor transactions do.\<close>

definition view_ok :: "dir \<Rightarrow> view \<Rightarrow> bool" where
  "view_ok d v \<longleftrightarrow> graph_closed d v \<and> index_exact d v \<and>
     (d = FromObject \<longrightarrow> (\<forall>u. vw_hash v u \<noteq> Inl LdbNotFound))"

lemma loaded_edges:
  "e \<in> loaded v \<Longrightarrow> edge_rel d v p `` {PK e} = edges (dir_edges d e) p"
  by (auto simp: loaded_def edge_rel_def)

lemma loaded_edge_iff:
  "e \<in> loaded v \<Longrightarrow> (PK e, k) \<in> edge_rel d v p \<longleftrightarrow>
     k \<in> set (case gm_get (dir_edges d e) (key_string p) of None \<Rightarrow> [] | Some ks \<Rightarrow> ks)"
  by (auto simp: loaded_def edge_rel_def edges_def edge_list_def)

lemma get_entity_loaded:
  assumes "view_ok d v" "gm_get (vw_graph v) k \<noteq> None"
  obtains e where "get_entity_by_hash v k = Inr e" "e \<in> loaded v" "PK e = k"
  using assms by (auto simp: view_ok_def graph_closed_def get_entity_by_hash_def loaded_def)

lemma edge_endpoint_in_graph:
  "view_ok d v \<Longrightarrow> (a, b) \<in> edge_rel d v p \<Longrightarrow> gm_get (vw_graph v) b \<noteq> None"
  by (auto simp: view_ok_def graph_closed_def)

lemma plus_endpoint_in_graph:
  "view_ok d v \<Longrightarrow> (a, b) \<in> (edge_rel d v p)\<^sup>+ \<Longrightarrow> gm_get (vw_graph v) b \<noteq> None"
  by (metis edge_endpoint_in_graph tranclD2)

section \<open>One visit\<close>

lemma visit_zero_plus_spec:
  assumes "view_ok d v" "\<forall>k \<in> set ks. gm_get (vw_graph v) k \<noteq> None"
  shows "\<exists>res' stack' ss'. visit_zero_plus v ks res stack ss = (None, res', stack', ss') \<and>
     set res' = set res \<union> set ks \<and>
     set stack \<subseteq> set stack' \<and> set stack' \<subseteq> set stack \<union> {e \<in> loaded v. PK e \<in> set ks} \<and>
     set ss \<subseteq> set ss' \<and> set ss' \<subseteq> set ss \<union> {e \<in> loaded v. PK e \<in> set ks} \<and>
     set ks \<subseteq> set res \<union> PK ` set ss'"
  using assms(2)
proof (induction ks arbitrary: res stack ss)
  case (Cons k ks)
  obtain e where e: "get_entity_by_hash v k = Inr e" "e \<in> loaded v" "PK e = k"
    using get_entity_loaded[OF assms(1)] Cons.prems by (metis list.set_intros(1))
  let ?ss = "if PK e \<notin> set res then ss @ [e] else ss"
  from Cons.IH[of "set_add k res" "stack @ [e]" ?ss] Cons.prems
  obtain res' stack' ss' where
    r: "visit_zero_plus v ks (set_add k res) (stack @ [e]) ?ss = (None, res', stack', ss')"
    "set res' = set (set_add k res) \<union> set ks"
    "set (stack @ [e]) \<subseteq> set stack'"
    "set stack' \<subseteq> set (stack @ [e]) \<union> {e \<in> loaded v. PK e \<in> set ks}"
    "set ?ss \<subseteq> set ss'" "set ss' \<subseteq> set ?ss \<union> {e \<in> loaded v. PK e \<in> set ks}"
    "set ks \<subseteq> set (set_add k res) \<union> PK ` set ss'"
    by auto
  have k: "k \<in> set res \<union> PK ` set ss'" using r(5) e(3) by (auto split: if_splits)
  show ?case
    using r e k by (auto split: if_splits)
qed simp

lemma visit_one_plus_spec:
  assumes "view_ok d v" "\<forall>k \<in> set ks. gm_get (vw_graph v) k \<noteq> None"
  shows "\<exists>res' stack' ss'. visit_one_plus v ks res stack ss = (None, res', stack', ss') \<and>
     set res' = set res \<union> set ks \<and>
     set stack \<subseteq> set stack' \<and> set stack' \<subseteq> set stack \<union> {e \<in> loaded v. PK e \<in> set ks} \<and>
     set ss \<subseteq> set ss' \<and> set ss' \<subseteq> set ss \<union> {e \<in> loaded v. PK e \<in> set ks} \<and>
     set ks \<subseteq> PK ` set ss'"
  using assms(2)
proof (induction ks arbitrary: res stack ss)
  case (Cons k ks)
  obtain e where e: "get_entity_by_hash v k = Inr e" "e \<in> loaded v" "PK e = k"
    using get_entity_loaded[OF assms(1)] Cons.prems by (metis list.set_intros(1))
  from Cons.IH[of "set_add k res" "stack @ [e]" "ss @ [e]"] Cons.prems
  obtain res' stack' ss' where
    r: "visit_one_plus v ks (set_add k res) (stack @ [e]) (ss @ [e]) = (None, res', stack', ss')"
    "set res' = set (set_add k res) \<union> set ks"
    "set (stack @ [e]) \<subseteq> set stack'"
    "set stack' \<subseteq> set (stack @ [e]) \<union> {e \<in> loaded v. PK e \<in> set ks}"
    "set (ss @ [e]) \<subseteq> set ss'" "set ss' \<subseteq> set (ss @ [e]) \<union> {e \<in> loaded v. PK e \<in> set ks}"
    "set ks \<subseteq> PK ` set ss'"
    by auto
  show ?case using r e by auto
qed simp

text \<open>The keys a pattern adds for the entity itself.\<close>

definition self_keys :: "pattern \<Rightarrow> key \<Rightarrow> key set" where
  "self_keys pat k = (if pat = PATTERN_ZERO_PLUS then {k} else {})"

text \<open>
  One iteration of a closure search: it either ends at an index entry, adding everything reachable,
  or adds the direct endpoints, all of which are pushed on the local stack and, when they are new, on
  the stack of the caller.
\<close>

definition step_stops where
  "step_stops d v pat p e res ss r \<longleftrightarrow>
     (\<exists>res'. r = Inl (None, res', ss) \<and>
        set res' = set res \<union> self_keys pat (PK e) \<union> (edge_rel d v p)\<^sup>+ `` {PK e})"

definition step_goes_on where
  "step_goes_on d v pat p e stack res ss r \<longleftrightarrow>
     (\<exists>stack' res' ss'. r = Inr (stack', res', ss') \<and>
        set res' = set res \<union> self_keys pat (PK e) \<union> edge_rel d v p `` {PK e} \<and>
        set stack' \<subseteq> set stack \<union> {e' \<in> loaded v. (PK e, PK e') \<in> edge_rel d v p} \<and>
        set ss \<subseteq> set ss' \<and>
        set ss' \<subseteq> set ss \<union> {e' \<in> loaded v. (PK e, PK e') \<in> edge_rel d v p} \<and>
        edge_rel d v p `` {PK e} \<subseteq> set res \<union> self_keys pat (PK e) \<union> PK ` set ss')"

lemma closure_step:
  assumes ok: "view_ok d v" and e: "e \<in> loaded v"
    and pat: "pat = PATTERN_ZERO_PLUS \<or> pat = PATTERN_ONE_PLUS"
  shows "step_stops d v pat p e res ss (follow_step d v pat p e stack res ss) \<or>
         step_goes_on d v pat p e stack res ss (follow_step d v pat p e stack res ss)"
proof -
  from e have "gm_get (vw_graph v) (PK e) \<noteq> None" by (simp add: loaded_def)
  then obtain idx where idx: "vw_ext v (PK e) = Inr idx"
    "\<And>p ks. index_entry d idx p = Some ks \<Longrightarrow> set ks = (edge_rel d v p)\<^sup>+ `` {PK e}"
    using ok by (auto simp: view_ok_def index_exact_def)
  note E = loaded_edges[OF e, of d p]
  show ?thesis
  proof (cases "index_entry d idx p")
    case (Some ks)
    then show ?thesis
      using pat idx by (auto simp: step_stops_def follow_step_def self_keys_def Let_def)
  next
    case None
    show ?thesis
    proof (cases "gm_get (dir_edges d e) (key_string p)")
      case None2: None
      then have "edge_rel d v p `` {PK e} = {}"
        by (simp add: E edges_def edge_list_def)
      then show ?thesis
        using pat idx None None2
        by (auto simp: step_goes_on_def follow_step_def self_keys_def Let_def)
    next
      case (Some ks)
      then have ks: "edge_rel d v p `` {PK e} = set ks"
        by (simp add: E edges_def edge_list_def)
      then have in_g: "\<forall>k \<in> set ks. gm_get (vw_graph v) k \<noteq> None"
        using edge_endpoint_in_graph[OF ok] by blast
      have L: "{e \<in> loaded v. PK e \<in> set ks} = {e' \<in> loaded v. (PK e, PK e') \<in> edge_rel d v p}"
        using ks by auto
      from pat show ?thesis
      proof
        assume zp: "pat = PATTERN_ZERO_PLUS"
        show ?thesis
          using visit_zero_plus_spec[OF ok in_g, of "set_add (PK e) res" stack ss]
          unfolding L zp follow_step_def step_goes_on_def self_keys_def ks
          by (auto simp: Let_def idx(1) None Some)
      next
        assume op: "pat = PATTERN_ONE_PLUS"
        show ?thesis
          using visit_one_plus_spec[OF ok in_g, of res stack ss]
          unfolding L op follow_step_def step_goes_on_def self_keys_def ks
          by (auto simp: Let_def idx(1) None Some)
      qed
    qed
  qed
qed

section \<open>One closure search\<close>

text \<open>
  The invariant of the search from \<open>e0\<close> with the results and the stack of the caller: it reaches
  nothing wrong, and everything it adds is handed to the caller's stack to be explored.
\<close>

definition search_inv where
  "search_inv d v pat p e0 res0 ss0 stack trav res ss \<longleftrightarrow>
     set res0 \<subseteq> set res \<and>
     set res \<subseteq> set res0 \<union> self_keys pat (PK e0) \<union> (edge_rel d v p)\<^sup>+ `` {PK e0} \<and>
     set stack \<subseteq> loaded v \<and>
     PK ` set stack \<subseteq> insert (PK e0) (set res \<inter> (edge_rel d v p)\<^sup>+ `` {PK e0}) \<and>
     set ss0 \<subseteq> set ss \<and>
     set ss \<subseteq> set ss0 \<union> {e \<in> loaded v. (PK e0, PK e) \<in> (edge_rel d v p)\<^sup>+} \<and>
     set res \<subseteq> insert (PK e0) (set res0 \<union> PK ` set ss) \<and>
     (edge_rel d v p `` {PK e0} \<union> self_keys pat (PK e0) \<subseteq> set res \<or>
        (\<exists>st. stack = e0 # st \<and> PK e0 \<notin> set trav))"

definition search_post where
  "search_post d v pat p e0 res0 ss0 r \<longleftrightarrow>
     (\<exists>res ss. r = (None, res, ss) \<and>
        set res0 \<subseteq> set res \<and>
        set res \<subseteq> set res0 \<union> self_keys pat (PK e0) \<union> (edge_rel d v p)\<^sup>+ `` {PK e0} \<and>
        set ss0 \<subseteq> set ss \<and>
        set ss \<subseteq> set ss0 \<union> {e \<in> loaded v. (PK e0, PK e) \<in> (edge_rel d v p)\<^sup>+} \<and>
        (\<forall>k \<in> set res. k = PK e0 \<or> k \<in> set res0 \<or> k \<in> PK ` set ss \<or>
            (edge_rel d v p)\<^sup>+ `` {k} \<subseteq> set res) \<and>
        edge_rel d v p `` {PK e0} \<union> self_keys pat (PK e0) \<subseteq> set res)"

lemma search_invD:
  assumes "search_inv d v pat p e0 res0 ss0 stack trav res ss"
  shows "set res0 \<subseteq> set res"
    and "set res \<subseteq> set res0 \<union> self_keys pat (PK e0) \<union> (edge_rel d v p)\<^sup>+ `` {PK e0}"
    and "set stack \<subseteq> loaded v"
    and "PK ` set stack \<subseteq> insert (PK e0) (set res \<inter> (edge_rel d v p)\<^sup>+ `` {PK e0})"
    and "set ss0 \<subseteq> set ss"
    and "set ss \<subseteq> set ss0 \<union> {e \<in> loaded v. (PK e0, PK e) \<in> (edge_rel d v p)\<^sup>+}"
    and "set res \<subseteq> insert (PK e0) (set res0 \<union> PK ` set ss)"
  using assms unfolding search_inv_def by simp_all

lemma search_inv_start:
  "e0 \<in> loaded v \<Longrightarrow> search_inv d v pat p e0 res0 ss0 [e0] [] res0 ss0"
  by (auto simp: search_inv_def)

lemma search_inv_skip:
  "search_inv d v pat p e0 res0 ss0 (e # stack) trav res ss \<Longrightarrow> PK e \<in> set trav \<Longrightarrow>
     search_inv d v pat p e0 res0 ss0 stack trav res ss"
  unfolding search_inv_def by (elim conjE disjE; intro conjI; auto)

lemma search_inv_end:
  "search_inv d v pat p e0 res0 ss0 [] trav res ss \<Longrightarrow>
     search_post d v pat p e0 res0 ss0 (None, res, ss)"
  unfolding search_inv_def search_post_def by (intro exI conjI refl; auto)

lemma search_inv_top:
  assumes "search_inv d v pat p e0 res0 ss0 (e # stack) trav res ss"
  shows "PK e = PK e0 \<or> (PK e0, PK e) \<in> (edge_rel d v p)\<^sup>+"
    and "self_keys pat (PK e) \<subseteq> insert (PK e0) (set res)"
    and "e \<in> loaded v"
  using assms by (auto simp: search_inv_def self_keys_def)

lemma search_inv_stop:
  assumes inv: "search_inv d v pat p e0 res0 ss0 (e # stack) trav res ss"
    and stop: "step_stops d v pat p e res ss r"
  shows "\<exists>res'. r = Inl (None, res', ss) \<and> search_post d v pat p e0 res0 ss0 (None, res', ss)"
proof -
  let ?E = "edge_rel d v p"
  from stop obtain res' where r: "r = Inl (None, res', ss)"
    and res': "set res' = set res \<union> self_keys pat (PK e) \<union> ?E\<^sup>+ `` {PK e}"
    by (auto simp: step_stops_def)
  note top = search_inv_top[OF inv]
  have new: "?E\<^sup>+ `` {k} \<subseteq> set res'" if "k \<in> ?E\<^sup>+ `` {PK e}" for k
    using that res' by (auto intro: trancl_trans)
  have sub: "?E\<^sup>+ `` {PK e} \<subseteq> ?E\<^sup>+ `` {PK e0}"
    using top(1) by (auto intro: trancl_trans)
  have self: "self_keys pat (PK e) \<subseteq> self_keys pat (PK e0) \<union> ?E\<^sup>+ `` {PK e0}"
    using top(1) by (auto simp: self_keys_def)
  have done0: "?E `` {PK e0} \<union> self_keys pat (PK e0) \<subseteq> set res'"
    using inv res' unfolding search_inv_def by (auto simp: self_keys_def)
  have k: "\<forall>k \<in> set res'. k = PK e0 \<or> k \<in> set res0 \<or> k \<in> PK ` set ss \<or> ?E\<^sup>+ `` {k} \<subseteq> set res'"
  proof
    fix k assume "k \<in> set res'"
    then consider "k \<in> set res" | "k \<in> self_keys pat (PK e)" | "k \<in> ?E\<^sup>+ `` {PK e}"
      using res' by blast
    then show "k = PK e0 \<or> k \<in> set res0 \<or> k \<in> PK ` set ss \<or> ?E\<^sup>+ `` {k} \<subseteq> set res'"
    proof cases
      case 1
      then show ?thesis using inv unfolding search_inv_def by blast
    next
      case 2
      then show ?thesis using res' by (auto simp: self_keys_def split: if_splits)
    next
      case 3
      then show ?thesis using new by blast
    qed
  qed
  note i = search_invD[OF inv]
  have "set res0 \<subseteq> set res'" "set res' \<subseteq> set res0 \<union> self_keys pat (PK e0) \<union> ?E\<^sup>+ `` {PK e0}"
    using i(1,2) res' sub self by blast+
  then have "search_post d v pat p e0 res0 ss0 (None, res', ss)"
    using i(5,6) k done0 by (auto simp: search_post_def)
  then show ?thesis using r by blast
qed

lemma search_inv_go:
  assumes inv: "search_inv d v pat p e0 res0 ss0 (e # stack) trav res ss"
    and go: "step_goes_on d v pat p e stack res ss r"
  shows "\<exists>stack' res' ss'. r = Inr (stack', res', ss') \<and>
     search_inv d v pat p e0 res0 ss0 stack' (set_add (PK e) trav) res' ss'"
proof -
  let ?E = "edge_rel d v p"
  from go obtain stack' res' ss' where r: "r = Inr (stack', res', ss')"
    and res': "set res' = set res \<union> self_keys pat (PK e) \<union> ?E `` {PK e}"
    and stack': "set stack' \<subseteq> set stack \<union> {e' \<in> loaded v. (PK e, PK e') \<in> ?E}"
    and ss': "set ss \<subseteq> set ss'" "set ss' \<subseteq> set ss \<union> {e' \<in> loaded v. (PK e, PK e') \<in> ?E}"
    and new: "?E `` {PK e} \<subseteq> set res \<union> self_keys pat (PK e) \<union> PK ` set ss'"
    by (auto simp: step_goes_on_def)
  note top = search_inv_top[OF inv]
  have sub: "?E `` {PK e} \<subseteq> ?E\<^sup>+ `` {PK e0}"
    using top(1) by (auto intro: trancl_into_trancl)
  have self: "self_keys pat (PK e) \<subseteq> self_keys pat (PK e0) \<union> ?E\<^sup>+ `` {PK e0}"
    using top(1) by (auto simp: self_keys_def)
  have done0: "?E `` {PK e0} \<union> self_keys pat (PK e0) \<subseteq> set res'"
    using inv res' unfolding search_inv_def by (auto simp: self_keys_def)
  have stack_pk: "PK ` set stack' \<subseteq> insert (PK e0) (set res' \<inter> ?E\<^sup>+ `` {PK e0})"
  proof
    fix k assume "k \<in> PK ` set stack'"
    then obtain e' where e': "e' \<in> set stack'" "k = PK e'" by blast
    then have "e' \<in> set stack \<or> (PK e, PK e') \<in> ?E" using stack' by blast
    then show "k \<in> insert (PK e0) (set res' \<inter> ?E\<^sup>+ `` {PK e0})"
      using inv res' sub e'(2) unfolding search_inv_def by auto
  qed
  note i = search_invD[OF inv]
  have "set res0 \<subseteq> set res'" "set res' \<subseteq> set res0 \<union> self_keys pat (PK e0) \<union> ?E\<^sup>+ `` {PK e0}"
    using i(1,2) res' sub self by blast+
  moreover have "set stack' \<subseteq> loaded v" using i(3) stack' by auto
  moreover have "set ss0 \<subseteq> set ss'" "set ss' \<subseteq> set ss0 \<union> {e \<in> loaded v. (PK e0, PK e) \<in> ?E\<^sup>+}"
    using i(5,6) ss' sub by blast+
  moreover have "set res' \<subseteq> insert (PK e0) (set res0 \<union> PK ` set ss')"
    using i(7) top(2) res' new ss'(1) by blast
  ultimately have "search_inv d v pat p e0 res0 ss0 stack' (set_add (PK e) trav) res' ss'"
    unfolding search_inv_def using stack_pk done0 by (intro conjI) simp_all
  then show ?thesis using r by blast
qed

lemma closure_search:
  assumes ok: "view_ok d v" and e0: "e0 \<in> loaded v"
    and pat: "pat = PATTERN_ZERO_PLUS \<or> pat = PATTERN_ONE_PLUS"
  shows "search_post d v pat p e0 res0 ss0 (follow_loop d v pat p [e0] [] res0 ss0)"
proof (rule follow_loop_rule[where I = "search_inv d v pat p e0 res0 ss0"])
  show "search_inv d v pat p e0 res0 ss0 [e0] [] res0 ss0"
    using e0 by (rule search_inv_start)
next
  fix e stack trav res ss
  assume "search_inv d v pat p e0 res0 ss0 (e # stack) trav res ss" "PK e \<in> set trav"
  then show "search_inv d v pat p e0 res0 ss0 stack trav res ss" by (rule search_inv_skip)
next
  fix e stack trav res ss stack' res' ss'
  assume inv: "search_inv d v pat p e0 res0 ss0 (e # stack) trav res ss"
    and step: "follow_step d v pat p e stack res ss = Inr (stack', res', ss')"
  have "\<not> step_stops d v pat p e res ss (follow_step d v pat p e stack res ss)"
    by (simp add: step step_stops_def)
  then have "step_goes_on d v pat p e stack res ss (follow_step d v pat p e stack res ss)"
    using closure_step[OF ok search_inv_top(3)[OF inv] pat] by blast
  from search_inv_go[OF inv this]
  show "search_inv d v pat p e0 res0 ss0 stack' (set_add (PK e) trav) res' ss'"
    by (simp add: step)
next
  fix e stack trav res ss r
  assume inv: "search_inv d v pat p e0 res0 ss0 (e # stack) trav res ss"
    and step: "follow_step d v pat p e stack res ss = Inl r"
  have "\<not> step_goes_on d v pat p e stack res ss (follow_step d v pat p e stack res ss)"
    by (simp add: step step_goes_on_def)
  then have "step_stops d v pat p e res ss (follow_step d v pat p e stack res ss)"
    using closure_step[OF ok search_inv_top(3)[OF inv] pat] by blast
  from search_inv_stop[OF inv this]
  show "search_post d v pat p e0 res0 ss0 r"
    by (auto simp: step)
next
  fix trav res ss
  assume "search_inv d v pat p e0 res0 ss0 [] trav res ss"
  then show "search_post d v pat p e0 res0 ss0 (None, res, ss)" by (rule search_inv_end)
qed

section \<open>One segment from a set of entities\<close>

lemma segment_loop_rule:
  assumes "I stack trav reach"
    and "\<And>e stack trav reach. I (e # stack) trav reach \<Longrightarrow> PK e \<in> set trav \<Longrightarrow> I stack trav reach"
    and "\<And>e stack trav reach er reach' stack'. I (e # stack) trav reach \<Longrightarrow> PK e \<notin> set trav \<Longrightarrow>
        follow_path d v e reach stack segment = (er, reach', stack') \<Longrightarrow>
        I stack' (set_add (PK e) trav) reach'"
  shows "\<exists>trav'. I [] trav' (segment_loop d v segment stack trav reach)"
  using assms
proof (induction d v segment stack trav reach rule: segment_loop.induct)
  case (1 d v segment trav reach)
  show ?case using "1.prems"(1) by auto
next
  case (2 d v segment e stack trav reach)
  note I = "2.prems"(1) and skip = "2.prems"(2) and go = "2.prems"(3)
  show ?case
  proof (cases "PK e \<in> set trav")
    case True
    have "\<exists>trav'. I [] trav' (segment_loop d v segment stack trav reach)"
      by (rule "2.IH"(1)[OF True skip[OF I True] skip go])
    then show ?thesis using True by (simp add: segment_loop.simps(2))
  next
    case False
    obtain er reach' stack' where fp: "follow_path d v e reach stack segment = (er, reach', stack')"
      by (cases "follow_path d v e reach stack segment")
    have "\<exists>trav'. I [] trav' (segment_loop d v segment stack' (set_add (PK e) trav) reach')"
      by (rule "2.IH"(2)[OF False fp[symmetric] refl go[OF I False fp] skip go])
    then show ?thesis using False fp by (simp add: segment_loop.simps(2))
  qed
qed

text \<open>The patterns that look at one entity only.\<close>

lemma follow_path_flat:
  assumes e: "e \<in> loaded v"
    and pat: "PathMod seg \<noteq> PATTERN_ZERO_PLUS" "PathMod seg \<noteq> PATTERN_ONE_PLUS"
  shows "\<exists>er res'. follow_path d v e res ss seg = (er, res', ss) \<and>
     set res' = set res \<union> segment_rel d v seg `` {PK e}"
  using pat
  by (cases "PathMod seg"; cases "vw_hash v (PathPredicate seg)";
      auto simp: follow_path_def follow_loop.simps(2) follow_step_def Let_def segment_rel_def
        loaded_edge_iff[OF e] split: option.splits)

lemma segment_flat:
  assumes "set stack \<subseteq> loaded v" "PathMod seg \<noteq> PATTERN_ZERO_PLUS" "PathMod seg \<noteq> PATTERN_ONE_PLUS"
  shows "set (segment_loop d v seg stack [] []) = segment_rel d v seg `` (PK ` set stack)"
proof -
  let ?R = "segment_rel d v seg"
  let ?I = "\<lambda>stack' trav reach. set stack' \<subseteq> loaded v \<and> set reach = ?R `` set trav \<and>
      set trav \<union> PK ` set stack' = PK ` set stack"
  have "\<exists>trav'. ?I [] trav' (segment_loop d v seg stack [] [])"
  proof (rule segment_loop_rule[where I = ?I])
    fix e st trav reach er reach' st'
    assume I: "?I (e # st) trav reach" and fp: "follow_path d v e reach st seg = (er, reach', st')"
    then obtain "st' = st" "set reach' = set reach \<union> ?R `` {PK e}"
      using follow_path_flat[OF _ assms(2,3), of e v d reach st] by auto
    then show "?I st' (set_add (PK e) trav) reach'" using I by auto
  next
    fix e st trav reach
    assume "?I (e # st) trav reach" "PK e \<in> set trav"
    then show "?I st trav reach" by (simp add: insert_absorb)
  qed (use assms(1) in simp)
  then show ?thesis by auto
qed

text \<open>The closure patterns.\<close>

lemma closure_complete:
  assumes "X \<subseteq> T \<union> C" "\<And>k. k \<in> C \<Longrightarrow> E\<^sup>+ `` {k} \<subseteq> X"
    and "\<And>t. t \<in> T \<Longrightarrow> E `` {t} \<subseteq> X" and "s \<in> T"
  shows "E\<^sup>+ `` {s} \<subseteq> X"
proof
  fix b assume "b \<in> E\<^sup>+ `` {s}"
  then have "(s, b) \<in> E\<^sup>+" by simp
  then show "b \<in> X"
  proof (induction rule: trancl_induct)
    case (base y)
    then show ?case using assms(3,4) by auto
  next
    case (step y z)
    then have "y \<in> T \<or> y \<in> C" using assms(1) by auto
    then show ?case using step.hyps(2) assms(2,3) by blast
  qed
qed

definition segment_inv where
  "segment_inv d v pat p S0 stack trav reach \<longleftrightarrow>
     set stack \<subseteq> loaded v \<and>
     set reach \<subseteq> (if pat = PATTERN_ZERO_PLUS then S0 else {}) \<union> (edge_rel d v p)\<^sup>+ `` S0 \<and>
     PK ` set stack \<subseteq> S0 \<union> (edge_rel d v p)\<^sup>+ `` S0 \<and>
     S0 \<subseteq> set trav \<union> PK ` set stack \<and>
     (\<forall>t \<in> set trav. edge_rel d v p `` {t} \<union> self_keys pat t \<subseteq> set reach) \<and>
     (\<forall>k \<in> set reach. k \<in> set trav \<or> k \<in> PK ` set stack \<or> (edge_rel d v p)\<^sup>+ `` {k} \<subseteq> set reach)"

lemma segment_inv_go:
  assumes inv: "segment_inv d v pat p S0 (e # stack) trav reach"
    and post: "search_post d v pat p e reach stack (er, reach', stack')"
  shows "segment_inv d v pat p S0 stack' (set_add (PK e) trav) reach'"
proof -
  let ?E = "edge_rel d v p"
  have i: "set (e # stack) \<subseteq> loaded v"
    "set reach \<subseteq> (if pat = PATTERN_ZERO_PLUS then S0 else {}) \<union> ?E\<^sup>+ `` S0"
    "PK ` set (e # stack) \<subseteq> S0 \<union> ?E\<^sup>+ `` S0"
    "S0 \<subseteq> set trav \<union> PK ` set (e # stack)"
    "\<forall>t \<in> set trav. ?E `` {t} \<union> self_keys pat t \<subseteq> set reach"
    "\<forall>k \<in> set reach. k \<in> set trav \<or> k \<in> PK ` set (e # stack) \<or> ?E\<^sup>+ `` {k} \<subseteq> set reach"
    using inv unfolding segment_inv_def by simp_all
  have q: "set reach \<subseteq> set reach'"
    "set reach' \<subseteq> set reach \<union> self_keys pat (PK e) \<union> ?E\<^sup>+ `` {PK e}"
    "set stack \<subseteq> set stack'"
    "set stack' \<subseteq> set stack \<union> {e' \<in> loaded v. (PK e, PK e') \<in> ?E\<^sup>+}"
    "\<forall>k \<in> set reach'. k = PK e \<or> k \<in> set reach \<or> k \<in> PK ` set stack' \<or> ?E\<^sup>+ `` {k} \<subseteq> set reach'"
    "?E `` {PK e} \<union> self_keys pat (PK e) \<subseteq> set reach'"
    using post unfolding search_post_def by simp_all
  have sub: "?E\<^sup>+ `` {PK e} \<subseteq> ?E\<^sup>+ `` S0"
    using i(3) by (auto intro: trancl_trans)
  have self: "self_keys pat (PK e) \<subseteq> (if pat = PATTERN_ZERO_PLUS then S0 else {}) \<union> ?E\<^sup>+ `` S0"
    using i(3) by (auto simp: self_keys_def)
  have "set stack' \<subseteq> loaded v" using i(1) q(4) by auto
  moreover have "set reach' \<subseteq> (if pat = PATTERN_ZERO_PLUS then S0 else {}) \<union> ?E\<^sup>+ `` S0"
    using i(2) q(2) sub self by blast
  moreover have "PK ` set stack' \<subseteq> S0 \<union> ?E\<^sup>+ `` S0"
  proof
    fix k assume "k \<in> PK ` set stack'"
    then have "k \<in> PK ` set stack \<or> k \<in> ?E\<^sup>+ `` {PK e}" using q(4) by auto
    then show "k \<in> S0 \<union> ?E\<^sup>+ `` S0" using i(3) sub by auto
  qed
  moreover have "S0 \<subseteq> set (set_add (PK e) trav) \<union> PK ` set stack'"
    using i(4) q(3) by auto
  moreover have "\<forall>t \<in> set (set_add (PK e) trav). ?E `` {t} \<union> self_keys pat t \<subseteq> set reach'"
    using i(5) q(1,6) by auto
  moreover have "\<forall>k \<in> set reach'. k \<in> set (set_add (PK e) trav) \<or> k \<in> PK ` set stack' \<or>
      ?E\<^sup>+ `` {k} \<subseteq> set reach'"
  proof
    fix k assume "k \<in> set reach'"
    then consider "k = PK e" | "k \<in> set reach" | "k \<in> PK ` set stack' \<or> ?E\<^sup>+ `` {k} \<subseteq> set reach'"
      using q(5) by blast
    then show "k \<in> set (set_add (PK e) trav) \<or> k \<in> PK ` set stack' \<or> ?E\<^sup>+ `` {k} \<subseteq> set reach'"
    proof cases
      case 2
      then have "k \<in> set trav \<or> k = PK e \<or> k \<in> PK ` set stack \<or> ?E\<^sup>+ `` {k} \<subseteq> set reach"
        using i(6) by auto
      then show ?thesis using q(1,3) by auto
    qed auto
  qed
  ultimately show ?thesis unfolding segment_inv_def by simp
qed

lemma segment_inv_skip:
  assumes "segment_inv d v pat p S0 (e # stack) trav reach" "PK e \<in> set trav"
  shows "segment_inv d v pat p S0 stack trav reach"
proof -
  have i: "set (e # stack) \<subseteq> loaded v"
    "set reach \<subseteq> (if pat = PATTERN_ZERO_PLUS then S0 else {}) \<union> (edge_rel d v p)\<^sup>+ `` S0"
    "PK ` set (e # stack) \<subseteq> S0 \<union> (edge_rel d v p)\<^sup>+ `` S0"
    "S0 \<subseteq> set trav \<union> PK ` set (e # stack)"
    "\<forall>t \<in> set trav. edge_rel d v p `` {t} \<union> self_keys pat t \<subseteq> set reach"
    "\<forall>k \<in> set reach. k \<in> set trav \<or> k \<in> PK ` set (e # stack) \<or>
       (edge_rel d v p)\<^sup>+ `` {k} \<subseteq> set reach"
    using assms(1) unfolding segment_inv_def by simp_all
  have "S0 \<subseteq> set trav \<union> PK ` set stack" using i(4) assms(2) by auto
  moreover have "\<forall>k \<in> set reach. k \<in> set trav \<or> k \<in> PK ` set stack \<or>
      (edge_rel d v p)\<^sup>+ `` {k} \<subseteq> set reach"
    using i(6) assms(2) by fastforce
  moreover have "set stack \<subseteq> loaded v" "PK ` set stack \<subseteq> S0 \<union> (edge_rel d v p)\<^sup>+ `` S0"
    using i(1,3) by auto
  ultimately show ?thesis
    unfolding segment_inv_def using i(2,5) by (intro conjI)
qed

lemma segment_closure:
  assumes ok: "view_ok d v" and st: "set stack \<subseteq> loaded v"
    and pat: "PathMod seg = PATTERN_ZERO_PLUS \<or> PathMod seg = PATTERN_ONE_PLUS"
    and p: "vw_hash v (PathPredicate seg) = Inr p"
  shows "set (segment_loop d v seg stack [] []) = segment_rel d v seg `` (PK ` set stack)"
proof -
  let ?E = "edge_rel d v p" and ?S0 = "PK ` set stack" and ?pat = "PathMod seg"
  let ?X = "set (segment_loop d v seg stack [] [])"
  have "\<exists>trav'. segment_inv d v ?pat p ?S0 [] trav' (segment_loop d v seg stack [] [])"
  proof (rule segment_loop_rule[where I = "segment_inv d v ?pat p ?S0"])
    show "segment_inv d v ?pat p ?S0 stack [] []"
      using st by (simp add: segment_inv_def)
  next
    fix e st trav reach
    assume "segment_inv d v ?pat p ?S0 (e # st) trav reach" "PK e \<in> set trav"
    then show "segment_inv d v ?pat p ?S0 st trav reach"
      by (rule segment_inv_skip)
  next
    fix e st trav reach er reach' st'
    assume inv: "segment_inv d v ?pat p ?S0 (e # st) trav reach"
      and fp: "follow_path d v e reach st seg = (er, reach', st')"
    have "e \<in> loaded v" using inv by (simp add: segment_inv_def)
    from closure_search[OF ok this pat, of p reach st]
    have "search_post d v ?pat p e reach st (er, reach', st')"
      using fp p by (simp add: follow_path_def)
    from segment_inv_go[OF inv this]
    show "segment_inv d v ?pat p ?S0 st' (set_add (PK e) trav) reach'" .
  qed
  then obtain T where T:
    "?X \<subseteq> (if ?pat = PATTERN_ZERO_PLUS then ?S0 else {}) \<union> ?E\<^sup>+ `` ?S0"
    "?S0 \<subseteq> set T" "\<forall>t \<in> set T. ?E `` {t} \<union> self_keys ?pat t \<subseteq> ?X"
    "\<forall>k \<in> ?X. k \<in> set T \<or> ?E\<^sup>+ `` {k} \<subseteq> ?X"
    by (auto simp: segment_inv_def)
  have "?E\<^sup>+ `` {s} \<subseteq> ?X" if "s \<in> ?S0" for s
  proof (rule closure_complete[where T = "set T" and C = "{k. ?E\<^sup>+ `` {k} \<subseteq> ?X}"])
    show "?X \<subseteq> set T \<union> {k. ?E\<^sup>+ `` {k} \<subseteq> ?X}" using T(4) by blast
    show "?E `` {t} \<subseteq> ?X" if "t \<in> set T" for t using T(3) that by blast
    show "s \<in> set T" using T(2) that by blast
  qed auto
  then have up: "?E\<^sup>+ `` ?S0 \<subseteq> ?X" by blast
  have self: "?S0 \<subseteq> ?X" if "?pat = PATTERN_ZERO_PLUS"
    using T(2,3) that by (auto simp: self_keys_def)
  have "?X = (if ?pat = PATTERN_ZERO_PLUS then ?S0 else {}) \<union> ?E\<^sup>+ `` ?S0"
    by (rule subset_antisym[OF T(1)]) (use up self in \<open>cases "?pat = PATTERN_ZERO_PLUS"; simp\<close>)
  also have "\<dots> = segment_rel d v seg `` ?S0"
    using pat p by (auto simp: segment_rel_def rtrancl_eq_or_trancl Image_iff)
  finally show ?thesis .
qed

lemma segment_no_predicate:
  assumes "vw_hash v (PathPredicate seg) = Inl er"
  shows "segment_loop d v seg stack trav reach = reach"
  using assms
  by (induction d v seg stack trav reach rule: segment_loop.induct)
     (auto simp: segment_loop.simps(2) follow_path_def)

lemma segment_correct:
  assumes "view_ok d v" "set stack \<subseteq> loaded v"
  shows "set (segment_loop d v seg stack [] []) = segment_rel d v seg `` (PK ` set stack)"
proof (cases "vw_hash v (PathPredicate seg)")
  case (Inl er)
  then show ?thesis by (simp add: segment_no_predicate segment_rel_def)
next
  case (Inr p)
  then show ?thesis using segment_closure[OF assms] segment_flat[OF assms(2)] by blast
qed

section \<open>Whole paths\<close>

lemma segment_rel_in_graph:
  assumes "view_ok d v" "gm_get (vw_graph v) a \<noteq> None" "(a, b) \<in> segment_rel d v seg"
  shows "gm_get (vw_graph v) b \<noteq> None"
proof (cases "vw_hash v (PathPredicate seg)")
  case (Inl er)
  then show ?thesis using assms(3) by (simp add: segment_rel_def)
next
  case (Inr p)
  then have "(a, b) \<in> (edge_rel d v p)\<^sup>*"
    using assms(3) by (cases "PathMod seg") (auto simp: segment_rel_def)
  then show ?thesis
    using assms(2) plus_endpoint_in_graph[OF assms(1)] by (auto simp: rtrancl_eq_or_trancl)
qed

lemma load_entities_spec:
  assumes "view_ok d v" "\<forall>k \<in> set ks. gm_get (vw_graph v) k \<noteq> None"
  shows "set (load_entities v ks) \<subseteq> loaded v \<and> PK ` set (load_entities v ks) = set ks"
  using assms(2)
proof (induction ks)
  case (Cons k ks)
  obtain e where "get_entity_by_hash v k = Inr e" "e \<in> loaded v" "PK e = k"
    using get_entity_loaded[OF assms(1)] Cons.prems by (metis list.set_intros(1))
  moreover have "load_entities v (k # ks) =
      (case get_entity_by_hash v k of Inl _ \<Rightarrow> [] | Inr e \<Rightarrow> [e]) @ load_entities v ks"
    by (simp add: load_entities_def)
  ultimately show ?case using Cons by auto
qed (simp_all add: load_entities_def)

lemma path_correct:
  assumes ok: "view_ok d v" and ord: "\<And>ks. set (ord ks) = set ks"
    and st: "set stack \<subseteq> loaded v" and ne: "path \<noteq> []"
  shows "set (path_loop d v ord path stack) = path_rel d v path `` (PK ` set stack)"
  using st ne
proof (induction path arbitrary: stack)
  case (Cons seg path)
  note prems = Cons.prems and IH = Cons.IH
  let ?X = "segment_loop d v seg stack [] []"
  have X: "set ?X = segment_rel d v seg `` (PK ` set stack)"
    using segment_correct[OF ok prems(1)] .
  show ?case
  proof (cases path)
    case Nil
    then show ?thesis using X by simp
  next
    case (Cons seg2 rest)
    note path = this
    have in_g: "\<forall>k \<in> set (ord ?X). gm_get (vw_graph v) k \<noteq> None"
    proof
      fix k assume "k \<in> set (ord ?X)"
      then obtain e where "e \<in> set stack" "(PK e, k) \<in> segment_rel d v seg"
        using ord X by auto
      moreover from this have "gm_get (vw_graph v) (PK e) \<noteq> None"
        using prems(1) by (auto simp: loaded_def)
      ultimately show "gm_get (vw_graph v) k \<noteq> None"
        using segment_rel_in_graph[OF ok] by blast
    qed
    from load_entities_spec[OF ok in_g]
    have "set (load_entities v (ord ?X)) \<subseteq> loaded v" "PK ` set (load_entities v (ord ?X)) = set ?X"
      using ord by auto
    then show ?thesis
      using IH[of "load_entities v (ord ?X)"] path X by (simp add: relcomp_Image)
  qed
qed simp

section \<open>Reversed paths\<close>

text \<open>
  \<open>reversePath\<close> reverses paths of one segment and of even length; in a path of odd length from three
  on, the middle segment stays the zero value.
\<close>

lemma reverse_path_loop_length [simp]:
  "length (reverse_path_loop path i j new) = length new"
proof (induction path i j new rule: reverse_path_loop.induct)
  case (1 path i j new)
  then show ?case by (subst reverse_path_loop.simps) simp
qed

lemma reverse_path_loop_nth:
  assumes "i + j = length path - 1" "length new = length path" "m < length path"
  shows "reverse_path_loop path i j new ! m =
     (if (i \<le> m \<and> m \<le> j \<and> 2 * m \<noteq> length path - 1) then path ! (length path - 1 - m) else new ! m)"
  using assms
proof (induction path i j new rule: reverse_path_loop.induct)
  case (1 path i j new)
  show ?case
  proof (cases "i < j")
    case True
    have "reverse_path_loop path i j new =
        reverse_path_loop path (i + 1) (j - 1) (new[i := path ! j, j := path ! i])"
      using True by (subst reverse_path_loop.simps) simp
    moreover have "i + 1 + (j - 1) = length path - 1" using True "1.prems"(1) by simp
    ultimately have "reverse_path_loop path i j new ! m =
        (if (i + 1 \<le> m \<and> m \<le> j - 1 \<and> 2 * m \<noteq> length path - 1) then path ! (length path - 1 - m)
         else new[i := path ! j, j := path ! i] ! m)"
      using "1.IH"[OF True] "1.prems"(2,3) by simp
    moreover have ij: "length path - 1 - i = j" "length path - 1 - j = i" "i < length new" "j < length new"
      using "1.prems"(1,2,3) True by simp_all
    ultimately have step: "reverse_path_loop path i j new ! m =
        (if i + 1 \<le> m \<and> m \<le> j - 1 \<and> 2 * m \<noteq> length path - 1 then path ! (length path - 1 - m)
         else if m = j then path ! i else if m = i then path ! j else new ! m)"
      using True by (simp add: nth_list_update)
    consider "m = i" | "m = j" | "m < i \<or> j < m" | "i + 1 \<le> m \<and> m \<le> j - 1" by linarith
    then show ?thesis
    proof cases
      case 1
      then show ?thesis using step True ij "1.prems"(1) by simp
    next
      case 2
      then show ?thesis using step True ij "1.prems"(1) by simp
    next
      case 3
      then show ?thesis using step True by auto
    next
      case 4
      then show ?thesis using step True by auto
    qed
  next
    case False
    then have "reverse_path_loop path i j new = new" by (subst reverse_path_loop.simps) simp
    then show ?thesis using False "1.prems" by auto
  qed
qed

lemma reverse_path_nth:
  assumes "length path \<noteq> 1" "m < length path"
  shows "reverse_path path ! m =
     (if 2 * m = length path - 1 then zero_path_pattern else path ! (length path - 1 - m))"
  using assms by (simp add: reverse_path_def Let_def reverse_path_loop_nth)

lemma length_reverse_path [simp]: "length (reverse_path path) = length path"
  by (simp add: reverse_path_def Let_def)

lemma reverse_path_even:
  assumes "even (length path) \<or> length path = 1"
  shows "reverse_path path = rev path"
proof (cases "length path = 1")
  case True
  then show ?thesis by (auto simp: reverse_path_def length_Suc_conv)
next
  case False
  with assms have ev: "even (length path)" by simp
  show ?thesis
  proof (rule nth_equalityI)
    fix m assume m: "m < length (reverse_path path)"
    then have "2 * m \<noteq> length path - 1"
      using ev by (metis One_nat_def Suc_pred even_Suc even_mult_iff even_numeral length_reverse_path
          less_nat_zero_code neq0_conv)
    then show "reverse_path path ! m = rev path ! m"
      using m reverse_path_nth[OF False, of m] by (simp add: rev_nth)
  qed simp
qed

lemma reverse_path_odd:
  assumes "odd (length path)" "length path \<noteq> 1"
  shows "reverse_path path = (rev path)[length path div 2 := zero_path_pattern]"
proof (rule nth_equalityI)
  fix m assume m: "m < length (reverse_path path)"
  have "2 * m = length path - 1 \<longleftrightarrow> m = length path div 2"
    using assms(1) by presburger
  then show "reverse_path path ! m = (rev path)[length path div 2 := zero_path_pattern] ! m"
    using m reverse_path_nth[OF assms(2), of m] by (simp add: rev_nth nth_list_update)
qed simp

text \<open>The zero pattern selects nothing, whatever its predicate.\<close>

lemma zero_segment_rel [simp]: "segment_rel d v zero_path_pattern = {}"
  by (simp add: segment_rel_def zero_path_pattern_def split: sum.splits)

lemma path_rel_append: "path_rel d v (p @ q) = path_rel d v p O path_rel d v q"
  by (induction p) (auto simp: O_assoc)

lemma path_rel_zero: "zero_path_pattern \<in> set path \<Longrightarrow> path_rel d v path = {}"
  by (induction path) auto

text \<open>Incoming and outgoing edges describe the same triples.\<close>

definition edges_converse :: "view \<Rightarrow> bool" where
  "edges_converse v \<longleftrightarrow> (\<forall>p. edge_rel FromObject v p = (edge_rel FromSubject v p)\<inverse>)"

lemma pattern_rel_converse: "pattern_rel pat (E\<inverse>) = (pattern_rel pat E)\<inverse>"
  by (cases pat) (auto simp: trancl_converse rtrancl_converse)

lemma segment_rel_converse:
  "edges_converse v \<Longrightarrow> segment_rel FromObject v seg = (segment_rel FromSubject v seg)\<inverse>"
  by (simp add: segment_rel_def edges_converse_def pattern_rel_converse split: sum.splits)

lemma path_rel_converse:
  "edges_converse v \<Longrightarrow> path_rel FromObject v (rev path) = (path_rel FromSubject v path)\<inverse>"
  by (induction path) (auto simp: path_rel_append segment_rel_converse converse_relcomp)

text \<open>The reversed path never selects more than the converse; with an odd number of segments it loses all.\<close>

lemma reverse_path_rel_subset:
  assumes "edges_converse v"
  shows "path_rel FromObject v (reverse_path path) \<subseteq> (path_rel FromSubject v path)\<inverse>"
proof (cases "even (length path) \<or> length path = 1")
  case True
  then show ?thesis using path_rel_converse[OF assms, of path] by (simp add: reverse_path_even)
next
  case False
  then have "length path div 2 < length (rev path)" by (cases path) auto
  then have "zero_path_pattern \<in> set (reverse_path path)"
    using False reverse_path_odd[of path] set_update_memI[of "length path div 2" "rev path"] by simp
  then show ?thesis by (simp add: path_rel_zero)
qed

section \<open>The traversal operations\<close>

lemma get_object_from_subject_pred_set:
  assumes "view_ok FromSubject v" "\<And>ks. set (ord ks) = set ks" "path \<noteq> []"
    and "gm_get (vw_graph v) k \<noteq> None"
  shows "\<exists>ks. get_object_from_subject_pred v ord k path = Some ks \<and>
           set ks = path_rel FromSubject v path `` {k}"
proof -
  obtain e where e: "get_entity_by_hash v k = Inr e" "e \<in> loaded v" "PK e = k"
    using get_entity_loaded[OF assms(1,4)] .
  then show ?thesis
    using path_correct[of FromSubject v ord "[e]" path] assms(1-3)
    by (simp add: get_object_from_subject_pred_def)
qed

lemma get_subject_from_pred_object_set:
  assumes "view_ok FromObject v" "\<And>ks. set (ord ks) = set ks" "path \<noteq> []"
    and "gm_get (vw_graph v) k \<noteq> None"
  shows "\<exists>ks. get_subject_from_pred_object v ord k path = Some (Inr ks) \<and>
           set ks = path_rel FromObject v (reverse_path path) `` {k}"
proof -
  obtain e where e: "get_entity_by_hash v k = Inr e" "e \<in> loaded v" "PK e = k"
    using get_entity_loaded[OF assms(1,4)] .
  moreover have "reverse_path path \<noteq> []"
    using assms(3) by (metis length_0_conv length_reverse_path)
  ultimately show ?thesis
    using path_correct[of FromObject v ord "[e]" "reverse_path path"] assms(1,2)
      path_panics_never[of v ord "reverse_path path" "[e]"]
    by (simp add: get_subject_from_pred_object_def view_ok_def)
qed

text \<open>A three-entity database for the examples: \<open>k1 -p-> k2 -p-> k3\<close>, with no extended index.\<close>

abbreviation sample_key :: "char \<Rightarrow> key" where
  "sample_key c \<equiv> Key c nul nul nul nul nul nul nul"

definition sample_uri :: "string \<Rightarrow> uri" where
  "sample_uri s = \<lparr>Namespace = ''n'', Value = s\<rparr>"

definition sample_graph :: "(key, entity) gomap" where
  "sample_graph =
     (let p = key_string (sample_key CHR ''p'') in
      [(sample_key CHR ''1'', \<lparr>PK = sample_key CHR ''1'', InEdges = [],
          OutEdges = [(p, [sample_key CHR ''2''])]\<rparr>),
       (sample_key CHR ''2'', \<lparr>PK = sample_key CHR ''2'', InEdges = [(p, [sample_key CHR ''1''])],
          OutEdges = [(p, [sample_key CHR ''3''])]\<rparr>),
       (sample_key CHR ''3'', \<lparr>PK = sample_key CHR ''3'', InEdges = [(p, [sample_key CHR ''2''])],
          OutEdges = []\<rparr>)])"

definition sample_view :: view where
  "sample_view =
     \<lparr>vw_hash = (\<lambda>u. if u = sample_uri ''p'' then Inr (sample_key CHR ''p'') else Inl (Wrapped LdbNotFound)),
      vw_uri = (\<lambda>k. Inl LdbNotFound), vw_graph = sample_graph, vw_all = sample_graph, vw_missing = LdbNotFound,
      vw_ext = (\<lambda>k. Inr None), vw_pred = (\<lambda>k. Inl LdbNotFound), vw_reverse = (\<lambda>u. None)\<rparr>"

abbreviation sample_seg :: "pattern \<Rightarrow> path_pattern" where
  "sample_seg m \<equiv> \<lparr>PathPredicate = sample_uri ''p'', PathMod = m\<rparr>"

lemma sample_edges:
  "edge_rel FromSubject sample_view p =
     (if p = sample_key CHR ''p'' then {(sample_key CHR ''1'', sample_key CHR ''2''),
        (sample_key CHR ''2'', sample_key CHR ''3'')} else {})"
  "edge_rel FromObject sample_view p =
     (if p = sample_key CHR ''p'' then {(sample_key CHR ''2'', sample_key CHR ''1''),
        (sample_key CHR ''3'', sample_key CHR ''2'')} else {})"
  by (auto simp: edge_rel_def sample_view_def sample_graph_def edges_def edge_list_def Let_def
      split: if_splits)

lemma sample_view_ok: "view_ok FromSubject sample_view" "view_ok FromObject sample_view"
  unfolding view_ok_def graph_closed_def index_exact_def sample_edges
  by (auto simp: sample_view_def sample_graph_def index_entry_def Let_def split: if_splits)

lemma sample_converse: "edges_converse sample_view"
  by (auto simp: edges_converse_def sample_edges)

text \<open>The same database with its extended index rolled up for \<open>p\<close>.\<close>

definition indexed_view :: view where
  "indexed_view = sample_view\<lparr>vw_ext := (\<lambda>k.
     let p = key_string (sample_key CHR ''p'') in
     Inr (if k = sample_key CHR ''1'' then
            Some \<lparr>ExtPK = k, InPlusEdges = [], OutPlusEdges = [(p, map sample_key ''23'')]\<rparr>
          else if k = sample_key CHR ''2'' then
            Some \<lparr>ExtPK = k, InPlusEdges = [(p, [sample_key CHR ''1''])], OutPlusEdges = [(p, [sample_key CHR ''3''])]\<rparr>
          else if k = sample_key CHR ''3'' then
            Some \<lparr>ExtPK = k, InPlusEdges = [(p, map sample_key ''12'')], OutPlusEdges = []\<rparr>
          else None))\<rparr>"

lemma indexed_edges: "edge_rel d indexed_view p = edge_rel d sample_view p"
  by (simp add: edge_rel_def indexed_view_def)

lemma two_step_trancl:
  assumes "distinct [a, b, c]"
  shows "{(a, b), (b, c)}\<^sup>+ = {(a, b), (b, c), (a, c)}" "{(b, c), (a, b)}\<^sup>+ = {(a, b), (b, c), (a, c)}"
proof -
  have "trans {(a, b), (b, c), (a, c)}" using assms by (auto simp: trans_def)
  then have t: "{(a, b), (b, c), (a, c)}\<^sup>+ = {(a, b), (b, c), (a, c)}" by (rule trancl_id)
  have "(x, y) \<in> {(a, b), (b, c), (a, c)}" if "(x, y) \<in> {(a, b), (b, c)}\<^sup>+" for x y
    using trancl_mono[OF that, of "{(a, b), (b, c), (a, c)}"] t by auto
  moreover have "(a, c) \<in> {(a, b), (b, c)}\<^sup>+" by (rule trancl.trancl_into_trancl[of a b]) auto
  ultimately show *: "{(a, b), (b, c)}\<^sup>+ = {(a, b), (b, c), (a, c)}" by auto
  then show "{(b, c), (a, b)}\<^sup>+ = {(a, b), (b, c), (a, c)}" by (simp add: insert_commute)
qed

lemma indexed_view_ok: "view_ok FromSubject indexed_view" "view_ok FromObject indexed_view"
  unfolding view_ok_def graph_closed_def index_exact_def indexed_edges sample_edges
  by (auto simp: indexed_view_def sample_view_def sample_graph_def index_entry_def Let_def two_step_trancl
      split: if_splits)

lemma indexed_converse: "edges_converse indexed_view"
  using sample_converse by (simp add: edges_converse_def indexed_edges)

section \<open>Properties\<close>

text \<open>
  C3: From a subject, a path of segments with any of the modifiers (none, \<open>?\<close>, \<open>+\<close>, \<open>*\<close>) reaches
  exactly the objects that the composition of the segment relations (the edges of the predicate, their
  reflexive, transitive or reflexive transitive closure) relates to the subject, in whatever order the
  intermediate keys are iterated. This needs a view whose edges end at stored entities and whose
  extended index, where it has an entry, has exactly the transitive closure (\<open>view_ok\<close>), and a subject
  that is stored. A load can leave the index incomplete (theory RollupExample); then the answers are
  some of these (theory TraversalSound).
\<close>

theorem get_object_from_subject_pred_correct:
  assumes "view_ok FromSubject v" "\<And>ks. set (ord ks) = set ks" "path \<noteq> []"
    and "gm_get (vw_graph v) k \<noteq> None"
  shows "\<exists>ks. get_object_from_subject_pred v ord k path = Some ks \<and>
           set ks = {o'. (k, o') \<in> path_rel FromSubject v path}"
  using get_object_from_subject_pred_set[of v ord path k] assms by auto

theorem get_object_from_subject_pred_correct_witness:
  "\<exists>ks. get_object_from_subject_pred indexed_view rev (sample_key CHR ''1'')
          [sample_seg PATTERN_ONE_PLUS, sample_seg PATTERN_ZERO_ONE] = Some ks \<and>
     set ks = {o'. (sample_key CHR ''1'', o') \<in> path_rel FromSubject indexed_view
          [sample_seg PATTERN_ONE_PLUS, sample_seg PATTERN_ZERO_ONE]}"
  by (rule get_object_from_subject_pred_correct[OF indexed_view_ok(1)])
     (simp_all add: indexed_view_def sample_view_def sample_graph_def Let_def)

text \<open>
  C8: From an object, a path of one segment or of an even number of segments reaches exactly the
  subjects that the path relates to the object, so both directions of a query agree: the search runs
  over the incoming edges and the reversed path, the meaning is the one over outgoing edges. This needs
  a view that is exact for incoming edges (\<open>view_ok\<close>, as for subjects, and no \<open>getHash\<close> that gives the
  plain \<open>ErrNotFound\<close>), incoming edges that are the converse of the outgoing ones, and an object that
  is stored.
\<close>

theorem get_subject_from_pred_object_correct:
  assumes "view_ok FromObject v" "edges_converse v" "\<And>ks. set (ord ks) = set ks"
    and "path \<noteq> []" "even (length path) \<or> length path = 1" "gm_get (vw_graph v) k \<noteq> None"
  shows "\<exists>ks. get_subject_from_pred_object v ord k path = Some (Inr ks) \<and>
           set ks = {s. (s, k) \<in> path_rel FromSubject v path}"
  using get_subject_from_pred_object_set[of v ord path k] assms
  by (auto simp: reverse_path_even path_rel_converse)

theorem get_subject_from_pred_object_correct_witness:
  "\<exists>ks. get_subject_from_pred_object indexed_view id (sample_key CHR ''3'')
          [sample_seg PATTERN_ZERO_PLUS] = Some (Inr ks) \<and>
     set ks = {s. (s, sample_key CHR ''3'') \<in> path_rel FromSubject indexed_view
          [sample_seg PATTERN_ZERO_PLUS]}"
  by (rule get_subject_from_pred_object_correct[OF indexed_view_ok(2) indexed_converse])
     (simp_all add: indexed_view_def sample_view_def sample_graph_def Let_def)

text \<open>
  C26: From an object, a path of an odd number of segments, three or more, selects nothing at all:
  reversing it leaves the middle segment at the zero value, which no edge matches. The same path read
  from the subject has answers.
\<close>

theorem get_subject_from_pred_object_odd_empty:
  assumes "view_ok FromObject v" "\<And>ks. set (ord ks) = set ks"
    and "odd (length path)" "length path \<noteq> 1" "gm_get (vw_graph v) k \<noteq> None"
  shows "get_subject_from_pred_object v ord k path = Some (Inr [])"
proof -
  have "path \<noteq> []" using assms(3) by auto
  moreover from this have "zero_path_pattern \<in> set ((rev path)[length path div 2 := zero_path_pattern])"
    by (intro set_update_memI) simp
  then have "zero_path_pattern \<in> set (reverse_path path)"
    using reverse_path_odd[OF assms(3,4)] by simp
  ultimately show ?thesis
    using get_subject_from_pred_object_set[of v ord path k] assms by (auto simp: path_rel_zero)
qed

theorem get_subject_from_pred_object_odd_empty_witness:
  "get_subject_from_pred_object sample_view id (sample_key CHR ''3'')
     [sample_seg PATTERN_SINGLE, sample_seg PATTERN_SINGLE, sample_seg PATTERN_ZERO_PLUS] = Some (Inr [])"
  by (rule get_subject_from_pred_object_odd_empty[OF sample_view_ok(2)])
     (simp_all add: sample_view_def sample_graph_def Let_def)

end
