(* ===== verification/TransactionCorrect.thy ===== *)
theory TransactionCorrect
  imports Transaction TraversalCorrect
begin

text \<open>
  Correctness of the write path: keys are allocated when one is free, the two dictionaries stay
  inverse to each other, adding a triple adds exactly its edges and its pair of the predicate index,
  and the two directions of the graph stay converse to each other.
\<close>

section \<open>Allocating keys\<close>

lemma hash_uri_short: "short_key d \<Longrightarrow> hash_uri hf u d s = hash_uri hf u empty_key s"
  by (simp add: hash_uri_short_eq)

lemma find_key_step:
  "gm_has pk d \<Longrightarrow>
     find_key hf pk u d s = find_key hf pk u (hash_uri hf u d (s + 1)) (s + 1)"
  by (subst find_key.simps) simp

lemma find_key_stop: "\<not> gm_has pk d \<Longrightarrow> find_key hf pk u d s = Some d"
  by (subst find_key.simps) simp

lemma find_key_Some:
  assumes "find_key hf pk u d s = Some k" "short_key d"
  shows "short_key k \<and> \<not> gm_has pk k \<and> (k = d \<or> (\<exists>s'. k = hash_uri hf u empty_key s'))"
proof -
  have "short_key d \<longrightarrow> short_key k \<and> \<not> gm_has pk k \<and> (k = d \<or> (\<exists>s'. k = hash_uri hf u empty_key s'))"
  proof (rule find_key.raw_induct[OF _ assms(1), where P = "\<lambda>hf pk u d s k. short_key d \<longrightarrow>
      short_key k \<and> \<not> gm_has pk k \<and> (k = d \<or> (\<exists>s'. k = hash_uri hf u empty_key s'))"],
      goal_cases)
    case (1 f hf pk u d s k)
    show ?case
    proof (cases "gm_has pk d")
      case True
      then have "f hf pk u (hash_uri hf u d (s + 1)) (s + 1) = Some k" using 1(2) by simp
      from 1(1)[OF this] show ?thesis
        using hash_uri_short[of d hf u "s + 1"] by (auto simp: short_key_hash_uri)
    next
      case False
      then show ?thesis using 1(2) by simp
    qed
  qed
  then show ?thesis using assms(2) by simp
qed

lemma find_key_terminates:
  "short_key d \<Longrightarrow> \<not> gm_has pk (hash_uri hf u empty_key (s + of_nat (Suc n))) \<Longrightarrow>
     \<exists>k. find_key hf pk u d s = Some k"
proof (induction n arbitrary: d s)
  case 0
  then have "\<not> gm_has pk (hash_uri hf u d (s + 1))"
    using hash_uri_short[of d hf u "s + 1"] by simp
  then show ?case
    by (cases "gm_has pk d") (simp_all add: find_key_step find_key_stop)
next
  case (Suc n)
  have eq: "s + of_nat (Suc (Suc n)) = s + 1 + of_nat (Suc n)" by simp
  have "\<exists>k. find_key hf pk u (hash_uri hf u d (s + 1)) (s + 1) = Some k"
    using Suc.prems unfolding eq by (intro Suc.IH) (simp_all only: short_key_hash_uri not_False_eq_True)
  then show ?case
    by (cases "gm_has pk d") (simp_all add: find_key_step find_key_stop)
qed

lemma find_key_iff:
  "(\<exists>k. find_key hf pk u (hash_uri hf u empty_key 0) 0 = Some k) \<longleftrightarrow>
     (\<exists>s. \<not> gm_has pk (hash_uri hf u empty_key s))"
proof
  assume "\<exists>k. find_key hf pk u (hash_uri hf u empty_key 0) 0 = Some k"
  then show "\<exists>s. \<not> gm_has pk (hash_uri hf u empty_key s)"
    using find_key_Some by (metis short_key_empty short_key_hash_uri)
next
  assume "\<exists>s. \<not> gm_has pk (hash_uri hf u empty_key s)"
  then obtain s where s: "\<not> gm_has pk (hash_uri hf u empty_key s)" by blast
  show "\<exists>k. find_key hf pk u (hash_uri hf u empty_key 0) 0 = Some k"
  proof (cases "unat s")
    case 0
    then have "s = 0" by (simp add: unat_eq_0)
    then show ?thesis using s by (simp add: find_key_stop)
  next
    case (Suc n)
    then have "0 + of_nat (Suc n) = s" by (metis add_0 of_nat_unat ucast_id)
    then show ?thesis
      using find_key_terminates[of "hash_uri hf u empty_key 0" pk hf u 0 n] s
      by (simp add: short_key_hash_uri)
  qed
qed

section \<open>The invariant of the store\<close>

definition graph_rel :: "dir \<Rightarrow> (key, entity) gomap \<Rightarrow> key \<Rightarrow> (key \<times> key) set" where
  "graph_rel d g p = {(a, b). \<exists>e. gm_get g a = Some e \<and> b \<in> edges (dir_edges d e) p}"

lemma edge_rel_graph: "edge_rel d v p = graph_rel d (vw_graph v) p"
  by (simp add: edge_rel_def graph_rel_def)

text \<open>The dictionaries are inverse to each other and hand out keys of four significant bytes.\<close>

definition dict_inv :: "store \<Rightarrow> bool" where
  "dict_inv st \<longleftrightarrow>
     (\<forall>b k. gm_get (entityDB st) b = Some k \<longleftrightarrow> gm_get (pkDB st) k = Some b) \<and>
     (\<forall>k. gm_has (pkDB st) k \<longrightarrow> short_key k)"

definition graph_inv :: "(key, entity) gomap \<Rightarrow> bool" where
  "graph_inv g \<longleftrightarrow> gm_wf g \<and>
     (\<forall>k e. gm_get g k = Some e \<longrightarrow> PK e = k \<and> entity_wf e) \<and>
     (\<forall>d p a b. (a, b) \<in> graph_rel d g p \<longrightarrow> gm_has g b)"

definition preds_inv :: "(key, predicate_entity) gomap \<Rightarrow> bool" where
  "preds_inv m \<longleftrightarrow> gm_wf m \<and> (\<forall>k p. gm_get m k = Some p \<longrightarrow> PredPK p = k \<and> pred_wf p)"

lemma preds_inv_put:
  assumes "preds_inv m" "pred_wf p" "PredPK p = k"
  shows "preds_inv (gm_put k p m)"
proof -
  have "gm_wf (gm_put k p m)" using assms(1) by (simp add: preds_inv_def)
  moreover have "\<forall>k' p'. gm_get (gm_put k p m) k' = Some p' \<longrightarrow> PredPK p' = k' \<and> pred_wf p'"
    using assms by (auto simp: preds_inv_def simp del: map_of_eq_Some_iff split: if_splits)
  ultimately show ?thesis unfolding preds_inv_def by blast
qed

definition store_inv :: "store \<Rightarrow> bool" where
  "store_inv st \<longleftrightarrow> dict_inv st \<and> graph_inv (graphDB st) \<and> preds_inv (predDB st)"

definition tx_inv :: "transaction \<Rightarrow> bool" where
  "tx_inv tx \<longleftrightarrow> store_inv (tx_db tx) \<and> preds_inv (predbatch tx) \<and>
     (\<forall>u k. gm_get (hashes tx) u = Some k \<longrightarrow> gm_get (entityDB (tx_db tx)) (uri_bytes u) = Some k)"

lemma empty_store_inv [simp]: "store_inv empty_store"
  by (simp add: store_inv_def dict_inv_def graph_inv_def preds_inv_def empty_store_def gm_has_def
      graph_rel_def)

lemma open_transaction_inv [inv_intros]: "store_inv st \<Longrightarrow> tx_inv (open_transaction st)"
  by (simp add: tx_inv_def open_transaction_def preds_inv_def)

lemma dict_inv_alloc:
  assumes "dict_inv st" "\<not> gm_has (pkDB st) k" "short_key k" "gm_get (entityDB st) b = None"
  shows "dict_inv (st\<lparr>entityDB := gm_put b k (entityDB st), pkDB := gm_put k b (pkDB st)\<rparr>)"
  using assms by (fastforce simp: dict_inv_def gm_has_def)

lemma graph_rel_put:
  "graph_rel d (gm_put k e g) p = {(a, b) \<in> graph_rel d g p. a \<noteq> k} \<union> {k} \<times> edges (dir_edges d e) p"
  by (auto simp: graph_rel_def split: if_splits)

lemma dir_edges_new [simp]: "dir_edges d (new_entity\<lparr>PK := k\<rparr>) = []"
  by (cases d) (simp_all add: new_entity_def)

lemma graph_rel_put_new:
  "\<not> gm_has g k \<Longrightarrow> graph_rel d (gm_put k (new_entity\<lparr>PK := k\<rparr>) g) p = graph_rel d g p"
  by (auto simp: graph_rel_put) (auto simp: graph_rel_def gm_has_def)

lemma entity_wf_PK [simp]: "entity_wf (e\<lparr>PK := k\<rparr>) = entity_wf e"
  by (simp add: entity_wf_def)

lemma graph_inv_put:
  assumes "graph_inv g" "entity_wf e"
    and "\<And>d p b. b \<in> edges (dir_edges d e) p \<Longrightarrow> gm_has g b \<or> b = PK e"
  shows "graph_inv (gm_put (PK e) e g)"
  using assms by (auto simp: graph_inv_def graph_rel_put split: if_splits)

lemma graph_inv_put_new:
  "graph_inv g \<Longrightarrow> graph_inv (gm_put k (new_entity\<lparr>PK := k\<rparr>) g)"
  using graph_inv_put[of g "new_entity\<lparr>PK := k\<rparr>"] by simp

section \<open>Adding URIs\<close>

text \<open>What adding a URI leaves alone.\<close>

definition tx_grows :: "transaction \<Rightarrow> transaction \<Rightarrow> bool" where
  "tx_grows tx tx' \<longleftrightarrow>
     (\<forall>u k. gm_get (hashes tx) u = Some k \<longrightarrow> gm_get (hashes tx') u = Some k) \<and>
     (\<forall>b k. gm_get (entityDB (tx_db tx)) b = Some k \<longrightarrow> gm_get (entityDB (tx_db tx')) b = Some k) \<and>
     (\<forall>k. gm_has (graphDB (tx_db tx)) k \<longrightarrow> gm_has (graphDB (tx_db tx')) k) \<and>
     (\<forall>d p. graph_rel d (graphDB (tx_db tx')) p = graph_rel d (graphDB (tx_db tx)) p) \<and>
     extendedDB (tx_db tx') = extendedDB (tx_db tx) \<and> predDB (tx_db tx') = predDB (tx_db tx) \<and>
     predbatch tx' = predbatch tx \<and> inverseRelationships tx' = inverseRelationships tx \<and>
     triplesAdded tx' = triplesAdded tx \<and> tx_evicted tx' = tx_evicted tx"

lemma tx_grows_refl [simp]: "tx_grows tx tx"
  by (simp add: tx_grows_def)

lemma tx_grows_trans: "tx_grows a b \<Longrightarrow> tx_grows b c \<Longrightarrow> tx_grows a c"
  by (auto simp: tx_grows_def)

lemma resolve_key_spec:
  assumes "tx_inv tx" "resolve_key hf u tx = Some (k, tx')"
  shows "tx_inv tx' \<and> tx_grows tx tx' \<and> gm_get (hashes tx') u = Some k \<and>
     graphDB (tx_db tx') = graphDB (tx_db tx)"
proof (cases "gm_get (hashes tx) u")
  case (Some k')
  then show ?thesis using assms by (auto simp: resolve_key_def)
next
  case new: None
  show ?thesis
  proof (cases "gm_get (entityDB (tx_db tx)) (uri_bytes u)")
    case (Some k')
    then show ?thesis using assms new
      by (auto simp: resolve_key_def tx_inv_def tx_grows_def split: if_splits)
  next
    case None
    with new assms(2) obtain st where st: "alloc_key hf u (tx_db tx) = Some (k, st)"
      and tx': "tx' = tx\<lparr>tx_db := st, hashes := gm_put u k (hashes tx)\<rparr>"
      by (auto simp: resolve_key_def split: option.splits)
    from st have fk: "find_key hf (pkDB (tx_db tx)) u (hash_uri hf u empty_key 0) 0 = Some k"
      and st_eq: "st = (tx_db tx)\<lparr>entityDB := gm_put (uri_bytes u) k (entityDB (tx_db tx)),
        pkDB := gm_put k (uri_bytes u) (pkDB (tx_db tx))\<rparr>"
      by (auto simp: alloc_key_def split: option.splits)
    have "short_key k" "\<not> gm_has (pkDB (tx_db tx)) k"
      using find_key_Some[OF fk] by (simp_all add: short_key_hash_uri)
    then have "dict_inv st"
      using assms(1) None unfolding st_eq
      by (intro dict_inv_alloc) (auto simp: tx_inv_def store_inv_def)
    moreover have "uri_bytes v \<noteq> uri_bytes u" if "gm_get (hashes tx) v = Some k'" for v k'
      using assms(1) None that by (force simp: tx_inv_def)
    ultimately show ?thesis
      using assms(1) new None unfolding tx' st_eq
      by (auto simp: tx_inv_def store_inv_def tx_grows_def split: if_splits)
  qed
qed

lemma add_uri_spec:
  assumes "tx_inv tx" "add_uri hf u tx = Some tx'"
  shows "tx_inv tx' \<and> tx_grows tx tx' \<and>
     (\<exists>k. gm_get (hashes tx') u = Some k \<and> gm_has (graphDB (tx_db tx')) k)"
proof -
  from assms(2) obtain k tx1 where r: "resolve_key hf u tx = Some (k, tx1)"
    and tx': "tx' = (if gm_has (graphDB (tx_db tx1)) k then tx1
                else put_entity (new_entity\<lparr>PK := k\<rparr>) tx1)"
    by (auto simp: add_uri_def split: option.splits)
  note s = resolve_key_spec[OF assms(1) r]
  show ?thesis
  proof (cases "gm_has (graphDB (tx_db tx1)) k")
    case True
    then show ?thesis using s tx' by auto
  next
    case False
    have i: "tx_inv tx1" using s by blast
    then have "graph_inv (gm_put k (new_entity\<lparr>PK := k\<rparr>) (graphDB (tx_db tx1)))"
      by (intro graph_inv_put_new) (simp add: tx_inv_def store_inv_def)
    then have "tx_inv tx'"
      using i False unfolding tx'
      by (simp add: tx_inv_def store_inv_def put_entity_def dict_inv_def)
    moreover have "tx_grows tx1 tx'"
      using False unfolding tx'
      by (auto simp: tx_grows_def put_entity_def graph_rel_put_new)
    ultimately show ?thesis
      using s False tx_grows_trans[of tx tx1 tx'] unfolding tx' by (auto simp: put_entity_def)
  qed
qed

lemma add_uris_spec:
  "tx_inv tx \<Longrightarrow> add_uris hf us tx = Some tx' \<Longrightarrow>
     tx_inv tx' \<and> tx_grows tx tx' \<and>
     (\<forall>u \<in> set us. \<exists>k. gm_get (hashes tx') u = Some k \<and> gm_has (graphDB (tx_db tx')) k)"
proof (induction us arbitrary: tx)
  case (Cons u us)
  from Cons.prems(2) obtain tx1 where a: "add_uri hf u tx = Some tx1"
    and r: "add_uris hf us tx1 = Some tx'"
    by (auto split: option.splits)
  note s1 = add_uri_spec[OF Cons.prems(1) a]
  then have s2: "tx_inv tx' \<and> tx_grows tx1 tx' \<and>
     (\<forall>u \<in> set us. \<exists>k. gm_get (hashes tx') u = Some k \<and> gm_has (graphDB (tx_db tx')) k)"
    using Cons.IH[OF _ r] by blast
  moreover from s1 s2 have "\<exists>k. gm_get (hashes tx') u = Some k \<and> gm_has (graphDB (tx_db tx')) k"
    unfolding tx_grows_def by blast
  ultimately show ?case using s1 tx_grows_trans[of tx tx1 tx'] by auto
qed simp

section \<open>Adding edges to the graph\<close>

definition new_pair :: "key \<Rightarrow> key \<Rightarrow> key \<Rightarrow> key \<Rightarrow> (key \<times> key) set" where
  "new_pair p q a b = (if q = p then {(a, b)} else {})"

lemma graph_rel_entity:
  "gm_get g k = Some e \<Longrightarrow> (k, b) \<in> graph_rel d g p \<longleftrightarrow> b \<in> edges (dir_edges d e) p"
  by (simp add: graph_rel_def)

lemma graph_rel_put_same:
  assumes "gm_get g k = Some e" "\<And>p. edges (dir_edges d e') p = edges (dir_edges d e) p"
  shows "graph_rel d (gm_put k e' g) p = graph_rel d g p"
  using assms by (auto simp: graph_rel_put) (auto simp: graph_rel_def)

lemma graph_rel_put_add:
  assumes "gm_get g k = Some e"
    and "\<And>q. edges (dir_edges d e') q = edges (dir_edges d e) q \<union> (if q = p then {b} else {})"
  shows "graph_rel d (gm_put k e' g) q = graph_rel d g q \<union> new_pair p q k b"
  using assms by (auto simp: graph_rel_put new_pair_def) (auto simp: graph_rel_def split: if_splits)

lemma edges_add_out [simp]:
  "edges (dir_edges FromSubject (fst (add_out_edge p k e))) q =
     edges (dir_edges FromSubject e) q \<union> (if q = p then {k} else {})"
  "edges (dir_edges FromObject (fst (add_out_edge p k e))) q = edges (dir_edges FromObject e) q"
  by (auto simp: store_simps edges_add_edge)

lemma edges_add_in [simp]:
  "edges (dir_edges FromObject (fst (add_in_edge p k e))) q =
     edges (dir_edges FromObject e) q \<union> (if q = p then {k} else {})"
  "edges (dir_edges FromSubject (fst (add_in_edge p k e))) q = edges (dir_edges FromSubject e) q"
  by (auto simp: store_simps edges_add_edge)

definition put_out :: "key \<Rightarrow> key \<Rightarrow> entity \<Rightarrow> (key, entity) gomap \<Rightarrow> (key, entity) gomap" where
  "put_out p k e g =
     (if snd (add_out_edge p k e) then gm_put (PK e) (fst (add_out_edge p k e)) g else g)"

definition put_in :: "key \<Rightarrow> key \<Rightarrow> entity \<Rightarrow> (key, entity) gomap \<Rightarrow> (key, entity) gomap" where
  "put_in p k e g =
     (if snd (add_in_edge p k e) then gm_put (PK e) (fst (add_in_edge p k e)) g else g)"

lemma graph_inv_get:
  "graph_inv g \<Longrightarrow> gm_get g k = Some e \<Longrightarrow> PK e = k \<and> entity_wf e"
  by (simp add: graph_inv_def)

lemma graph_inv_endpoint:
  "graph_inv g \<Longrightarrow> gm_get g k = Some e \<Longrightarrow> b \<in> edges (dir_edges d e) p \<Longrightarrow> gm_has g b"
  unfolding graph_inv_def using graph_rel_entity[of g k e b d p] by blast

lemma graph_inv_update:
  assumes "graph_inv g" "gm_get g k = Some e" "PK e' = k" "entity_wf e'" "gm_has g b"
    and "\<And>d q. edges (dir_edges d e') q \<subseteq> edges (dir_edges d e) q \<union> {b}"
  shows "graph_inv (gm_put k e' g)"
proof -
  have "graph_inv (gm_put (PK e') e' g)"
  proof (rule graph_inv_put[OF assms(1,4)])
    fix d p c assume "c \<in> edges (dir_edges d e') p"
    then show "gm_has g c \<or> c = PK e'"
      using assms(5,6) graph_inv_endpoint[OF assms(1,2)] by blast
  qed
  then show ?thesis using assms(3) by simp
qed

lemma edges_dir_add_out:
  "edges (dir_edges d (fst (add_out_edge p k e))) q \<subseteq> edges (dir_edges d e) q \<union> {k}"
  by (cases d) (auto simp: store_simps edges_add_edge split: if_splits)

lemma edges_dir_add_in:
  "edges (dir_edges d (fst (add_in_edge p k e))) q \<subseteq> edges (dir_edges d e) q \<union> {k}"
  by (cases d) (auto simp: store_simps edges_add_edge split: if_splits)

lemma put_out_spec:
  assumes "graph_inv g" "gm_get g a = Some e" "gm_has g b"
  shows "graph_inv (put_out p b e g)"
    and "graph_rel FromSubject (put_out p b e g) q = graph_rel FromSubject g q \<union> new_pair p q a b"
    and "graph_rel FromObject (put_out p b e g) q = graph_rel FromObject g q"
    and "gm_has (put_out p b e g) k = gm_has g k"
    and "k \<noteq> a \<Longrightarrow> gm_get (put_out p b e g) k = gm_get g k"
proof -
  have e: "PK e = a" "entity_wf e" using graph_inv_get[OF assms(1,2)] by simp_all
  have "graph_inv (gm_put a (fst (add_out_edge p b e)) g)"
    by (rule graph_inv_update[OF assms(1,2) _ _ assms(3) edges_dir_add_out])
       (simp_all add: store_simps inv_intros e)
  then show "graph_inv (put_out p b e g)"
    using assms(1) e by (simp add: put_out_def)
  show "graph_rel FromSubject (put_out p b e g) q = graph_rel FromSubject g q \<union> new_pair p q a b"
  proof (cases "snd (add_out_edge p b e)")
    case True
    then show ?thesis
      using graph_rel_put_add[OF assms(2) edges_add_out(1)] e
      by (simp add: put_out_def)
  next
    case False
    then have "b \<in> edges (OutEdges e) p" by (simp add: store_simps add_edge_new_iff)
    then have "(a, b) \<in> graph_rel FromSubject g p" using graph_rel_entity[OF assms(2)] by simp
    then show ?thesis using False by (auto simp: put_out_def new_pair_def)
  qed
  show "graph_rel FromObject (put_out p b e g) q = graph_rel FromObject g q"
    using graph_rel_put_same[OF assms(2) edges_add_out(2)] e
    by (simp add: put_out_def)
  show "gm_has (put_out p b e g) k = gm_has g k"
    using e assms(2) by (auto simp: put_out_def gm_has_def)
  show "k \<noteq> a \<Longrightarrow> gm_get (put_out p b e g) k = gm_get g k"
    using e by (simp add: put_out_def)
qed

lemma put_in_spec:
  assumes "graph_inv g" "gm_get g a = Some e" "gm_has g b"
  shows "graph_inv (put_in p b e g)"
    and "graph_rel FromObject (put_in p b e g) q = graph_rel FromObject g q \<union> new_pair p q a b"
    and "graph_rel FromSubject (put_in p b e g) q = graph_rel FromSubject g q"
    and "gm_has (put_in p b e g) k = gm_has g k"
    and "k \<noteq> a \<Longrightarrow> gm_get (put_in p b e g) k = gm_get g k"
proof -
  have e: "PK e = a" "entity_wf e" using graph_inv_get[OF assms(1,2)] by simp_all
  have "graph_inv (gm_put a (fst (add_in_edge p b e)) g)"
    by (rule graph_inv_update[OF assms(1,2) _ _ assms(3) edges_dir_add_in])
       (simp_all add: store_simps inv_intros e)
  then show "graph_inv (put_in p b e g)"
    using assms(1) e by (simp add: put_in_def)
  show "graph_rel FromObject (put_in p b e g) q = graph_rel FromObject g q \<union> new_pair p q a b"
  proof (cases "snd (add_in_edge p b e)")
    case True
    then show ?thesis
      using graph_rel_put_add[OF assms(2) edges_add_in(1)] e
      by (simp add: put_in_def)
  next
    case False
    then have "b \<in> edges (InEdges e) p" by (simp add: store_simps add_edge_new_iff)
    then have "(a, b) \<in> graph_rel FromObject g p" using graph_rel_entity[OF assms(2)] by simp
    then show ?thesis using False by (auto simp: put_in_def new_pair_def)
  qed
  show "graph_rel FromSubject (put_in p b e g) q = graph_rel FromSubject g q"
    using graph_rel_put_same[OF assms(2) edges_add_in(2)] e
    by (simp add: put_in_def)
  show "gm_has (put_in p b e g) k = gm_has g k"
    using e assms(2) by (auto simp: put_in_def gm_has_def)
  show "k \<noteq> a \<Longrightarrow> gm_get (put_in p b e g) k = gm_get g k"
    using e by (simp add: put_in_def)
qed

text \<open>
  The two writes of a triple. With a self loop the second write starts from the entity read before the
  first one and undoes it, unless the incoming edge is already there.
\<close>

definition link_graph :: "key \<Rightarrow> entity \<Rightarrow> entity \<Rightarrow> (key, entity) gomap \<Rightarrow> (key, entity) gomap" where
  "link_graph p subject object g = put_in p (PK subject) object (put_out p (PK object) subject g)"

lemma link_graph_spec:
  assumes inv: "graph_inv g" and s: "gm_get g a = Some es" and o': "gm_get g b = Some eo" and ne: "a \<noteq> b"
  shows "graph_inv (link_graph p es eo g)"
    and "graph_rel FromSubject (link_graph p es eo g) q = graph_rel FromSubject g q \<union> new_pair p q a b"
    and "graph_rel FromObject (link_graph p es eo g) q = graph_rel FromObject g q \<union> new_pair p q b a"
    and "gm_has (link_graph p es eo g) k = gm_has g k"
proof -
  have e: "PK es = a" "PK eo = b" using graph_inv_get[OF inv] s o' by auto
  have has: "gm_has g b" "gm_has g a" using s o' by (simp_all add: gm_has_def)
  let ?g1 = "put_out p b es g"
  note g1 = put_out_spec[OF inv s has(1), where p = p]
  have o1: "gm_get ?g1 b = Some eo" using g1(5)[of b] ne o' by metis
  have has1: "gm_has ?g1 a" using g1(4) has(2) by simp
  note g2 = put_in_spec[OF g1(1) o1 has1, where p = p]
  show "graph_inv (link_graph p es eo g)" using g2(1) by (simp add: link_graph_def e)
  show "graph_rel FromSubject (link_graph p es eo g) q = graph_rel FromSubject g q \<union> new_pair p q a b"
    using g2(3) g1(2) by (simp add: link_graph_def e)
  show "graph_rel FromObject (link_graph p es eo g) q = graph_rel FromObject g q \<union> new_pair p q b a"
    using g2(2) g1(3) by (simp add: link_graph_def e)
  show "gm_has (link_graph p es eo g) k = gm_has g k"
    using g2(4) g1(4) by (simp add: link_graph_def e)
qed

lemma link_graph_self:
  assumes inv: "graph_inv g" and s: "gm_get g a = Some e" and new: "(a, a) \<notin> graph_rel FromObject g p"
  shows "graph_inv (link_graph p e e g)"
    and "graph_rel FromSubject (link_graph p e e g) q = graph_rel FromSubject g q"
    and "graph_rel FromObject (link_graph p e e g) q = graph_rel FromObject g q \<union> new_pair p q a a"
proof -
  have e: "PK e = a" using graph_inv_get[OF inv s] by simp
  have "snd (add_in_edge p a e)"
    using new graph_rel_entity[OF s] by (simp add: store_simps add_edge_new_iff)
  then have "gm_get (link_graph p e e g) k = gm_get (put_in p a e g) k" for k
    by (auto simp: link_graph_def put_in_def put_out_def e)
  moreover have "gm_wf (link_graph p e e g)"
    using inv by (auto simp: link_graph_def put_in_def put_out_def graph_inv_def)
  ultimately have eq: "graph_rel d (link_graph p e e g) q = graph_rel d (put_in p a e g) q"
    "graph_inv (link_graph p e e g) = graph_inv (put_in p a e g)" for d q
    using put_in_spec(1)[OF inv s, of a p] s
    by (auto simp: graph_rel_def graph_inv_def gm_has_def)
  have has: "gm_has g a" using s by (simp add: gm_has_def)
  show "graph_inv (link_graph p e e g)"
    "graph_rel FromSubject (link_graph p e e g) q = graph_rel FromSubject g q"
    "graph_rel FromObject (link_graph p e e g) q = graph_rel FromObject g q \<union> new_pair p q a a"
    using put_in_spec[OF inv s has] unfolding eq by simp_all
qed

section \<open>The predicate batch\<close>

definition tx_pairs :: "transaction \<Rightarrow> key \<Rightarrow> (key \<times> key) set" where
  "tx_pairs tx p = pred_pairs (fst (tx_get_predicate_by_hash tx p))"

lemma new_pred_props [simp]:
  "PredPK (new_pred k) = k" "pred_wf (new_pred k)" "pred_pairs (new_pred k) = {}"
  by (simp_all add: new_pred_def)

lemma get_predicate_spec:
  assumes "tx_inv tx" "tx_get_predicate_by_hash tx k = (pred, tx')"
  shows "PredPK pred = k" "pred_wf pred" "pred_pairs pred = tx_pairs tx k" "tx_inv tx'"
    "gm_get (predbatch tx') k = Some pred" "tx_db tx' = tx_db tx" "hashes tx' = hashes tx"
    "inverseRelationships tx' = inverseRelationships tx" "triplesAdded tx' = triplesAdded tx"
    "tx_pairs tx' q = tx_pairs tx q"
proof -
  have inv: "preds_inv (predbatch tx)" "preds_inv (predDB (tx_db tx))"
    using assms(1) by (simp_all add: tx_inv_def store_inv_def)
  show PredPK: "PredPK pred = k" and wf: "pred_wf pred"
    using assms(2) inv
    by (auto simp: tx_get_predicate_by_hash_def preds_inv_def Let_def split: option.splits)
  show "pred_pairs pred = tx_pairs tx k"
    using assms(2) by (simp add: tx_pairs_def)
  have same: "tx_db tx' = tx_db tx" "hashes tx' = hashes tx"
    "inverseRelationships tx' = inverseRelationships tx" "triplesAdded tx' = triplesAdded tx"
    and b: "predbatch tx' = (if gm_has (predbatch tx) k then predbatch tx
        else gm_put (PredPK pred) pred (predbatch tx))"
    and hit: "gm_get (predbatch tx) k \<noteq> None \<Longrightarrow> gm_get (predbatch tx) k = Some pred"
    using assms(2)
    by (auto simp: tx_get_predicate_by_hash_def gm_has_def Let_def split: option.splits)
  show "tx_db tx' = tx_db tx" "hashes tx' = hashes tx"
    "inverseRelationships tx' = inverseRelationships tx" "triplesAdded tx' = triplesAdded tx"
    using same .
  show get: "gm_get (predbatch tx') k = Some pred"
    using b hit PredPK by (auto simp: gm_has_def)
  show "tx_inv tx'"
    using assms(1) preds_inv_put[OF inv(1) wf PredPK] by (simp add: tx_inv_def same b PredPK)
  show "tx_pairs tx' q = tx_pairs tx q"
  proof (cases "q = k")
    case True
    then show ?thesis using get assms(2) by (simp add: tx_pairs_def tx_get_predicate_by_hash_def)
  next
    case False
    then have "gm_get (predbatch tx') q = gm_get (predbatch tx) q" using b PredPK by simp
    then show ?thesis
      by (simp add: tx_pairs_def tx_get_predicate_by_hash_def same Let_def split: option.splits)
  qed
qed

lemma tx_pairs_batch:
  "tx_pairs (tx\<lparr>predbatch := gm_put k pred b\<rparr>) q =
     (if q = k then pred_pairs pred else tx_pairs (tx\<lparr>predbatch := b\<rparr>) q)"
  by (simp add: tx_pairs_def tx_get_predicate_by_hash_def Let_def split: option.splits)

lemma tx_pairs_cong:
  "predbatch tx' = predbatch tx \<Longrightarrow> predDB (tx_db tx') = predDB (tx_db tx) \<Longrightarrow>
     tx_pairs tx' q = tx_pairs tx q"
  by (simp add: tx_pairs_def tx_get_predicate_by_hash_def Let_def split: option.splits)

section \<open>Linking a triple\<close>

text \<open>The URIs of the triple are known and its subject and object are in the graph.\<close>

definition triple_known :: "transaction \<Rightarrow> triple \<Rightarrow> bool" where
  "triple_known tx t \<longleftrightarrow>
     (\<forall>u \<in> {Subject t, Predicate t, Object t}.
        \<exists>k. gm_get (hashes tx) u = Some k \<and> gm_has (graphDB (tx_db tx)) k)"

lemma triple_known_get:
  "triple_known tx t \<Longrightarrow> u \<in> {Subject t, Predicate t, Object t} \<Longrightarrow> \<exists>k. gm_get (hashes tx) u = Some k"
  by (auto simp: triple_known_def)

lemma triple_known_hash:
  assumes "tx_inv tx" "triple_known tx t" "u \<in> {Subject t, Predicate t, Object t}"
  shows "tx_get_hash tx u = Inr (tx_hash tx u)" "gm_has (graphDB (tx_db tx)) (tx_hash tx u)"
proof -
  obtain k where k: "gm_get (hashes tx) u = Some k" "gm_has (graphDB (tx_db tx)) k"
    using assms(2,3) unfolding triple_known_def by blast
  then have "gm_get (entityDB (tx_db tx)) (uri_bytes u) = Some k"
    using assms(1) by (simp add: tx_inv_def)
  then show "tx_get_hash tx u = Inr (tx_hash tx u)" "gm_has (graphDB (tx_db tx)) (tx_hash tx u)"
    using k by (simp_all add: tx_get_hash_def tx_hash_def)
qed

lemma link_edges_graph:
  "link_edges p subject object tx =
     tx\<lparr>tx_db := (tx_db tx)\<lparr>graphDB := link_graph p subject object (graphDB (tx_db tx))\<rparr>\<rparr>"
  by (simp add: link_edges_def Let_def case_prod_beta put_entity_def link_graph_def put_out_def
      put_in_def store_simps(1-8))

lemma link_triple_eq:
  assumes inv: "tx_inv tx" and known: "triple_known tx t"
    and g: "gm_get (graphDB (tx_db tx)) (tx_hash tx (Subject t)) = Some es"
      "gm_get (graphDB (tx_db tx)) (tx_hash tx (Object t)) = Some eo"
  shows "\<exists>pred tx1 tx'. tx_get_predicate_by_hash tx (tx_hash tx (Predicate t)) = (pred, tx1) \<and>
     link_triple t tx = Inr tx' \<and>
     tx' = tx1\<lparr>predbatch := gm_put (tx_hash tx (Predicate t))
             (fst (add_subject_object (tx_hash tx (Subject t)) (tx_hash tx (Object t)) pred)) (predbatch tx1),
           tx_db := (tx_db tx)\<lparr>graphDB := link_graph (tx_hash tx (Predicate t)) es eo (graphDB (tx_db tx))\<rparr>,
           tx_evicted := tx_evicted tx1 @ [tx_hash tx (Subject t), tx_hash tx (Object t), tx_hash tx (Predicate t)]\<rparr>"
proof -
  let ?s = "tx_hash tx (Subject t)" and ?p = "tx_hash tx (Predicate t)" and ?o = "tx_hash tx (Object t)"
  have h: "tx_get_hash tx (Subject t) = Inr ?s" "tx_get_hash tx (Predicate t) = Inr ?p"
    "tx_get_hash tx (Object t) = Inr ?o"
    using triple_known_hash(1)[OF inv known] by simp_all
  obtain pred tx1 where gp: "tx_get_predicate_by_hash tx ?p = (pred, tx1)" by fastforce
  note sp = get_predicate_spec[OF inv gp]
  have ent: "entityDB (tx_db tx1) = entityDB (tx_db tx)" using sp(6) by simp
  have h2: "tx_get_hash (tx1\<lparr>predbatch := b\<rparr>) u = tx_get_hash tx u" for u b
    by (simp add: tx_get_hash_def ent)
  have g2: "tx_get_entity_by_hash (tx1\<lparr>predbatch := b\<rparr>) k = tx_get_entity_by_hash tx k" for k b
    by (simp add: tx_get_entity_by_hash_def sp(6))
  let ?tx2 = "tx1\<lparr>predbatch := gm_put ?p (fst (add_subject_object ?s ?o pred)) (predbatch tx1)\<rparr>"
  have "link_triple t tx = Inr (evict ?p (evict ?o (evict ?s (link_edges ?p es eo ?tx2))))"
    using sp(1) g
    by (simp add: gp link_triple_def tx_get_predicate_by_uri_def tx_get_entity_by_uri_def h h2 g2
        tx_get_entity_by_hash_def sp(6) Let_def)
  then show ?thesis
    using gp sp(6) by (simp add: evict_def link_edges_graph)
qed

section \<open>Adding a triple\<close>

text \<open>The edges of a transaction in the two directions.\<close>

abbreviation tx_out :: "transaction \<Rightarrow> key \<Rightarrow> (key \<times> key) set" where
  "tx_out tx p \<equiv> graph_rel FromSubject (graphDB (tx_db tx)) p"

abbreviation tx_in :: "transaction \<Rightarrow> key \<Rightarrow> (key \<times> key) set" where
  "tx_in tx p \<equiv> graph_rel FromObject (graphDB (tx_db tx)) p"

text \<open>
  The two directions agree, and both agree with the predicate index. Every stored triple of distinct
  entities keeps this.
\<close>

definition graph_agrees :: "transaction \<Rightarrow> bool" where
  "graph_agrees tx \<longleftrightarrow>
     (\<forall>p. tx_in tx p = (tx_out tx p)\<inverse> \<and> tx_pairs tx p = tx_out tx p)"

definition tx_frame :: "transaction \<Rightarrow> transaction \<Rightarrow> bool" where
  "tx_frame tx tx' \<longleftrightarrow>
     (\<forall>u k. gm_get (hashes tx) u = Some k \<longrightarrow> gm_get (hashes tx') u = Some k) \<and>
     (\<forall>b k. gm_get (entityDB (tx_db tx)) b = Some k \<longrightarrow> gm_get (entityDB (tx_db tx')) b = Some k) \<and>
     (\<forall>k. gm_has (graphDB (tx_db tx)) k \<longrightarrow> gm_has (graphDB (tx_db tx')) k) \<and>
     extendedDB (tx_db tx') = extendedDB (tx_db tx)"

lemma tx_frame_refl [simp]: "tx_frame tx tx"
  by (simp add: tx_frame_def)

lemma tx_frame_trans: "tx_frame a b \<Longrightarrow> tx_frame b c \<Longrightarrow> tx_frame a c"
  by (auto simp: tx_frame_def)

lemma tx_grows_frame: "tx_grows tx tx' \<Longrightarrow> tx_frame tx tx'"
  by (simp add: tx_grows_def tx_frame_def)

lemma link_triple_spec:
  assumes inv: "tx_inv tx" and known: "triple_known tx t"
    and ne: "tx_hash tx (Subject t) \<noteq> tx_hash tx (Object t)"
  shows "\<exists>tx'. link_triple t tx = Inr tx' \<and> tx_inv tx' \<and> tx_frame tx tx' \<and>
     hashes tx' = hashes tx \<and> inverseRelationships tx' = inverseRelationships tx \<and>
     (\<forall>q. tx_out tx' q = tx_out tx q \<union> new_pair (tx_hash tx (Predicate t)) q (tx_hash tx (Subject t)) (tx_hash tx (Object t))) \<and>
     (\<forall>q. tx_in tx' q = tx_in tx q \<union> new_pair (tx_hash tx (Predicate t)) q (tx_hash tx (Object t)) (tx_hash tx (Subject t))) \<and>
     (\<forall>q. tx_pairs tx' q = tx_pairs tx q \<union> new_pair (tx_hash tx (Predicate t)) q (tx_hash tx (Subject t)) (tx_hash tx (Object t)))"
proof -
  let ?s = "tx_hash tx (Subject t)" and ?p = "tx_hash tx (Predicate t)" and ?o = "tx_hash tx (Object t)"
  let ?g = "graphDB (tx_db tx)"
  obtain es eo where g: "gm_get ?g ?s = Some es" "gm_get ?g ?o = Some eo"
    using triple_known_hash(2)[OF inv known, of "Subject t"]
      triple_known_hash(2)[OF inv known, of "Object t"] by (auto simp: gm_has_def)
  obtain pred tx1 tx' where gp: "tx_get_predicate_by_hash tx ?p = (pred, tx1)"
    and lt: "link_triple t tx = Inr tx'"
    and tx': "tx' = tx1\<lparr>predbatch := gm_put ?p (fst (add_subject_object ?s ?o pred)) (predbatch tx1),
           tx_db := (tx_db tx)\<lparr>graphDB := link_graph ?p es eo ?g\<rparr>,
           tx_evicted := tx_evicted tx1 @ [?s, ?o, ?p]\<rparr>"
    using link_triple_eq[OF inv known g] by blast
  note sp = get_predicate_spec[OF inv gp]
  have gi: "graph_inv ?g" using inv by (simp add: tx_inv_def store_inv_def)
  note lg = link_graph_spec[OF gi g ne, where p = ?p]
  have "pred_wf (fst (add_subject_object ?s ?o pred))"
    using sp(2) by (rule pred_wf_add_subject_object)
  then have inv': "tx_inv tx'"
    using sp(1,4,6,7) lg(1) preds_inv_put[of "predbatch tx1" "fst (add_subject_object ?s ?o pred)" ?p]
    unfolding tx' by (simp add: tx_inv_def store_inv_def dict_inv_def add_subject_object_sel(1))
  have pairs: "tx_pairs tx' q = tx_pairs tx q \<union> new_pair ?p q ?s ?o" for q
  proof -
    have "tx_pairs tx' q = tx_pairs (tx1\<lparr>predbatch :=
        gm_put ?p (fst (add_subject_object ?s ?o pred)) (predbatch tx1)\<rparr>) q"
      unfolding tx' by (rule tx_pairs_cong) (simp_all add: sp(6))
    also have "\<dots> = (if q = ?p then insert (?s, ?o) (pred_pairs pred) else tx_pairs tx1 q)"
      by (simp add: tx_pairs_batch pred_pairs_add_subject_object)
    finally show ?thesis using sp(3,10) by (auto simp: new_pair_def)
  qed
  have "tx_frame tx tx'" "hashes tx' = hashes tx" "inverseRelationships tx' = inverseRelationships tx"
    using sp lg(4) unfolding tx' by (simp_all add: tx_frame_def)
  moreover have "tx_out tx' q = tx_out tx q \<union> new_pair ?p q ?s ?o"
    "tx_in tx' q = tx_in tx q \<union> new_pair ?p q ?o ?s" for q
    using lg(2,3) unfolding tx' by simp_all
  ultimately show ?thesis using lt inv' pairs by blast
qed

text \<open>After its URIs are added a triple is known.\<close>

lemma add_uris_triple:
  assumes "tx_inv tx"
    and "add_uris hf [Subject t, Predicate t, Object t, plus_uri (Predicate t)] tx = Some tx1"
  shows "tx_inv tx1" "tx_grows tx tx1" "triple_known tx1 t"
proof -
  have "tx_inv tx1 \<and> tx_grows tx tx1 \<and>
     (\<forall>u \<in> set [Subject t, Predicate t, Object t, plus_uri (Predicate t)].
        \<exists>k. gm_get (hashes tx1) u = Some k \<and> gm_has (graphDB (tx_db tx1)) k)"
    by (rule add_uris_spec[OF assms])
  then show "tx_inv tx1" "tx_grows tx tx1" "triple_known tx1 t"
    by (auto simp: triple_known_def)
qed

lemma tx_grows_pairs: "tx_grows tx tx1 \<Longrightarrow> tx_pairs tx1 q = tx_pairs tx q"
  by (rule tx_pairs_cong) (simp_all add: tx_grows_def)

text \<open>The effect of one triple on the sets the model is about.\<close>

definition triple_added :: "key \<Rightarrow> key \<Rightarrow> key \<Rightarrow> transaction \<Rightarrow> transaction \<Rightarrow> bool" where
  "triple_added s p o' tx tx' \<longleftrightarrow>
     (\<forall>q. tx_out tx' q = tx_out tx q \<union> new_pair p q s o') \<and>
     (\<forall>q. tx_in tx' q = tx_in tx q \<union> new_pair p q o' s) \<and>
     (\<forall>q. tx_pairs tx' q = tx_pairs tx q \<union> new_pair p q s o')"

lemma tx_hash_Some: "gm_get (hashes tx) u = Some k \<Longrightarrow> tx_hash tx u = k"
  by (simp add: tx_hash_def)

lemma tx_inv_hash_bytes:
  "tx_inv tx \<Longrightarrow> gm_get (hashes tx) u = Some k \<Longrightarrow> gm_get (hashes tx) v = Some k \<Longrightarrow>
     uri_bytes u = uri_bytes v"
  unfolding tx_inv_def store_inv_def dict_inv_def by (metis option.inject)

lemma add_triple_spec:
  assumes inv: "tx_inv tx" and run: "add_triple hf t tx = Some r"
    and ne: "uri_bytes (Subject t) \<noteq> uri_bytes (Object t)"
  shows "\<exists>tx'. r = Inr tx' \<and> tx_inv tx' \<and> tx_frame tx tx' \<and> triple_known tx' t \<and>
     inverseRelationships tx' = inverseRelationships tx \<and>
     triple_added (tx_hash tx' (Subject t)) (tx_hash tx' (Predicate t)) (tx_hash tx' (Object t)) tx tx'"
proof -
  from run obtain tx1 where
    a: "add_uris hf [Subject t, Predicate t, Object t, plus_uri (Predicate t)] tx = Some tx1"
    and r: "r = link_triple t tx1"
    by (auto simp: add_triple_def)
  note s1 = add_uris_triple[OF inv a]
  have "tx_hash tx1 (Subject t) \<noteq> tx_hash tx1 (Object t)"
  proof
    assume eq: "tx_hash tx1 (Subject t) = tx_hash tx1 (Object t)"
    obtain k k' where "gm_get (hashes tx1) (Subject t) = Some k" "gm_get (hashes tx1) (Object t) = Some k'"
      using s1(3) unfolding triple_known_def by blast
    then show False
      using eq ne tx_inv_hash_bytes[OF s1(1)] by (metis tx_hash_Some)
  qed
  from link_triple_spec[OF s1(1) s1(3) this] obtain tx' where l: "link_triple t tx1 = Inr tx'"
    "tx_inv tx'" "tx_frame tx1 tx'" "hashes tx' = hashes tx1"
    "inverseRelationships tx' = inverseRelationships tx1"
    "\<forall>q. tx_out tx' q = tx_out tx1 q \<union> new_pair (tx_hash tx1 (Predicate t)) q (tx_hash tx1 (Subject t)) (tx_hash tx1 (Object t))"
    "\<forall>q. tx_in tx' q = tx_in tx1 q \<union> new_pair (tx_hash tx1 (Predicate t)) q (tx_hash tx1 (Object t)) (tx_hash tx1 (Subject t))"
    "\<forall>q. tx_pairs tx' q = tx_pairs tx1 q \<union> new_pair (tx_hash tx1 (Predicate t)) q (tx_hash tx1 (Subject t)) (tx_hash tx1 (Object t))"
    by blast
  have "tx_hash tx' u = tx_hash tx1 u" for u by (simp add: tx_hash_def l(4))
  moreover have "tx_out tx1 q = tx_out tx q" "tx_in tx1 q = tx_in tx q" "tx_pairs tx1 q = tx_pairs tx q" for q
    using s1(2) tx_grows_pairs[OF s1(2)] by (simp_all add: tx_grows_def)
  ultimately have "triple_added (tx_hash tx' (Subject t)) (tx_hash tx' (Predicate t))
      (tx_hash tx' (Object t)) tx tx'"
    using l(6-8) by (simp add: triple_added_def)
  moreover have "triple_known tx' t"
    using s1(3) l(3) by (auto simp: triple_known_def tx_frame_def)
  moreover have "inverseRelationships tx1 = inverseRelationships tx"
    using s1(2) by (simp add: tx_grows_def)
  ultimately show ?thesis
    using l(1-3,5) r tx_frame_trans[OF tx_grows_frame[OF s1(2)] l(3)] by simp
qed

lemma triple_added_agrees:
  "graph_agrees tx \<Longrightarrow> triple_added s p o' tx tx' \<Longrightarrow> graph_agrees tx'"
  by (auto simp: graph_agrees_def triple_added_def new_pair_def split: if_splits)

section \<open>Adding a data set\<close>

text \<open>The pairs a list of triples denotes under the dictionary of a transaction.\<close>

definition triples_rel :: "transaction \<Rightarrow> triple list \<Rightarrow> key \<Rightarrow> (key \<times> key) set" where
  "triples_rel tx ts q =
     {(tx_hash tx (Subject t), tx_hash tx (Object t)) | t. t \<in> set ts \<and> tx_hash tx (Predicate t) = q}"

lemma triples_rel_Cons:
  "triples_rel tx (t # ts) q =
     new_pair (tx_hash tx (Predicate t)) q (tx_hash tx (Subject t)) (tx_hash tx (Object t))
     \<union> triples_rel tx ts q"
  by (simp add: triples_rel_def new_pair_def) blast

definition triples_added :: "triple list \<Rightarrow> transaction \<Rightarrow> transaction \<Rightarrow> bool" where
  "triples_added ts tx tx' \<longleftrightarrow>
     (\<forall>q. tx_out tx' q = tx_out tx q \<union> triples_rel tx' ts q) \<and>
     (\<forall>q. tx_in tx' q = tx_in tx q \<union> (triples_rel tx' ts q)\<inverse>) \<and>
     (\<forall>q. tx_pairs tx' q = tx_pairs tx q \<union> triples_rel tx' ts q)"

lemma triples_added_agrees:
  "graph_agrees tx \<Longrightarrow> triples_added ts tx tx' \<Longrightarrow> graph_agrees tx'"
  by (simp add: graph_agrees_def triples_added_def converse_Un)

text \<open>Noting inverse relationships fills the batch but changes no edge and no pair.\<close>

definition tx_same_graph :: "transaction \<Rightarrow> transaction \<Rightarrow> bool" where
  "tx_same_graph tx tx' \<longleftrightarrow> tx_db tx' = tx_db tx \<and> hashes tx' = hashes tx \<and>
     (\<forall>q. tx_pairs tx' q = tx_pairs tx q)"

lemma tx_same_graph_refl [simp]: "tx_same_graph tx tx"
  by (simp add: tx_same_graph_def)

lemma tx_same_graph_trans: "tx_same_graph a b \<Longrightarrow> tx_same_graph b c \<Longrightarrow> tx_same_graph a c"
  by (simp add: tx_same_graph_def)

lemma set_inverse_same: "tx_inv tx \<Longrightarrow> tx_inv (set_inverse a b tx) \<and> tx_same_graph tx (set_inverse a b tx)"
  using tx_pairs_cong[of "set_inverse a b tx" tx]
  by (simp add: set_inverse_def tx_inv_def tx_same_graph_def)

lemma count_same:
  "tx_inv tx \<Longrightarrow> tx_inv (tx\<lparr>triplesAdded := n\<rparr>) \<and> tx_same_graph tx (tx\<lparr>triplesAdded := n\<rparr>)"
  using tx_pairs_cong[of "tx\<lparr>triplesAdded := n\<rparr>" tx] by (simp add: tx_inv_def tx_same_graph_def)

lemma touch_predicate_same:
  assumes "tx_inv tx"
  shows "tx_inv (touch_predicate u tx) \<and> tx_same_graph tx (touch_predicate u tx)"
proof (cases "tx_get_hash tx u")
  case (Inl er)
  then show ?thesis using assms by (simp add: touch_predicate_def tx_get_predicate_by_uri_def)
next
  case (Inr k)
  obtain pred tx1 where "tx_get_predicate_by_hash tx k = (pred, tx1)" by fastforce
  then show ?thesis
    using Inr get_predicate_spec[OF assms, of k pred tx1]
    by (simp add: touch_predicate_def tx_get_predicate_by_uri_def tx_same_graph_def)
qed

lemma note_inverse_same:
  assumes "tx_inv tx"
  shows "tx_inv (note_inverse t tx) \<and> tx_same_graph tx (note_inverse t tx)"
proof -
  let ?tx1 = "set_inverse (tx_hash tx (Subject t)) (tx_hash tx (Object t)) tx"
  let ?tx2 = "touch_predicate (Subject t) ?tx1"
  have "tx_inv ?tx1 \<and> tx_same_graph tx ?tx1" using set_inverse_same[OF assms] .
  moreover from this have "tx_inv ?tx2 \<and> tx_same_graph ?tx1 ?tx2"
    by (intro touch_predicate_same) simp
  moreover from this have "tx_inv (touch_predicate (Object t) ?tx2) \<and>
      tx_same_graph ?tx2 (touch_predicate (Object t) ?tx2)"
    by (intro touch_predicate_same) simp
  ultimately show ?thesis
    using assms by (auto simp: note_inverse_def intro: tx_same_graph_trans)
qed

text \<open>No triple relates a resource to itself; such a triple is stored differently.\<close>

definition no_self_loop :: "triple \<Rightarrow> bool" where
  "no_self_loop t \<longleftrightarrow> uri_bytes (Subject t) \<noteq> uri_bytes (Object t)"

lemma triples_rel_mono:
  assumes "\<And>t. t \<in> set ts \<Longrightarrow> triple_known tx t" "tx_frame tx tx'"
  shows "triples_rel tx' ts q = triples_rel tx ts q"
proof -
  have "tx_hash tx' u = tx_hash tx u" if t: "t \<in> set ts" and u: "u \<in> {Subject t, Predicate t, Object t}" for t u
  proof -
    obtain k where "gm_get (hashes tx) u = Some k"
      using assms(1)[OF t] u unfolding triple_known_def by blast
    then show ?thesis using assms(2) by (simp add: tx_frame_def tx_hash_def)
  qed
  then show ?thesis unfolding triples_rel_def by (intro Collect_cong) (metis insertCI)
qed

lemma add_all_spec:
  assumes "tx_inv tx" "add_all hf ts nps tx = Some r" "list_all no_self_loop ts"
  shows "\<exists>nps' tx'. r = Inr (nps', tx') \<and> tx_inv tx' \<and> tx_frame tx tx' \<and>
     (\<forall>t \<in> set ts. triple_known tx' t) \<and> triples_added ts tx tx' \<and>
     set nps' = set nps \<union> (\<lambda>t. tx_hash tx' (Predicate t)) ` set ts"
  using assms
proof (induction ts arbitrary: tx nps)
  case Nil
  then show ?case by (auto simp: triples_added_def triples_rel_def)
next
  case (Cons t ts)
  from Cons.prems(2) obtain r1 where a: "add_triple hf t tx = Some r1"
    by (auto split: option.splits)
  from add_triple_spec[OF Cons.prems(1) a] Cons.prems(3)
  obtain tx1 where r1: "r1 = Inr tx1" and s1: "tx_inv tx1" "tx_frame tx tx1" "triple_known tx1 t"
    "triple_added (tx_hash tx1 (Subject t)) (tx_hash tx1 (Predicate t)) (tx_hash tx1 (Object t)) tx tx1"
    by (auto simp: no_self_loop_def)
  let ?tx2 = "note_inverse t tx1"
  let ?tx3 = "?tx2\<lparr>triplesAdded := triplesAdded ?tx2 + 1\<rparr>"
  have same: "tx_inv ?tx3" "tx_same_graph tx1 ?tx3"
    using note_inverse_same[OF s1(1), of t] count_same[of ?tx2 "triplesAdded ?tx2 + 1"]
      tx_same_graph_trans by blast+
  from Cons.prems(2) a r1
  have rest: "add_all hf ts (set_add (tx_hash tx1 (Predicate t)) nps) ?tx3 = Some r"
    by (simp add: Let_def)
  from Cons.IH[OF same(1) rest] Cons.prems(3)
  obtain nps' tx' where r: "r = Inr (nps', tx')" and s': "tx_inv tx'" "tx_frame ?tx3 tx'"
    "\<forall>t \<in> set ts. triple_known tx' t" "triples_added ts ?tx3 tx'"
    "set nps' = set (set_add (tx_hash tx1 (Predicate t)) nps) \<union> (\<lambda>t. tx_hash tx' (Predicate t)) ` set ts"
    by auto
  have f1: "tx_frame tx1 tx'"
    using same(2) s'(2) by (simp add: tx_frame_def tx_same_graph_def)
  have known: "triple_known tx' t"
    using s1(3) f1 unfolding triple_known_def tx_frame_def by blast
  have hash: "tx_hash tx' u = tx_hash tx1 u" if u: "u \<in> {Subject t, Predicate t, Object t}" for u
  proof -
    obtain k where "gm_get (hashes tx1) u = Some k"
      using triple_known_get[OF s1(3) u] by blast
    then show ?thesis using f1 by (simp add: tx_frame_def tx_hash_def)
  qed
  have rel: "triples_rel tx' (t # ts) q =
      new_pair (tx_hash tx1 (Predicate t)) q (tx_hash tx1 (Subject t)) (tx_hash tx1 (Object t))
      \<union> triples_rel tx' ts q" for q
    using hash[of "Subject t"] hash[of "Predicate t"] hash[of "Object t"]
    by (simp add: triples_rel_Cons)
  have conv: "(new_pair p q a b)\<inverse> = new_pair p q b a" for p q a b
    by (auto simp: new_pair_def)
  have "triples_added (t # ts) tx tx'"
    using s1(4) s'(4) same(2)
    unfolding triples_added_def triple_added_def tx_same_graph_def rel converse_Un conv by auto
  then show ?case
    using r s'(1,3,5) known hash tx_frame_trans[OF s1(2) f1] by auto
qed

section \<open>Inverse edges\<close>

text \<open>One pair of a predicate and its inverse: both edges, from both ends.\<close>

definition cross_entity :: "key \<Rightarrow> key \<Rightarrow> key \<Rightarrow> entity \<Rightarrow> entity" where
  "cross_entity pout pin k e = fst (add_out_edge pout k (fst (add_in_edge pin k e)))"

lemma cross_entity_out:
  "edges (dir_edges FromSubject (cross_entity pout pin k e)) q =
     edges (dir_edges FromSubject e) q \<union> (if q = pout then {k} else {})"
  unfolding cross_entity_def edges_add_out(1) edges_add_in(2) ..

lemma cross_entity_in:
  "edges (dir_edges FromObject (cross_entity pout pin k e)) q =
     edges (dir_edges FromObject e) q \<union> (if q = pin then {k} else {})"
  unfolding cross_entity_def edges_add_out(2) edges_add_in(1) ..

lemma cross_entity_inv:
  "entity_wf e \<Longrightarrow> entity_wf (cross_entity pout pin k e)" "PK (cross_entity pout pin k e) = PK e"
  by (simp_all add: cross_entity_def inv_intros store_simps(1,5))

lemma cross_entity_dir:
  "edges (dir_edges d (cross_entity pout pin k e)) q \<subseteq> edges (dir_edges d e) q \<union> {k}"
  by (cases d) (simp_all only: cross_entity_out cross_entity_in, auto)

lemma put_cross_spec:
  assumes "graph_inv g" "gm_get g a = Some e" "gm_has g b"
  shows "graph_inv (gm_put a (cross_entity pout pin b e) g)"
    and "graph_rel FromSubject (gm_put a (cross_entity pout pin b e) g) q =
           graph_rel FromSubject g q \<union> new_pair pout q a b"
    and "graph_rel FromObject (gm_put a (cross_entity pout pin b e) g) q =
           graph_rel FromObject g q \<union> new_pair pin q a b"
    and "gm_has (gm_put a (cross_entity pout pin b e) g) k = gm_has g k"
proof -
  have e: "PK e = a" "entity_wf e" using graph_inv_get[OF assms(1,2)] by simp_all
  show "graph_inv (gm_put a (cross_entity pout pin b e) g)"
    using e cross_entity_inv
    by (intro graph_inv_update[OF assms(1,2) _ _ assms(3) cross_entity_dir]) simp_all
  show "graph_rel FromSubject (gm_put a (cross_entity pout pin b e) g) q =
           graph_rel FromSubject g q \<union> new_pair pout q a b"
    by (rule graph_rel_put_add[OF assms(2) cross_entity_out])
  show "graph_rel FromObject (gm_put a (cross_entity pout pin b e) g) q =
           graph_rel FromObject g q \<union> new_pair pin q a b"
    by (rule graph_rel_put_add[OF assms(2) cross_entity_in])
  show "gm_has (gm_put a (cross_entity pout pin b e) g) k = gm_has g k"
    using assms(2) by (auto simp: gm_has_def)
qed

text \<open>
  The state of the inner loop: the transaction and the inverse predicate it is filling. \<open>done\<close> are the
  pairs handled so far, \<open>tx0\<close> the transaction the loop started from.
\<close>

definition inverse_inv ::
    "key \<Rightarrow> key \<Rightarrow> predicate_entity \<Rightarrow> transaction \<Rightarrow> (key \<times> key) set \<Rightarrow> predicate_entity \<times> transaction \<Rightarrow> bool" where
  "inverse_inv p rp revPred0 tx0 handled st \<longleftrightarrow>
     (case st of (revPred, tx) \<Rightarrow>
        tx_inv tx \<and> pred_wf revPred \<and> PredPK revPred = rp \<and>
        pred_pairs revPred = pred_pairs revPred0 \<union> handled\<inverse> \<and>
        (\<forall>q. tx_out tx q = tx_out tx0 q \<union> (if q = p then handled else {}) \<union> (if q = rp then handled\<inverse> else {})) \<and>
        (\<forall>q. tx_in tx q = tx_in tx0 q \<union> (if q = p then handled\<inverse> else {}) \<union> (if q = rp then handled else {})) \<and>
        (\<forall>k. gm_has (graphDB (tx_db tx)) k = gm_has (graphDB (tx_db tx0)) k) \<and>
        tx_db tx = (tx_db tx0)\<lparr>graphDB := graphDB (tx_db tx)\<rparr> \<and>
        hashes tx = hashes tx0 \<and> predbatch tx = predbatch tx0 \<and>
        inverseRelationships tx = inverseRelationships tx0)"

lemma link_inverse_step:
  assumes inv: "inverse_inv p rp rp0 tx0 handled st" and ne: "s \<noteq> o'"
    and has: "gm_has (graphDB (tx_db tx0)) s" "gm_has (graphDB (tx_db tx0)) o'"
  shows "\<exists>st'. link_inverse p rp (s, o') st = Inr st' \<and>
           inverse_inv p rp rp0 tx0 (insert (s, o') handled) st'"
proof -
  obtain revPred tx where st: "st = (revPred, tx)" by (cases st)
  let ?g = "graphDB (tx_db tx)"
  have i: "tx_inv tx" "pred_wf revPred" "PredPK revPred = rp"
    "pred_pairs revPred = pred_pairs rp0 \<union> handled\<inverse>"
    and i_out: "\<And>q. tx_out tx q = tx_out tx0 q \<union> (if q = p then handled else {})
        \<union> (if q = rp then handled\<inverse> else {})"
    and i_in: "\<And>q. tx_in tx q = tx_in tx0 q \<union> (if q = p then handled\<inverse> else {})
        \<union> (if q = rp then handled else {})"
    and i_has: "\<And>k. gm_has ?g k = gm_has (graphDB (tx_db tx0)) k"
    and i_db: "tx_db tx = (tx_db tx0)\<lparr>graphDB := ?g\<rparr>"
    and i_rest: "hashes tx = hashes tx0" "predbatch tx = predbatch tx0"
      "inverseRelationships tx = inverseRelationships tx0"
    using inv unfolding st inverse_inv_def prod.case by blast+
  have gi: "graph_inv ?g" using i(1) by (simp add: tx_inv_def store_inv_def)
  obtain es eo where g: "gm_get ?g s = Some es" "gm_get ?g o' = Some eo"
    using has i_has[of s] i_has[of o'] by (auto simp: gm_has_def)
  have pk: "PK es = s" "PK eo = o'" using graph_inv_get[OF gi] g by auto
  let ?es = "cross_entity p rp o' es" and ?eo = "fst (add_in_edge p s (fst (add_out_edge rp s eo)))"
  have eo: "?eo = cross_entity rp p s eo"
    by (cases eo) (auto simp: cross_entity_def add_in_edge_def add_out_edge_def case_prod_beta)
  let ?g1 = "gm_put s ?es ?g"
  have hs: "gm_has ?g o'" "gm_has ?g s" using g by (simp_all add: gm_has_def)
  note c1 = put_cross_spec[OF gi g(1) hs(1), where pout = p and pin = rp]
  have g1: "gm_get ?g1 o' = Some eo" using g(2) ne by simp
  have hs1: "gm_has ?g1 s" by simp
  note c2 = put_cross_spec[OF c1(1) g1 hs1, where pout = rp and pin = p]
  let ?g2 = "gm_put o' (cross_entity rp p s eo) ?g1"
  let ?tx = "tx\<lparr>tx_db := (tx_db tx)\<lparr>graphDB := ?g2\<rparr>\<rparr>"
  let ?rev = "fst (add_subject_object o' s revPred)"
  have run: "link_inverse p rp (s, o') st = Inr (?rev, ?tx)"
    using g pk cross_entity_inv(2) eo
    by (simp add: link_inverse_def st tx_get_entity_by_hash_def Let_def put_entity_def
        cross_entity_def[of p rp o' es, symmetric])
  have "tx_inv ?tx"
    using i(1) c2(1) by (auto simp: tx_inv_def store_inv_def dict_inv_def)
  moreover have "pred_wf ?rev" "PredPK ?rev = rp" "pred_pairs ?rev = pred_pairs rp0 \<union> (insert (s, o') handled)\<inverse>"
    using i by (auto simp: pred_wf_add_subject_object pred_pairs_add_subject_object
        add_subject_object_sel(1))
  moreover have "tx_out ?tx q = tx_out tx0 q \<union> (if q = p then insert (s, o') handled else {})
      \<union> (if q = rp then (insert (s, o') handled)\<inverse> else {})" for q
    using c2(2) c1(2) i_out by (auto simp: new_pair_def)
  moreover have "tx_in ?tx q = tx_in tx0 q \<union> (if q = p then (insert (s, o') handled)\<inverse> else {})
      \<union> (if q = rp then insert (s, o') handled else {})" for q
    using c2(3) c1(3) i_in by (auto simp: new_pair_def)
  moreover have "gm_has (graphDB (tx_db ?tx)) k = gm_has (graphDB (tx_db tx0)) k" for k
    using c2(4) c1(4) i_has by simp
  moreover have "tx_db ?tx = (tx_db tx0)\<lparr>graphDB := graphDB (tx_db ?tx)\<rparr>"
    by (subst i_db) simp
  ultimately have "inverse_inv p rp rp0 tx0 (insert (s, o') handled) (?rev, ?tx)"
    using i_rest unfolding inverse_inv_def prod.case by (intro conjI allI) simp_all
  then show ?thesis using run by blast
qed

lemma link_inverse_fold:
  assumes "inverse_inv p rp rp0 tx0 handled st"
    and "\<And>s o'. (s, o') \<in> set ps \<Longrightarrow> s \<noteq> o' \<and> gm_has (graphDB (tx_db tx0)) s \<and> gm_has (graphDB (tx_db tx0)) o'"
  shows "\<exists>st'. fold_res (link_inverse p rp) ps st = Inr st' \<and> inverse_inv p rp rp0 tx0 (handled \<union> set ps) st'"
  using assms
proof (induction ps arbitrary: handled st)
  case (Cons so ps)
  obtain s o' where so: "so = (s, o')" by (cases so)
  obtain st1 where st1: "link_inverse p rp so st = Inr st1"
    "inverse_inv p rp rp0 tx0 (insert (s, o') handled) st1"
    using link_inverse_step[OF Cons.prems(1), of s o'] Cons.prems(2)[of s o'] so by auto
  obtain st' where "fold_res (link_inverse p rp) ps st1 = Inr st'"
    "inverse_inv p rp rp0 tx0 (insert (s, o') handled \<union> set ps) st'"
    using Cons.IH[OF st1(2)] Cons.prems(2) by auto
  then show ?case using st1(1) so by auto
qed auto

definition loop_free :: "transaction \<Rightarrow> bool" where
  "loop_free tx \<longleftrightarrow> (\<forall>p a. (a, a) \<notin> tx_out tx p)"

text \<open>The orders given to the loops visit every element.\<close>

definition orders_ok :: "orders \<Rightarrow> bool" where
  "orders_ok ords \<longleftrightarrow>
     (\<forall>xs. set (ord_inverse ords xs) = set xs) \<and> (\<forall>p xs. set (ord_pairs ords p xs) = set xs) \<and>
     (\<forall>xs. set (ord_preds ords xs) = set xs) \<and> (\<forall>d p xs. set (ord_ents ords d p xs) = set xs)"

lemma set_pred_pairs: "pred_wf pred \<Longrightarrow> set (pair_list (Subjects pred)) = pred_pairs pred"
  by (simp add: pred_wf_def set_pair_list pred_pairs_def)

lemma graph_rel_ends:
  assumes "graph_inv g" "(a, b) \<in> graph_rel d g p"
  shows "gm_has g a" "gm_has g b"
proof -
  show "gm_has g a" using assms(2) by (auto simp: graph_rel_def gm_has_def)
  show "gm_has g b" using assms unfolding graph_inv_def by blast
qed

text \<open>What processing some inverse pairs has done so far.\<close>

definition inverse_step_ok :: "key \<Rightarrow> key \<Rightarrow> transaction \<Rightarrow> transaction \<Rightarrow> bool" where
  "inverse_step_ok p rp tx tx' \<longleftrightarrow>
     tx_inv tx' \<and> graph_agrees tx' \<and> loop_free tx' \<and> tx_frame tx tx' \<and>
     (\<forall>q. tx_out tx' q = tx_out tx q \<union> (if q = rp then (tx_out tx p)\<inverse> else {})) \<and>
     hashes tx' = hashes tx \<and> inverseRelationships tx' = inverseRelationships tx \<and>
     entityDB (tx_db tx') = entityDB (tx_db tx)"

lemma build_inverse_spec:
  assumes inv: "tx_inv tx" and agr: "graph_agrees tx" and lf: "loop_free tx" and ords: "orders_ok ords"
  shows "\<exists>tx'. build_inverse ords (p, rp) tx = Inr tx' \<and> inverse_step_ok p rp tx tx'"
proof -
  obtain pred tx1 where g1: "tx_get_predicate_by_hash tx p = (pred, tx1)" by fastforce
  note s1 = get_predicate_spec[OF inv g1]
  obtain revPred tx2 where g2: "tx_get_predicate_by_hash tx1 rp = (revPred, tx2)" by fastforce
  note s2 = get_predicate_spec[OF s1(4) g2]
  have db: "tx_db tx2 = tx_db tx" using s1(6) s2(6) by simp
  have pp: "pred_pairs pred = tx_out tx p" "pred_pairs revPred = tx_out tx rp"
    using s1(3,10) s2(3) agr by (simp_all add: graph_agrees_def)
  let ?ps = "ord_pairs ords p (pair_list (Subjects pred))"
  have ps: "set ?ps = tx_out tx p"
    using ords set_pred_pairs[OF s1(2)] pp(1) by (simp add: orders_ok_def)
  have "inverse_inv p rp revPred tx2 {} (revPred, tx2)"
    using s2 by (simp add: inverse_inv_def)
  moreover have "s \<noteq> o' \<and> gm_has (graphDB (tx_db tx2)) s \<and> gm_has (graphDB (tx_db tx2)) o'"
    if so: "(s, o') \<in> set ?ps" for s o'
  proof -
    have "graph_inv (graphDB (tx_db tx))" using inv by (simp add: tx_inv_def store_inv_def)
    then show ?thesis
      using so lf graph_rel_ends[of "graphDB (tx_db tx)" s o' FromSubject p]
      unfolding ps db loop_free_def by auto
  qed
  ultimately obtain rev1 tx3 where f: "fold_res (link_inverse p rp) ?ps (revPred, tx2) = Inr (rev1, tx3)"
    and i: "inverse_inv p rp revPred tx2 (tx_out tx p) (rev1, tx3)"
    using link_inverse_fold[of p rp revPred tx2 "{}" "(revPred, tx2)" ?ps] ps by auto
  let ?tx' = "tx3\<lparr>predbatch := gm_put rp rev1 (predbatch tx3)\<rparr>"
  have run: "build_inverse ords (p, rp) tx = Inr ?tx'"
    using f by (simp add: build_inverse_def g1 g2)
  have j: "tx_inv tx3" "pred_wf rev1" "PredPK rev1 = rp"
      "pred_pairs rev1 = tx_out tx rp \<union> (tx_out tx p)\<inverse>"
    and jo: "\<And>q. tx_out tx3 q = tx_out tx q \<union> (if q = p then tx_out tx p else {})
        \<union> (if q = rp then (tx_out tx p)\<inverse> else {})"
    and ji: "\<And>q. tx_in tx3 q = tx_in tx q \<union> (if q = p then (tx_out tx p)\<inverse> else {})
        \<union> (if q = rp then tx_out tx p else {})"
    and jh: "\<And>k. gm_has (graphDB (tx_db tx3)) k = gm_has (graphDB (tx_db tx)) k"
    and jdb: "tx_db tx3 = (tx_db tx)\<lparr>graphDB := graphDB (tx_db tx3)\<rparr>"
    and jr: "hashes tx3 = hashes tx2" "predbatch tx3 = predbatch tx2"
      "inverseRelationships tx3 = inverseRelationships tx2"
    using i unfolding inverse_inv_def prod.case db pp by blast+
  have jrest: "entityDB (tx_db tx3) = entityDB (tx_db tx)" "extendedDB (tx_db tx3) = extendedDB (tx_db tx)"
      "predDB (tx_db tx3) = predDB (tx_db tx)"
    by (subst jdb, simp)+
  have "tx_inv ?tx'"
    using j(1-3) preds_inv_put[of "predbatch tx3" rev1 rp] by (simp add: tx_inv_def)
  moreover have out: "tx_out ?tx' q = tx_out tx q \<union> (if q = rp then (tx_out tx p)\<inverse> else {})" for q
    using jo by auto
  moreover have "tx_pairs ?tx' q = tx_out tx q \<union> (if q = rp then (tx_out tx p)\<inverse> else {})" for q
  proof (cases "q = rp")
    case True
    then show ?thesis using j(4) by (simp add: tx_pairs_batch)
  next
    case False
    then have "tx_pairs ?tx' q = tx_pairs tx3 q" by (simp add: tx_pairs_batch)
    also have "\<dots> = tx_pairs tx2 q"
      by (rule tx_pairs_cong) (simp_all add: jr jrest(3) db)
    also have "\<dots> = tx_out tx q" using s1(10) s2(10) agr by (simp add: graph_agrees_def)
    finally show ?thesis using False by simp
  qed
  moreover have "tx_in ?tx' q = (tx_out ?tx' q)\<inverse>" for q
    using ji[of q] jo[of q] agr by (auto simp: graph_agrees_def)
  moreover have "loop_free ?tx'"
    using lf jo unfolding loop_free_def by (auto split: if_splits)
  moreover have "tx_frame tx ?tx'"
    using jh jrest jr(1) s1(7) s2(7) by (simp add: tx_frame_def)
  ultimately have "inverse_step_ok p rp tx ?tx'"
    using jr jrest(1) s1(7,8) s2(7,8) by (simp add: inverse_step_ok_def graph_agrees_def)
  then show ?thesis using run by blast
qed

text \<open>
  The inverse relationships are symmetric when no predicate has two different inverses. Then the order
  of the loop does not matter.
\<close>

definition symmetric_map :: "('k, 'k) gomap \<Rightarrow> bool" where
  "symmetric_map m \<longleftrightarrow> (\<forall>a b. gm_get m a = Some b \<longrightarrow> gm_get m b = Some a)"

definition inverses_bound :: "(key, key) gomap \<Rightarrow> transaction \<Rightarrow> transaction \<Rightarrow> bool" where
  "inverses_bound m tx0 tx \<longleftrightarrow>
     (\<forall>q. tx_out tx q \<subseteq> tx_out tx0 q \<union>
        (case gm_get m q of None \<Rightarrow> {} | Some r \<Rightarrow> (tx_out tx0 r)\<inverse>))"

definition inverses_inv ::
    "(key, key) gomap \<Rightarrow> transaction \<Rightarrow> (key \<times> key) set \<Rightarrow> transaction \<Rightarrow> bool" where
  "inverses_inv m tx0 handled tx \<longleftrightarrow>
     tx_inv tx \<and> graph_agrees tx \<and> loop_free tx \<and> tx_frame tx0 tx \<and>
     hashes tx = hashes tx0 \<and> inverseRelationships tx = inverseRelationships tx0 \<and>
     entityDB (tx_db tx) = entityDB (tx_db tx0) \<and>
     (\<forall>q. tx_out tx0 q \<subseteq> tx_out tx q) \<and>
     (\<forall>(p, rp) \<in> handled. (tx_out tx0 p)\<inverse> \<subseteq> tx_out tx rp) \<and>
     (symmetric_map m \<longrightarrow> inverses_bound m tx0 tx)"

lemma inverse_step_bound:
  assumes st: "inverse_step_ok p rp tx tx'" and sym: "symmetric_map m" and get: "gm_get m p = Some rp"
    and upper: "inverses_bound m tx0 tx"
  shows "inverses_bound m tx0 tx'"
proof (unfold inverses_bound_def, intro allI)
  fix q
  have gback: "gm_get m rp = Some p" using sym get unfolding symmetric_map_def by blast
  have up: "tx_out tx r \<subseteq> tx_out tx0 r \<union> (case gm_get m r of None \<Rightarrow> {} | Some r \<Rightarrow> (tx_out tx0 r)\<inverse>)" for r
    using upper unfolding inverses_bound_def by blast
  have out: "tx_out tx' q = tx_out tx q \<union> (if q = rp then (tx_out tx p)\<inverse> else {})"
    using st by (simp add: inverse_step_ok_def)
  show "tx_out tx' q \<subseteq> tx_out tx0 q \<union> (case gm_get m q of None \<Rightarrow> {} | Some r \<Rightarrow> (tx_out tx0 r)\<inverse>)"
  proof (cases "q = rp")
    case True
    have "(tx_out tx p)\<inverse> \<subseteq> (tx_out tx0 p)\<inverse> \<union> tx_out tx0 rp"
      using up[of p] get by auto
    then show ?thesis using True out up[of q] gback by auto
  next
    case False
    then show ?thesis using out up[of q] by simp
  qed
qed

lemma build_inverses_step:
  assumes i: "inverses_inv m tx0 handled tx" and get: "gm_get m p = Some rp" and ords: "orders_ok ords"
  shows "\<exists>tx'. build_inverse ords (p, rp) tx = Inr tx' \<and> inverses_inv m tx0 (insert (p, rp) handled) tx'"
proof -
  have tx: "tx_inv tx" "graph_agrees tx" "loop_free tx" "tx_frame tx0 tx" "hashes tx = hashes tx0"
      "inverseRelationships tx = inverseRelationships tx0" "entityDB (tx_db tx) = entityDB (tx_db tx0)"
    and lower: "\<And>q. tx_out tx0 q \<subseteq> tx_out tx q"
    and dn: "\<forall>(p, rp) \<in> handled. (tx_out tx0 p)\<inverse> \<subseteq> tx_out tx rp"
    and upper: "symmetric_map m \<longrightarrow> inverses_bound m tx0 tx"
    using i unfolding inverses_inv_def by blast+
  obtain tx' where run: "build_inverse ords (p, rp) tx = Inr tx'" and st: "inverse_step_ok p rp tx tx'"
    using build_inverse_spec[OF tx(1-3) ords] by blast
  have out: "tx_out tx' q = tx_out tx q \<union> (if q = rp then (tx_out tx p)\<inverse> else {})" for q
    using st by (simp add: inverse_step_ok_def)
  have "symmetric_map m \<longrightarrow> inverses_bound m tx0 tx'"
    using inverse_step_bound[OF st _ get] upper by blast
  moreover have "tx_out tx0 q \<subseteq> tx_out tx' q" for q using lower[of q] out[of q] by blast
  moreover have "\<forall>(p', rp') \<in> insert (p, rp) handled. (tx_out tx0 p')\<inverse> \<subseteq> tx_out tx' rp'"
  proof -
    have "(tx_out tx0 p)\<inverse> \<subseteq> tx_out tx' rp" using lower[of p] out[of rp] by auto
    then show ?thesis using dn out by fastforce
  qed
  ultimately have "inverses_inv m tx0 (insert (p, rp) handled) tx'"
    using st tx tx_frame_trans[OF tx(4)]
    unfolding inverses_inv_def inverse_step_ok_def by auto
  then show ?thesis using run by blast
qed

lemma build_inverses_fold:
  assumes "inverses_inv m tx0 handled tx" "orders_ok ords"
    and "\<And>p rp. (p, rp) \<in> set prs \<Longrightarrow> gm_get m p = Some rp"
  shows "\<exists>tx'. fold_res (build_inverse ords) prs tx = Inr tx' \<and> inverses_inv m tx0 (handled \<union> set prs) tx'"
  using assms(1,3)
proof (induction prs arbitrary: handled tx)
  case (Cons pr prs)
  obtain p rp where pr: "pr = (p, rp)" by (cases pr)
  obtain tx1 where t1: "build_inverse ords pr tx = Inr tx1"
    "inverses_inv m tx0 (insert (p, rp) handled) tx1"
    using build_inverses_step[OF Cons.prems(1) _ assms(2), of p rp] Cons.prems(2) pr by auto
  obtain tx' where "fold_res (build_inverse ords) prs tx1 = Inr tx'"
    "inverses_inv m tx0 (insert (p, rp) handled \<union> set prs) tx'"
    using Cons.IH[OF t1(2)] Cons.prems(2) by auto
  then show ?case using t1(1) pr by auto
qed auto

lemma build_inverses_inv:
  assumes "tx_inv tx" "graph_agrees tx" "loop_free tx" "orders_ok ords" "gm_wf (inverseRelationships tx)"
  shows "\<exists>tx'. build_inverses ords tx = Inr tx' \<and>
     inverses_inv (inverseRelationships tx) tx (set (inverseRelationships tx)) tx'"
proof -
  let ?m = "inverseRelationships tx"
  have "inverses_inv ?m tx {} tx"
    using assms(1-3) by (auto simp: inverses_inv_def inverses_bound_def)
  moreover have "set (ord_inverse ords ?m) = set ?m" using assms(4) by (simp add: orders_ok_def)
  ultimately show ?thesis
    using build_inverses_fold[OF _ assms(4), of ?m tx "{}" tx "ord_inverse ords ?m"] assms(5)
    by (auto simp: build_inverses_def)
qed

text \<open>With symmetric relationships the result is exact.\<close>

lemma inverses_inv_exact:
  assumes i: "inverses_inv m tx (set m) tx'" and sym: "symmetric_map m"
  shows "tx_out tx' q = tx_out tx q \<union> (case gm_get m q of None \<Rightarrow> {} | Some r \<Rightarrow> (tx_out tx r)\<inverse>)"
proof -
  have lower: "tx_out tx q \<subseteq> tx_out tx' q"
    and upper: "tx_out tx' q \<subseteq> tx_out tx q \<union> (case gm_get m q of None \<Rightarrow> {} | Some r \<Rightarrow> (tx_out tx r)\<inverse>)"
    and dn: "\<forall>(p, rp) \<in> set m. (tx_out tx p)\<inverse> \<subseteq> tx_out tx' rp"
    using i sym unfolding inverses_inv_def inverses_bound_def by blast+
  show ?thesis
  proof (cases "gm_get m q")
    case None
    then show ?thesis using lower upper by simp
  next
    case (Some r)
    then have "gm_get m r = Some q" using sym unfolding symmetric_map_def by blast
    then have "(r, q) \<in> set m" by (rule map_of_SomeD)
    then have "(tx_out tx r)\<inverse> \<subseteq> tx_out tx' q" using dn by auto
    then show ?thesis using Some lower upper by auto
  qed
qed

end
