(* ===== verification/TraversalSound.thy ===== *)
theory TraversalSound
  imports TraversalCorrect
begin

text \<open>
  Soundness of the traversal under weaker assumptions than TraversalCorrect: the extended index may be
  incomplete, reads of it may fail and edges may dangle. What is reached is still related to the start
  by the path. This is what holds inside a transaction, and in every database the program builds.
\<close>

definition index_sound :: "dir \<Rightarrow> view \<Rightarrow> bool" where
  "index_sound d v \<longleftrightarrow>
     (\<forall>k idx p ks. vw_ext v k = Inr idx \<longrightarrow> index_entry d idx p = Some ks \<longrightarrow>
        set ks \<subseteq> (edge_rel d v p)\<^sup>+ `` {k})"

definition view_sound :: "dir \<Rightarrow> view \<Rightarrow> bool" where
  "view_sound d v \<longleftrightarrow>
     (\<forall>k e. gm_get (vw_graph v) k = Some e \<longrightarrow> PK e = k) \<and> index_sound d v"

lemma view_sound_entity:
  "view_sound d v \<Longrightarrow> get_entity_by_hash v k = Inr e \<Longrightarrow> e \<in> loaded v \<and> PK e = k"
  by (auto simp: view_sound_def get_entity_by_hash_def loaded_def split: option.splits)

lemma visit_zero_plus_sound:
  "visit_zero_plus v ks res stack ss = (er, res', stack', ss') \<Longrightarrow> view_sound d v \<Longrightarrow>
     set res' \<subseteq> set res \<union> set ks \<and>
     set stack' \<subseteq> set stack \<union> {e \<in> loaded v. PK e \<in> set ks} \<and>
     set ss' \<subseteq> set ss \<union> {e \<in> loaded v. PK e \<in> set ks}"
proof (induction v ks res stack ss rule: visit_zero_plus.induct)
  case (2 v k ks res stack ss)
  show ?case
  proof (cases "get_entity_by_hash v k")
    case (Inl er')
    then show ?thesis using "2.prems" by auto
  next
    case (Inr e)
    then have e: "e \<in> loaded v" "PK e = k" using view_sound_entity[OF "2.prems"(2)] by auto
    have "set res' \<subseteq> set (set_add k res) \<union> set ks \<and>
      set stack' \<subseteq> set (stack @ [e]) \<union> {e \<in> loaded v. PK e \<in> set ks} \<and>
      set ss' \<subseteq> set (if PK e \<notin> set res then ss @ [e] else ss) \<union> {e \<in> loaded v. PK e \<in> set ks}"
      using "2.IH"[OF Inr] "2.prems" Inr by simp
    then show ?thesis using e by (auto split: if_splits)
  qed
qed simp

lemma visit_one_plus_sound:
  "visit_one_plus v ks res stack ss = (er, res', stack', ss') \<Longrightarrow> view_sound d v \<Longrightarrow>
     set res' \<subseteq> set res \<union> set ks \<and>
     set stack' \<subseteq> set stack \<union> {e \<in> loaded v. PK e \<in> set ks} \<and>
     set ss' \<subseteq> set ss \<union> {e \<in> loaded v. PK e \<in> set ks}"
proof (induction v ks res stack ss rule: visit_one_plus.induct)
  case (2 v k ks res stack ss)
  show ?case
  proof (cases "get_entity_by_hash v k")
    case (Inl er')
    then show ?thesis using "2.prems" by auto
  next
    case (Inr e)
    then have e: "e \<in> loaded v" "PK e = k" using view_sound_entity[OF "2.prems"(2)] by auto
    have "set res' \<subseteq> set (set_add k res) \<union> set ks \<and>
      set stack' \<subseteq> set (stack @ [e]) \<union> {e \<in> loaded v. PK e \<in> set ks} \<and>
      set ss' \<subseteq> set (ss @ [e]) \<union> {e \<in> loaded v. PK e \<in> set ks}"
      using "2.IH"[OF Inr] "2.prems" Inr e(2) by simp
    then show ?thesis using e by auto
  qed
qed simp

text \<open>What one iteration may add, for each pattern.\<close>

lemma follow_step_sound_closure:
  assumes vs: "view_sound d v" and e: "e \<in> loaded v"
    and pat: "pat = PATTERN_ZERO_PLUS \<or> pat = PATTERN_ONE_PLUS"
  shows "follow_step d v pat p e stack res ss = Inl (er, res', ss') \<Longrightarrow>
      set res' \<subseteq> set res \<union> self_keys pat (PK e) \<union> (edge_rel d v p)\<^sup>+ `` {PK e} \<and>
      set ss' \<subseteq> set ss \<union> {e' \<in> loaded v. (PK e, PK e') \<in> edge_rel d v p}"
    and "follow_step d v pat p e stack res ss = Inr (stack', res', ss') \<Longrightarrow>
      set res' \<subseteq> set res \<union> self_keys pat (PK e) \<union> (edge_rel d v p)\<^sup>+ `` {PK e} \<and>
      set stack' \<subseteq> set stack \<union> {e' \<in> loaded v. (PK e, PK e') \<in> edge_rel d v p} \<and>
      set ss' \<subseteq> set ss \<union> {e' \<in> loaded v. (PK e, PK e') \<in> edge_rel d v p}"
proof -
  have idx: "(PK e, k) \<in> (edge_rel d v p)\<^sup>+"
    if "vw_ext v (PK e) = Inr idx" "index_entry d idx p = Some ks" "k \<in> set ks" for idx ks k
    using vs that unfolding view_sound_def index_sound_def by blast
  have eds: "set ks = edge_rel d v p `` {PK e}" if "gm_get (dir_edges d e) (key_string p) = Some ks" for ks
    using that loaded_edges[OF e, of d p] by (simp add: edges_def edge_list_def)
  have L: "{e' \<in> loaded v. PK e' \<in> set ks} = {e' \<in> loaded v. (PK e, PK e') \<in> edge_rel d v p}"
    if "gm_get (dir_edges d e) (key_string p) = Some ks" for ks
    using eds[OF that] by auto
  show "follow_step d v pat p e stack res ss = Inl (er, res', ss') \<Longrightarrow>
      set res' \<subseteq> set res \<union> self_keys pat (PK e) \<union> (edge_rel d v p)\<^sup>+ `` {PK e} \<and>
      set ss' \<subseteq> set ss \<union> {e' \<in> loaded v. (PK e, PK e') \<in> edge_rel d v p}"
    using pat
    by (elim disjE)
       (auto simp: follow_step_def self_keys_def Let_def eds L
         split: sum.splits option.splits prod.splits
         dest!: visit_zero_plus_sound[OF _ vs] visit_one_plus_sound[OF _ vs] intro: idx)
  show "follow_step d v pat p e stack res ss = Inr (stack', res', ss') \<Longrightarrow>
      set res' \<subseteq> set res \<union> self_keys pat (PK e) \<union> (edge_rel d v p)\<^sup>+ `` {PK e} \<and>
      set stack' \<subseteq> set stack \<union> {e' \<in> loaded v. (PK e, PK e') \<in> edge_rel d v p} \<and>
      set ss' \<subseteq> set ss \<union> {e' \<in> loaded v. (PK e, PK e') \<in> edge_rel d v p}"
    using pat
    by (elim disjE)
       (auto simp: follow_step_def self_keys_def Let_def eds L
         split: sum.splits option.splits prod.splits
         dest!: visit_zero_plus_sound[OF _ vs] visit_one_plus_sound[OF _ vs] intro: idx)
qed

definition sound_inv where
  "sound_inv d v pat p e0 res0 ss0 stack res ss \<longleftrightarrow>
     set res \<subseteq> set res0 \<union> self_keys pat (PK e0) \<union> (edge_rel d v p)\<^sup>+ `` {PK e0} \<and>
     set stack \<subseteq> {e \<in> loaded v. (PK e0, PK e) \<in> (edge_rel d v p)\<^sup>*} \<and>
     set ss \<subseteq> set ss0 \<union> {e \<in> loaded v. (PK e0, PK e) \<in> (edge_rel d v p)\<^sup>+}"

lemma self_keys_star:
  "(a, b) \<in> E\<^sup>* \<Longrightarrow> self_keys pat b \<subseteq> self_keys pat a \<union> E\<^sup>+ `` {a}"
  by (auto simp: self_keys_def dest: rtranclD)

lemma closure_search_sound:
  assumes vs: "view_sound d v" and e0: "e0 \<in> loaded v"
    and pat: "pat = PATTERN_ZERO_PLUS \<or> pat = PATTERN_ONE_PLUS"
    and run: "follow_loop d v pat p [e0] [] res0 ss0 = (er, res', ss')"
  shows "set res' \<subseteq> set res0 \<union> self_keys pat (PK e0) \<union> (edge_rel d v p)\<^sup>+ `` {PK e0} \<and>
     set ss' \<subseteq> set ss0 \<union> {e \<in> loaded v. (PK e0, PK e) \<in> (edge_rel d v p)\<^sup>+}"
proof -
  let ?E = "edge_rel d v p"
  let ?I = "\<lambda>stack trav res ss. sound_inv d v pat p e0 res0 ss0 stack res ss"
  let ?Q = "\<lambda>(er :: err option, res, ss). sound_inv d v pat p e0 res0 ss0 [] res ss"
  have "?Q (follow_loop d v pat p [e0] [] res0 ss0)"
  proof (rule follow_loop_rule[where I = ?I])
    fix e stack trav res ss stack' res' ss'
    assume i: "?I (e # stack) trav res ss"
      and step: "follow_step d v pat p e stack res ss = Inr (stack', res', ss')"
    then have e: "e \<in> loaded v" "(PK e0, PK e) \<in> ?E\<^sup>*" by (simp_all add: sound_inv_def)
    have plus: "?E\<^sup>+ `` {PK e} \<subseteq> ?E\<^sup>+ `` {PK e0}" "?E `` {PK e} \<subseteq> ?E\<^sup>+ `` {PK e0}"
      using e(2) by (auto intro: rtrancl_trancl_trancl rtrancl_into_trancl1)
    note s = follow_step_sound_closure(2)[OF vs e(1) pat step]
    have "set res' \<subseteq> set res0 \<union> self_keys pat (PK e0) \<union> ?E\<^sup>+ `` {PK e0}"
      using s i plus(1) self_keys_star[OF e(2), of pat] unfolding sound_inv_def by blast
    moreover have "set stack' \<subseteq> {e \<in> loaded v. (PK e0, PK e) \<in> ?E\<^sup>*}"
      using s i e(2) unfolding sound_inv_def by (auto intro: rtrancl_into_rtrancl)
    moreover have "set ss' \<subseteq> set ss0 \<union> {e \<in> loaded v. (PK e0, PK e) \<in> ?E\<^sup>+}"
      using s i plus(2) unfolding sound_inv_def by blast
    ultimately show "?I stack' (set_add (PK e) trav) res' ss'" unfolding sound_inv_def by blast
  next
    fix e stack trav res ss r
    assume i: "?I (e # stack) trav res ss" and step: "follow_step d v pat p e stack res ss = Inl r"
    then have e: "e \<in> loaded v" "(PK e0, PK e) \<in> ?E\<^sup>*" by (simp_all add: sound_inv_def)
    obtain er res' ss' where r: "r = (er, res', ss')" by (cases r)
    have plus: "?E\<^sup>+ `` {PK e} \<subseteq> ?E\<^sup>+ `` {PK e0}" "?E `` {PK e} \<subseteq> ?E\<^sup>+ `` {PK e0}"
      using e(2) by (auto intro: rtrancl_trancl_trancl rtrancl_into_trancl1)
    show "?Q r"
      using follow_step_sound_closure(1)[OF vs e(1) pat, of p stack res ss er res' ss'] step i plus
        self_keys_star[OF e(2), of pat]
      unfolding r sound_inv_def by (simp add: Image_singleton_iff) blast
  qed (use e0 in \<open>auto simp: sound_inv_def\<close>)
  then show ?thesis using run by (simp add: sound_inv_def)
qed

lemma pattern_closure_rel:
  "pat = PATTERN_ZERO_PLUS \<or> pat = PATTERN_ONE_PLUS \<Longrightarrow>
     pattern_rel pat E `` {k} = self_keys pat k \<union> E\<^sup>+ `` {k}"
  by (auto simp: self_keys_def rtrancl_eq_or_trancl)

lemma follow_path_sound:
  assumes vs: "view_sound d v" and e: "e \<in> loaded v"
    and run: "follow_path d v e res ss seg = (er, res', ss')"
  shows "set res' \<subseteq> set res \<union> segment_rel d v seg `` {PK e}"
    and "set ss' \<subseteq> set ss \<union> {e' \<in> loaded v. (PathMod seg = PATTERN_ZERO_PLUS \<or> PathMod seg = PATTERN_ONE_PLUS)
            \<and> (\<exists>p. vw_hash v (PathPredicate seg) = Inr p \<and> (PK e, PK e') \<in> (edge_rel d v p)\<^sup>+)}"
proof -
  have "set res' \<subseteq> set res \<union> segment_rel d v seg `` {PK e} \<and>
    set ss' \<subseteq> set ss \<union> {e' \<in> loaded v. (PathMod seg = PATTERN_ZERO_PLUS \<or> PathMod seg = PATTERN_ONE_PLUS)
            \<and> (\<exists>p. vw_hash v (PathPredicate seg) = Inr p \<and> (PK e, PK e') \<in> (edge_rel d v p)\<^sup>+)}"
  proof (cases "PathMod seg = PATTERN_ZERO_PLUS \<or> PathMod seg = PATTERN_ONE_PLUS")
    case True
    show ?thesis
    proof (cases "vw_hash v (PathPredicate seg)")
      case (Inl er')
      then show ?thesis using run by (simp add: follow_path_def)
    next
      case (Inr p)
      then have "follow_loop d v (PathMod seg) p [e] [] res ss = (er, res', ss')"
        using run by (simp add: follow_path_def)
      from closure_search_sound[OF vs e True this] show ?thesis
        using pattern_closure_rel[OF True, of "edge_rel d v p" "PK e"] Inr True
        by (auto simp: segment_rel_def)
    qed
  next
    case False
    then show ?thesis using follow_path_flat[OF e, of seg d res ss] run by auto
  qed
  then show "set res' \<subseteq> set res \<union> segment_rel d v seg `` {PK e}"
    and "set ss' \<subseteq> set ss \<union> {e' \<in> loaded v. (PathMod seg = PATTERN_ZERO_PLUS \<or> PathMod seg = PATTERN_ONE_PLUS)
            \<and> (\<exists>p. vw_hash v (PathPredicate seg) = Inr p \<and> (PK e, PK e') \<in> (edge_rel d v p)\<^sup>+)}"
    by blast+
qed

section \<open>Segments and paths\<close>

lemma segment_rel_plus:
  assumes "PathMod seg = PATTERN_ZERO_PLUS \<or> PathMod seg = PATTERN_ONE_PLUS"
    and "vw_hash v (PathPredicate seg) = Inr p" "(a, b) \<in> (edge_rel d v p)\<^sup>+"
  shows "segment_rel d v seg `` {b} \<subseteq> segment_rel d v seg `` {a}"
  using assms by (auto simp: segment_rel_def intro: trancl_trans trancl_rtrancl_trancl trancl_into_rtrancl)

lemma segment_sound:
  assumes vs: "view_sound d v" and st: "set stack \<subseteq> loaded v"
  shows "set (segment_loop d v seg stack [] []) \<subseteq> segment_rel d v seg `` (PK ` set stack)"
proof -
  let ?R = "segment_rel d v seg" and ?S0 = "PK ` set stack"
  let ?I = "\<lambda>stack' (trav :: key list) reach. set stack' \<subseteq> loaded v \<and> set reach \<subseteq> ?R `` ?S0 \<and>
      (\<forall>e \<in> set stack'. ?R `` {PK e} \<subseteq> ?R `` ?S0)"
  have "\<exists>trav'. ?I [] trav' (segment_loop d v seg stack [] [])"
  proof (rule segment_loop_rule[where I = ?I])
    fix e st trav reach er reach' st'
    assume i: "?I (e # st) trav reach" and fp: "follow_path d v e reach st seg = (er, reach', st')"
    then have e: "e \<in> loaded v" "?R `` {PK e} \<subseteq> ?R `` ?S0" by simp_all
    note s = follow_path_sound[OF vs e(1) fp]
    have "?R `` {PK e'} \<subseteq> ?R `` ?S0" if "e' \<in> set st'" for e'
    proof -
      consider "e' \<in> set st" | p where "PathMod seg = PATTERN_ZERO_PLUS \<or> PathMod seg = PATTERN_ONE_PLUS"
        "vw_hash v (PathPredicate seg) = Inr p" "(PK e, PK e') \<in> (edge_rel d v p)\<^sup>+"
        using s(2) \<open>e' \<in> set st'\<close> by blast
      then show ?thesis
      proof cases
        case 1
        then show ?thesis using i by simp
      next
        case 2
        then show ?thesis using segment_rel_plus[OF 2] e(2) by blast
      qed
    qed
    moreover have "set st' \<subseteq> loaded v" using s(2) i by auto
    moreover have "set reach' \<subseteq> ?R `` ?S0" using s(1) i e(2) by blast
    ultimately show "?I st' (set_add (PK e) trav) reach'" by blast
  qed (use st in auto)
  then show ?thesis by blast
qed

lemma load_entities_sound:
  assumes "view_sound d v"
  shows "set (load_entities v ks) \<subseteq> loaded v \<and> PK ` set (load_entities v ks) \<subseteq> set ks"
proof (induction ks)
  case (Cons k ks)
  have "load_entities v (k # ks) =
      (case get_entity_by_hash v k of Inl _ \<Rightarrow> [] | Inr e \<Rightarrow> [e]) @ load_entities v ks"
    by (simp add: load_entities_def)
  then show ?case
    using Cons.IH view_sound_entity[OF assms, of k] by (auto split: sum.splits)
qed (simp add: load_entities_def)

lemma path_sound:
  assumes vs: "view_sound d v" and ord: "\<And>ks. set (ord ks) \<subseteq> set ks" and st: "set stack \<subseteq> loaded v"
  shows "set (path_loop d v ord path stack) \<subseteq> path_rel d v path `` (PK ` set stack)"
  using st
proof (induction path arbitrary: stack)
  case (Cons seg path)
  note prems = Cons.prems and IH = Cons.IH
  let ?X = "segment_loop d v seg stack [] []"
  have X: "set ?X \<subseteq> segment_rel d v seg `` (PK ` set stack)"
    using segment_sound[OF vs prems] .
  show ?case
  proof (cases path)
    case Nil
    then show ?thesis using X by simp
  next
    case (Cons seg2 rest)
    let ?L = "load_entities v (ord ?X)"
    have L: "set ?L \<subseteq> loaded v" "PK ` set ?L \<subseteq> set ?X"
      using load_entities_sound[OF vs, of "ord ?X"] ord[of ?X] by blast+
    have "set (path_loop d v ord path ?L) \<subseteq> path_rel d v path `` (PK ` set ?L)"
      by (rule IH[OF L(1)])
    also have "\<dots> \<subseteq> path_rel d v path `` (segment_rel d v seg `` (PK ` set stack))"
      using L(2) X by (intro Image_mono subset_refl) blast
    finally show ?thesis using Cons by (simp add: relcomp_Image)
  qed
qed simp

end
