(* ===== verification/RollupSound.thy ===== *)
theory RollupSound
  imports TransactionCorrect TraversalSound
begin

text \<open>
  Rolling up a predicate records only reachable entities in the extended index, whatever order the
  maps are iterated in, whichever keys \<open>Max\<close> and \<open>DeleteMax\<close> pick, and wherever an error cuts the
  roll-up short. So the traversal of a database the program has built never returns a wrong key.
\<close>

section \<open>The extended index\<close>

definition ext_inv :: "store \<Rightarrow> bool" where
  "ext_inv st \<longleftrightarrow> (\<forall>k x. gm_get (extendedDB st) k = Some x \<longrightarrow> ExtPK x = k)"

definition plus_ok :: "(key, entity) gomap \<Rightarrow> extended_index \<Rightarrow> bool" where
  "plus_ok g x \<longleftrightarrow>
     (\<forall>d p. edges (dir_plus d x) p \<subseteq> (graph_rel d g p)\<^sup>+ `` {ExtPK x})"

definition ext_sound :: "store \<Rightarrow> bool" where
  "ext_sound st \<longleftrightarrow> ext_inv st \<and>
     (\<forall>k x. gm_get (extendedDB st) k = Some x \<longrightarrow> plus_ok (graphDB st) x)"

lemma ext_sound_get:
  "ext_sound st \<Longrightarrow> gm_get (extendedDB st) k = Some x \<Longrightarrow> ExtPK x = k \<and> plus_ok (graphDB st) x"
  by (simp add: ext_sound_def ext_inv_def)

lemma plus_ok_mono:
  "(\<And>d p. graph_rel d g p \<subseteq> graph_rel d g' p) \<Longrightarrow> plus_ok g x \<Longrightarrow> plus_ok g' x"
  unfolding plus_ok_def by (meson Image_mono order_refl order_trans trancl_mono subsetI)

lemma plus_ok_new [simp]: "plus_ok g (new_extended_index\<lparr>ExtPK := k\<rparr>)"
proof -
  have "dir_plus d (new_extended_index\<lparr>ExtPK := k\<rparr>) = []" for d
    by (cases d) (simp_all add: new_extended_index_def)
  then show ?thesis by (simp add: plus_ok_def)
qed

lemma ExtPK_add_plus [simp]: "ExtPK (add_plus d p k x) = ExtPK x"
  by (cases d) (simp_all add: store_simps)

lemma edges_add_plus:
  "edges (dir_plus d' (add_plus d p k x)) q =
     (if d' = d \<and> q = p then insert k (edges (dir_plus d x) p) else edges (dir_plus d' x) q)"
  by (cases d; cases d') (auto simp: store_simps edges_add_edge)

lemma plus_ok_add:
  "plus_ok g x \<Longrightarrow> (ExtPK x, k) \<in> (graph_rel d g p)\<^sup>+ \<Longrightarrow> plus_ok g (add_plus d p k x)"
  unfolding plus_ok_def edges_add_plus by auto

section \<open>What a roll-up keeps\<close>

definition rollup_frame :: "transaction \<Rightarrow> transaction \<Rightarrow> bool" where
  "rollup_frame tx tx' \<longleftrightarrow>
     graphDB (tx_db tx') = graphDB (tx_db tx) \<and> entityDB (tx_db tx') = entityDB (tx_db tx) \<and>
     pkDB (tx_db tx') = pkDB (tx_db tx) \<and> predDB (tx_db tx') = predDB (tx_db tx) \<and>
     hashes tx' = hashes tx \<and> inverseRelationships tx' = inverseRelationships tx \<and>
     (tx_inv tx \<longrightarrow> tx_inv tx' \<and> (\<forall>q. tx_pairs tx' q = tx_pairs tx q))"

lemma rollup_frame_refl [simp]: "rollup_frame tx tx"
  by (simp add: rollup_frame_def)

lemma rollup_frame_trans: "rollup_frame a b \<Longrightarrow> rollup_frame b c \<Longrightarrow> rollup_frame a c"
  by (simp add: rollup_frame_def)

text \<open>The graph a roll-up works on: the two directions are converse to each other.\<close>

definition rollup_pre :: "transaction \<Rightarrow> bool" where
  "rollup_pre tx \<longleftrightarrow> ext_sound (tx_db tx) \<and>
     (\<forall>k e. gm_get (graphDB (tx_db tx)) k = Some e \<longrightarrow> PK e = k) \<and>
     (\<forall>p. tx_in tx p = (tx_out tx p)\<inverse>)"

lemma converse_plus:
  "rollup_pre tx \<Longrightarrow> (a, b) \<in> (graph_rel d (graphDB (tx_db tx)) p)\<^sup>+ \<Longrightarrow>
     (b, a) \<in> (graph_rel (other_dir d) (graphDB (tx_db tx)) p)\<^sup>+"
  by (cases d) (auto simp: rollup_pre_def trancl_converse)

lemma save_index_pre:
  assumes "rollup_pre tx" "plus_ok (graphDB (tx_db tx)) x"
  shows "rollup_pre (save_extended_index x tx) \<and> rollup_frame tx (save_extended_index x tx)"
proof -
  let ?tx = "save_extended_index x tx"
  have "tx_inv tx \<longrightarrow> tx_inv ?tx"
    by (simp add: tx_inv_def store_inv_def save_extended_index_def dict_inv_def)
  moreover have "tx_pairs ?tx q = tx_pairs tx q" for q
    by (rule tx_pairs_cong) (simp_all add: save_extended_index_def)
  ultimately show ?thesis
    using assms
    by (auto simp: rollup_pre_def rollup_frame_def save_extended_index_def ext_sound_def ext_inv_def)
qed

lemma ensure_index_pre:
  "rollup_pre tx \<Longrightarrow> rollup_pre (ensure_index k tx) \<and> rollup_frame tx (ensure_index k tx)"
  by (simp add: ensure_index_def save_index_pre)

lemma drain_results_sound:
  assumes "rollup_pre tx" "plus_ok (graphDB (tx_db tx)) idx" "ExtPK idx = e"
    and "set results \<subseteq> (graph_rel d (graphDB (tx_db tx)) p)\<^sup>+ `` {e}"
  shows "case drain_results ords d p e results idx tx of
       Inl (idx', tx') \<Rightarrow> rollup_pre tx' \<and> rollup_frame tx tx' \<and> plus_ok (graphDB (tx_db tx)) idx' \<and> ExtPK idx' = e
     | Inr tx' \<Rightarrow> rollup_pre tx' \<and> rollup_frame tx tx'"
  using assms
proof (induction ords d p e results idx tx rule: drain_results.induct)
  case (1 ords d p e results idx tx)
  show ?case
  proof (cases "results = []")
    case True
    then show ?thesis using "1.prems" by (simp add: drain_results.simps)
  next
    case False
    let ?mx = "chosen (pick_max ords d p e results) results"
    let ?dl = "chosen (pick_del ords d p e results) results"
    have ch: "?mx \<in> set results" "?dl \<in> set results" using False by (auto simp: chosen_def)
    show ?thesis
    proof (cases "tx_get_extended_index_by_hash tx ?mx")
      case (Inl er)
      then show ?thesis using False "1.prems" by (simp add: drain_results.simps Let_def)
    next
      case (Inr x)
      let ?g = "graphDB (tx_db tx)"
      let ?x = "add_plus (other_dir d) p e x" and ?idx = "add_plus d p ?dl idx"
      let ?tx1 = "save_extended_index ?x tx"
      have "gm_get (extendedDB (tx_db tx)) ?mx = Some x"
        using Inr by (simp add: tx_get_extended_index_by_hash_def split: option.splits)
      then have x: "ExtPK x = ?mx" "plus_ok ?g x"
        using "1.prems"(1) by (auto simp: rollup_pre_def dest: ext_sound_get)
      have "(e, ?mx) \<in> (graph_rel d ?g p)\<^sup>+" using ch(1) "1.prems"(4) by blast
      then have "plus_ok ?g ?x"
        using x converse_plus[OF "1.prems"(1)] by (intro plus_ok_add) auto
      then have s: "rollup_pre ?tx1" "rollup_frame tx ?tx1"
        using save_index_pre[OF "1.prems"(1)] by blast+
      have g1: "graphDB (tx_db ?tx1) = ?g" using s(2) by (simp add: rollup_frame_def)
      have "(e, ?dl) \<in> (graph_rel d ?g p)\<^sup>+" using ch(2) "1.prems"(4) by blast
      then have i: "plus_ok ?g ?idx" "ExtPK ?idx = e"
        using plus_ok_add[OF "1.prems"(2), of ?dl d p] "1.prems"(3) by simp_all
      have r: "set (remove1 ?dl results) \<subseteq> (graph_rel d ?g p)\<^sup>+ `` {e}"
        by (rule order_trans[OF set_remove1_subset "1.prems"(4)])
      have "drain_results ords d p e results idx tx =
          drain_results ords d p e (remove1 ?dl results) ?idx ?tx1"
        using False Inr by (subst drain_results.simps) (simp add: Let_def)
      moreover note "1.IH"[OF False refl refl Inr s(1), unfolded g1, OF i r]
      ultimately show ?thesis
        using rollup_frame_trans[OF s(2)]
        by (cases "drain_results ords d p e (remove1 ?dl results) ?idx ?tx1") (simp_all add: case_prod_beta)
    qed
  qed
qed

section \<open>Names\<close>

text \<open>
  The name stored for a key parses back to a URI that has the same key. URIs that survive being
  written and parsed have such names.
\<close>

definition name_ok :: "transaction \<Rightarrow> key \<Rightarrow> bool" where
  "name_ok tx p \<longleftrightarrow> (\<forall>u k. tx_get_uri tx p = Inr u \<longrightarrow> tx_get_hash tx u = Inr k \<longrightarrow> k = p)"

lemma name_ok_frame: "rollup_frame tx tx' \<Longrightarrow> name_ok tx' p = name_ok tx p"
  by (simp add: name_ok_def tx_get_uri_def tx_get_hash_def rollup_frame_def)

lemma get_uri_frame: "rollup_frame tx tx' \<Longrightarrow> tx_get_uri tx' p = tx_get_uri tx p"
  by (simp add: tx_get_uri_def rollup_frame_def)

lemma transaction_view_sound:
  assumes "rollup_pre tx"
  shows "view_sound d (transaction_view tx)"
proof -
  have "index_sound d (transaction_view tx)"
    unfolding index_sound_def edge_rel_graph
  proof (intro allI impI)
    fix k idx p ks
    assume "vw_ext (transaction_view tx) k = Inr idx" and e: "index_entry d idx p = Some ks"
    then obtain x where x: "gm_get (extendedDB (tx_db tx)) k = Some x" "idx = Some x"
      by (auto simp: transaction_view_def tx_get_extended_index_by_hash_def split: option.splits)
    have "set ks = edges (dir_plus d x) p"
      using e x(2) by (simp add: index_entry_def edges_def edge_list_def)
    then show "set ks \<subseteq> (graph_rel d (vw_graph (transaction_view tx)) p)\<^sup>+ `` {k}"
      using assms ext_sound_get[OF _ x(1)]
      by (auto simp: rollup_pre_def transaction_view_def plus_ok_def)
  qed
  then show ?thesis
    using assms by (simp add: view_sound_def rollup_pre_def transaction_view_def)
qed

section \<open>Roll-up\<close>

lemma rollup_entity_sound:
  assumes pre: "rollup_pre tx" and name: "name_ok tx p" and u: "tx_get_uri tx p = Inr u"
  shows "case rollup_entity ords d p (rollup_path u) e tx of
       Inl tx' \<Rightarrow> rollup_pre tx' \<and> rollup_frame tx tx' | Inr tx' \<Rightarrow> rollup_pre tx' \<and> rollup_frame tx tx'"
proof -
  let ?tx1 = "ensure_index e tx"
  have p1: "rollup_pre ?tx1" "rollup_frame tx ?tx1" using ensure_index_pre[OF pre] by blast+
  show ?thesis
  proof (cases "tx_get_extended_index_by_hash ?tx1 e")
    case (Inl er)
    then show ?thesis using p1 by (simp add: rollup_entity_def Let_def)
  next
    case idx: (Inr idx)
    show ?thesis
    proof (cases "tx_get_entity_by_hash ?tx1 e")
      case (Inl er)
      then show ?thesis using p1 idx by (simp add: rollup_entity_def Let_def)
    next
      case ent: (Inr ent)
      let ?v = "transaction_view ?tx1"
      obtain er results ss where fp: "follow_path d ?v ent [] [] (rollup_path u) = (er, results, ss)"
        by (cases "follow_path d ?v ent [] [] (rollup_path u)")
      have g: "gm_get (graphDB (tx_db ?tx1)) e = Some ent"
        using ent by (simp add: tx_get_entity_by_hash_def split: option.splits)
      then have pk: "PK ent = e" using p1(1) by (simp add: rollup_pre_def)
      then have "ent \<in> loaded ?v" using g by (simp add: loaded_def transaction_view_def)
      then have "set results \<subseteq> segment_rel d ?v (rollup_path u) `` {PK ent}"
        using follow_path_sound(1)[OF transaction_view_sound[OF p1(1)] _ fp] by simp
      moreover have "segment_rel d ?v (rollup_path u) \<subseteq> (graph_rel d (graphDB (tx_db ?tx1)) p)\<^sup>+"
      proof (cases "vw_hash ?v u")
        case (Inr k)
        have "name_ok ?tx1 p" using name name_ok_frame[OF p1(2)] by simp
        moreover have "tx_get_uri ?tx1 p = Inr u"
          using u get_uri_frame[OF p1(2)] by simp
        ultimately have "k = p" using Inr unfolding name_ok_def by (simp add: transaction_view_def)
        then show ?thesis using Inr
          by (simp add: segment_rel_def rollup_path_def edge_rel_graph) (simp add: transaction_view_def)
      qed (simp add: segment_rel_def rollup_path_def)
      ultimately have r: "set results \<subseteq> (graph_rel d (graphDB (tx_db ?tx1)) p)\<^sup>+ `` {e}"
        using pk by blast
      have "gm_get (extendedDB (tx_db ?tx1)) e = Some idx"
        using idx by (simp add: tx_get_extended_index_by_hash_def split: option.splits)
      then have i: "ExtPK idx = e" "plus_ok (graphDB (tx_db ?tx1)) idx"
        using p1(1) by (auto simp: rollup_pre_def dest: ext_sound_get)
      note dr = drain_results_sound[OF p1(1) i(2,1) r, of ords]
      show ?thesis
      proof (cases "drain_results ords d p e results idx ?tx1")
        case (Inr tx2)
        then show ?thesis using dr rollup_frame_trans[OF p1(2)] idx ent fp
          by (simp add: rollup_entity_def Let_def)
      next
        case (Inl it)
        obtain idx2 tx2 where it: "it = (idx2, tx2)" by (cases it)
        have d2: "rollup_pre tx2" "rollup_frame ?tx1 tx2" "plus_ok (graphDB (tx_db ?tx1)) idx2"
          using dr Inl it by simp_all
        then have "plus_ok (graphDB (tx_db tx2)) idx2" by (simp add: rollup_frame_def)
        from save_index_pre[OF d2(1) this]
        have "rollup_pre (save_extended_index idx2 tx2)"
          "rollup_frame tx (save_extended_index idx2 tx2)"
          using rollup_frame_trans[OF p1(2)] rollup_frame_trans[OF d2(2)] by blast+
        then show ?thesis using Inl it idx ent fp by (simp add: rollup_entity_def Let_def)
      qed
    qed
  qed
qed

lemma rollup_all_sound:
  assumes "rollup_pre tx" "name_ok tx p" "tx_get_uri tx p = Inr u"
  shows "case rollup_all ords d p (rollup_path u) es tx of
       Inl tx' \<Rightarrow> rollup_pre tx' \<and> rollup_frame tx tx' | Inr tx' \<Rightarrow> rollup_pre tx' \<and> rollup_frame tx tx'"
  using assms
proof (induction es arbitrary: tx)
  case (Cons e es)
  note s = rollup_entity_sound[OF Cons.prems, of ords d e]
  show ?case
  proof (cases "rollup_entity ords d p (rollup_path u) e tx")
    case (Inr tx1)
    then show ?thesis using s by simp
  next
    case (Inl tx1)
    then have t1: "rollup_pre tx1" "rollup_frame tx tx1" using s by simp_all
    have "name_ok tx1 p" "tx_get_uri tx1 p = Inr u"
      using Cons.prems(2,3) name_ok_frame[OF t1(2)] get_uri_frame[OF t1(2)] by simp_all
    from Cons.IH[OF t1(1) this] show ?thesis
      using Inl rollup_frame_trans[OF t1(2)] by (auto split: sum.splits)
  qed
qed simp

lemma get_predicate_frame:
  assumes "tx_get_predicate_by_hash tx p = (pred, tx1)"
  shows "tx_db tx1 = tx_db tx \<and> rollup_frame tx tx1"
proof -
  have "tx_db tx1 = tx_db tx" "hashes tx1 = hashes tx"
    "inverseRelationships tx1 = inverseRelationships tx"
    using assms by (auto simp: tx_get_predicate_by_hash_def Let_def split: option.splits)
  moreover have "tx_inv tx \<longrightarrow> tx_inv tx1 \<and> (\<forall>q. tx_pairs tx1 q = tx_pairs tx q)"
    using get_predicate_spec(4,10)[OF _ assms] by blast
  ultimately show ?thesis by (simp add: rollup_frame_def)
qed

lemma rollup_predicate_sound:
  assumes pre: "rollup_pre tx" and name: "name_ok tx p"
  shows "rollup_pre (rollup_predicate ords p tx) \<and> rollup_frame tx (rollup_predicate ords p tx)"
proof (cases "tx_get_uri tx p")
  case (Inl er)
  then show ?thesis using pre by (simp add: rollup_predicate_def)
next
  case (Inr u)
  obtain pred tx1 where g: "tx_get_predicate_by_hash tx p = (pred, tx1)" by fastforce
  have f1: "tx_db tx1 = tx_db tx" "rollup_frame tx tx1" using get_predicate_frame[OF g] by simp_all
  have p1: "rollup_pre tx1" using pre f1(1) by (simp add: rollup_pre_def)
  have n1: "name_ok tx1 p" "tx_get_uri tx1 p = Inr u"
    using name Inr name_ok_frame[OF f1(2)] get_uri_frame[OF f1(2)] by simp_all
  let ?s = "ord_ents ords FromSubject p (pair_keys (Subjects pred))"
  let ?o = "ord_ents ords FromObject p (pair_keys (Objects pred))"
  note a1 = rollup_all_sound[OF p1 n1, of ords FromSubject ?s]
  show ?thesis
  proof (cases "rollup_all ords FromSubject p (rollup_path u) ?s tx1")
    case r1: (Inr tx2)
    then show ?thesis using a1 Inr g rollup_frame_trans[OF f1(2)] by (simp add: rollup_predicate_def Let_def)
  next
    case r1: (Inl tx2)
    then have p2: "rollup_pre tx2" "rollup_frame tx1 tx2" using a1 by simp_all
    have n2: "name_ok tx2 p" "tx_get_uri tx2 p = Inr u"
      using n1 name_ok_frame[OF p2(2)] get_uri_frame[OF p2(2)] by simp_all
    note a2 = rollup_all_sound[OF p2(1) n2, of ords FromObject ?o]
    show ?thesis
      using a2 r1 Inr g rollup_frame_trans[OF f1(2)] rollup_frame_trans[OF p2(2)]
      by (cases "rollup_all ords FromObject p (rollup_path u) ?o tx2")
         (simp_all add: rollup_predicate_def Let_def)
  qed
qed

lemma rollup_new_sound:
  assumes "rollup_pre tx" "\<And>q. name_ok tx q"
  shows "rollup_pre (rollup_new ords p tx) \<and> rollup_frame tx (rollup_new ords p tx)"
proof -
  let ?tx1 = "rollup_predicate ords p tx"
  have s1: "rollup_pre ?tx1" "rollup_frame tx ?tx1"
    using rollup_predicate_sound[OF assms(1,2)] by blast+
  have n1: "name_ok ?tx1 q" for q using assms(2) name_ok_frame[OF s1(2)] by simp
  show ?thesis
  proof (cases "gm_get (inverseRelationships ?tx1) p")
    case None
    then show ?thesis using s1 by (simp add: rollup_new_def Let_def)
  next
    case (Some q)
    then show ?thesis
      using rollup_predicate_sound[OF s1(1) n1, where ords = ords] rollup_frame_trans[OF s1(2)]
      by (simp add: rollup_new_def Let_def)
  qed
qed

lemma rollup_fold_sound:
  assumes "rollup_pre tx" "\<And>q. name_ok tx q"
  shows "rollup_pre (fold (rollup_new ords) ps tx) \<and> rollup_frame tx (fold (rollup_new ords) ps tx)"
  using assms
proof (induction ps arbitrary: tx)
  case (Cons p ps)
  let ?tx1 = "rollup_new ords p tx"
  have s: "rollup_pre ?tx1" "rollup_frame tx ?tx1"
    using rollup_new_sound[OF Cons.prems] by blast+
  have "name_ok ?tx1 q" for q using Cons.prems(2) name_ok_frame[OF s(2)] by simp
  then show ?case using Cons.IH[OF s(1)] rollup_frame_trans[OF s(2)] by simp
qed simp

end
