(* ===== verification/Database.thy ===== *)
theory Database
  imports RollupSound
begin

text \<open>
  The database between transactions: loading a data set keeps the invariant of the five databases,
  stores exactly its triples and their inverses, and every snapshot answers path queries soundly.
\<close>

section \<open>The invariant of the databases\<close>

definition database_inv :: "store \<Rightarrow> bool" where
  "database_inv st \<longleftrightarrow> store_inv st \<and> graph_agrees (open_transaction st) \<and>
     loop_free (open_transaction st) \<and> ext_sound st"

text \<open>Every stored name is what its parsed URI is stored under.\<close>

definition stable_name :: "bytes \<Rightarrow> bool" where
  "stable_name b \<longleftrightarrow> b \<noteq> [] \<and> uri_bytes (parse_uri b) = b"

definition names_stable :: "store \<Rightarrow> bool" where
  "names_stable st \<longleftrightarrow> (\<forall>b k. gm_get (entityDB st) b = Some k \<longrightarrow> stable_name b)"

lemma empty_database_inv [simp]: "database_inv empty_store" "names_stable empty_store"
proof -
  have g: "graph_rel d [] p = {}" for d p by (simp add: graph_rel_def)
  show "database_inv empty_store"
    using empty_store_inv
    by (simp add: database_inv_def graph_agrees_def loop_free_def open_transaction_def empty_store_def
        tx_pairs_def tx_get_predicate_by_hash_def ext_sound_def ext_inv_def g Let_def)
  show "names_stable empty_store" by (simp add: names_stable_def empty_store_def)
qed

lemma names_stable_ok:
  assumes "dict_inv (tx_db tx)" "names_stable (tx_db tx)"
  shows "name_ok tx p"
proof (unfold name_ok_def, intro allI impI)
  fix u k
  assume u: "tx_get_uri tx p = Inr u" and k: "tx_get_hash tx u = Inr k"
  from k have ek: "gm_get (entityDB (tx_db tx)) (uri_bytes u) = Some k"
    by (simp add: tx_get_hash_def split: option.splits)
  show "k = p"
  proof (cases "p = empty_key")
    case True
    then have "uri_bytes u = []" using u by (auto simp: tx_get_uri_def empty_uri_def uri_bytes_def)
    then show ?thesis using ek assms(2) by (auto simp: names_stable_def stable_name_def)
  next
    case False
    then obtain b where b: "gm_get (pkDB (tx_db tx)) p = Some b" "u = parse_uri b"
      using u by (auto simp: tx_get_uri_def split: option.splits)
    then have eb: "gm_get (entityDB (tx_db tx)) b = Some p"
      using assms(1) by (simp add: dict_inv_def)
    then have "uri_bytes u = b" using assms(2) b(2) unfolding names_stable_def stable_name_def by blast
    then show ?thesis using eb ek by simp
  qed
qed

section \<open>Names through a transaction\<close>

lemma alloc_names:
  "resolve_key hf u tx = Some (k, tx') \<Longrightarrow> names_stable (tx_db tx) \<Longrightarrow> stable_name (uri_bytes u) \<Longrightarrow>
     names_stable (tx_db tx')"
  by (auto simp: resolve_key_def alloc_key_def names_stable_def split: option.splits if_splits)

lemma add_uri_names:
  "add_uri hf u tx = Some tx' \<Longrightarrow> names_stable (tx_db tx) \<Longrightarrow> stable_name (uri_bytes u) \<Longrightarrow>
     names_stable (tx_db tx')"
  by (auto simp: add_uri_def put_entity_def names_stable_def split: option.splits if_splits
      dest!: alloc_names[unfolded names_stable_def])

lemma add_uris_names:
  "add_uris hf us tx = Some tx' \<Longrightarrow> names_stable (tx_db tx) \<Longrightarrow>
     (\<And>u. u \<in> set us \<Longrightarrow> stable_name (uri_bytes u)) \<Longrightarrow> names_stable (tx_db tx')"
  by (induction us arbitrary: tx) (auto split: option.splits dest: add_uri_names)

text \<open>The names of a data set, the \<open>+\<close> names of its predicates included.\<close>

definition triple_stable :: "triple \<Rightarrow> bool" where
  "triple_stable t \<longleftrightarrow> stable_name (uri_bytes (Subject t)) \<and> stable_name (uri_bytes (Predicate t)) \<and>
     stable_name (uri_bytes (Object t)) \<and> stable_name (uri_bytes (plus_uri (Predicate t)))"

lemma link_triple_names:
  "link_triple t tx = Inr tx' \<Longrightarrow> entityDB (tx_db tx') = entityDB (tx_db tx)"
  by (auto simp: link_triple_def bind_res_Inr_iff tx_get_predicate_by_uri_def Let_def evict_def
      link_edges_graph dest: get_predicate_frame)

lemma add_triple_names:
  "add_triple hf t tx = Some (Inr tx') \<Longrightarrow> names_stable (tx_db tx) \<Longrightarrow> triple_stable t \<Longrightarrow>
     names_stable (tx_db tx')"
proof -
  assume run: "add_triple hf t tx = Some (Inr tx')" and st: "names_stable (tx_db tx)" and t: "triple_stable t"
  from run obtain tx1 where
    a: "add_uris hf [Subject t, Predicate t, Object t, plus_uri (Predicate t)] tx = Some tx1"
    and l: "link_triple t tx1 = Inr tx'"
    by (auto simp: add_triple_def)
  have "names_stable (tx_db tx1)"
    using t by (intro add_uris_names[OF a st]) (auto simp: triple_stable_def)
  then show ?thesis using link_triple_names[OF l] by (simp add: names_stable_def)
qed

lemma tx_same_graph_names: "tx_same_graph tx tx' \<Longrightarrow> names_stable (tx_db tx') = names_stable (tx_db tx)"
  by (simp add: tx_same_graph_def)

lemma touch_predicate_db [simp]: "tx_db (touch_predicate u tx) = tx_db tx"
  by (auto simp: touch_predicate_def tx_get_predicate_by_uri_def bind_res_def
      dest!: get_predicate_frame split: sum.splits)

lemma note_inverse_db [simp]: "tx_db (note_inverse t tx) = tx_db tx"
  by (simp add: note_inverse_def set_inverse_def)

lemma add_all_names:
  "add_all hf ts nps tx = Some (Inr (nps', tx')) \<Longrightarrow> names_stable (tx_db tx) \<Longrightarrow>
     list_all triple_stable ts \<Longrightarrow> names_stable (tx_db tx')"
proof (induction ts arbitrary: nps tx)
  case (Cons t ts)
  then obtain tx1 where a: "add_triple hf t tx = Some (Inr tx1)"
    by (auto split: option.splits sum.splits)
  have "names_stable (tx_db tx1)" using add_triple_names[OF a Cons.prems(2)] Cons.prems(3) by simp
  then show ?case
    using Cons.IH[of _ "(note_inverse t tx1)\<lparr>triplesAdded := triplesAdded (note_inverse t tx1) + 1\<rparr>"]
      Cons.prems(1,3) a by (simp add: Let_def)
qed simp

section \<open>The known inverses\<close>

lemma fold_set_inverse_same:
  "tx_inv tx \<Longrightarrow> tx_inv (fold (\<lambda>(sh, oh). set_inverse sh oh) ps tx) \<and>
     tx_same_graph tx (fold (\<lambda>(sh, oh). set_inverse sh oh) ps tx)"
proof (induction ps arbitrary: tx)
  case (Cons p ps)
  obtain a b where p: "p = (a, b)" by (cases p)
  have s: "tx_inv (set_inverse a b tx)" "tx_same_graph tx (set_inverse a b tx)"
    using set_inverse_same[OF Cons.prems] by blast+
  show ?case using Cons.IH[OF s(1)] tx_same_graph_trans[OF s(2)] p by simp
qed simp

lemma load_inverses_same:
  assumes "tx_inv tx"
  shows "tx_inv (load_inverses ords tx) \<and> tx_same_graph tx (load_inverses ords tx)"
proof (cases "tx_get_hash tx INVERSEOF")
  case (Inl er)
  then show ?thesis using assms by (simp add: load_inverses_def tx_get_predicate_by_uri_def)
next
  case (Inr k)
  obtain pred tx1 where g: "tx_get_predicate_by_hash tx k = (pred, tx1)" by fastforce
  note s = get_predicate_spec[OF assms g]
  have "tx_same_graph tx tx1" using s by (simp add: tx_same_graph_def)
  then show ?thesis
    using fold_set_inverse_same[OF s(4)] tx_same_graph_trans Inr g
    by (simp add: load_inverses_def tx_get_predicate_by_uri_def)
qed

lemma tx_same_graph_facts:
  assumes "tx_same_graph tx tx'"
  shows "graph_agrees tx' = graph_agrees tx" "loop_free tx' = loop_free tx"
    "tx_frame tx tx'" "tx_hash tx' u = tx_hash tx u" "triples_rel tx' ts q = triples_rel tx ts q"
  using assms
  by (simp_all add: tx_same_graph_def graph_agrees_def loop_free_def tx_frame_def tx_hash_def triples_rel_def)

text \<open>The map of inverse relationships keeps distinct keys.\<close>

lemma set_inverse_wf: "gm_wf (inverseRelationships tx) \<Longrightarrow> gm_wf (inverseRelationships (set_inverse a b tx))"
  by (simp add: set_inverse_def)

lemma touch_predicate_inverse [simp]:
  "inverseRelationships (touch_predicate u tx) = inverseRelationships tx"
  by (auto simp: touch_predicate_def tx_get_predicate_by_uri_def bind_res_def rollup_frame_def
      dest!: get_predicate_frame split: sum.splits)

lemma note_inverse_wf:
  "gm_wf (inverseRelationships tx) \<Longrightarrow> gm_wf (inverseRelationships (note_inverse t tx))"
  by (simp add: note_inverse_def set_inverse_def)

lemma link_triple_inverse:
  "link_triple t tx = Inr tx' \<Longrightarrow> inverseRelationships tx' = inverseRelationships tx"
  by (auto simp: link_triple_def bind_res_Inr_iff tx_get_predicate_by_uri_def Let_def evict_def
      link_edges_graph rollup_frame_def dest!: get_predicate_frame)

lemma add_uris_inverse:
  assumes "tx_inv tx" "add_uris hf us tx = Some tx'"
  shows "inverseRelationships tx' = inverseRelationships tx"
  using add_uris_spec[OF assms] by (simp add: tx_grows_def)

lemma add_all_inverse_wf:
  "add_all hf ts nps tx = Some (Inr (nps', tx')) \<Longrightarrow> tx_inv tx \<Longrightarrow> list_all no_self_loop ts \<Longrightarrow>
     gm_wf (inverseRelationships tx) \<Longrightarrow> gm_wf (inverseRelationships tx')"
proof (induction ts arbitrary: nps tx)
  case (Cons t ts)
  then obtain tx1 where a: "add_triple hf t tx = Some (Inr tx1)"
    by (auto split: option.splits sum.splits)
  have s: "tx_inv tx1" "inverseRelationships tx1 = inverseRelationships tx"
    using add_triple_spec[OF Cons.prems(2) a] Cons.prems(3) by (auto simp: no_self_loop_def)
  let ?tx3 = "(note_inverse t tx1)\<lparr>triplesAdded := triplesAdded (note_inverse t tx1) + 1\<rparr>"
  have "tx_inv ?tx3"
    using note_inverse_same[OF s(1), of t] count_same by blast
  moreover have "gm_wf (inverseRelationships ?tx3)"
    using note_inverse_wf[of tx1 t] s(2) Cons.prems(4) by simp
  ultimately show ?case
    using Cons.IH[of _ ?tx3] Cons.prems(1,3) a by (simp add: Let_def)
qed simp

lemma load_inverses_wf:
  "gm_wf (inverseRelationships tx) \<Longrightarrow> gm_wf (inverseRelationships (load_inverses ords tx))"
proof -
  assume wf: "gm_wf (inverseRelationships tx)"
  have f: "gm_wf (inverseRelationships (fold (\<lambda>(sh, oh). set_inverse sh oh) ps tx1))"
    if "gm_wf (inverseRelationships tx1)" for ps tx1
    using that by (induction ps arbitrary: tx1) (auto simp: set_inverse_wf)
  show ?thesis
    using wf
    by (auto simp: load_inverses_def tx_get_predicate_by_uri_def bind_res_def rollup_frame_def
        split: sum.splits prod.splits dest!: get_predicate_frame intro!: f)
qed

section \<open>Committing\<close>

lemma fold_put_get:
  "gm_wf b \<Longrightarrow> gm_get (fold (\<lambda>(k, p). gm_put k p) b m) k =
     (case gm_get b k of None \<Rightarrow> gm_get m k | Some p \<Rightarrow> Some p)"
proof (induction b arbitrary: m)
  case (Cons kp b)
  obtain k' p' where kp: "kp = (k', p')" by (cases kp)
  have "gm_get b k' = None" using Cons.prems kp by (auto simp: map_of_eq_None_iff)
  then show ?case using Cons kp by (auto split: option.splits)
qed simp

lemma fold_put_inv:
  "preds_inv m \<Longrightarrow> list_all (\<lambda>(k, p). PredPK p = k \<and> pred_wf p) b \<Longrightarrow>
     preds_inv (fold (\<lambda>(k, p). gm_put k p) b m)"
  by (induction b arbitrary: m) (auto simp: preds_inv_put)

lemma preds_inv_list: "preds_inv m \<Longrightarrow> list_all (\<lambda>(k, p). PredPK p = k \<and> pred_wf p) m"
  by (auto simp: preds_inv_def list_all_iff)

lemma flush_batch_spec:
  assumes "tx_inv tx"
  shows "store_inv (flush_batch tx)" "graphDB (flush_batch tx) = graphDB (tx_db tx)"
    "entityDB (flush_batch tx) = entityDB (tx_db tx)" "extendedDB (flush_batch tx) = extendedDB (tx_db tx)"
    "tx_pairs (open_transaction (flush_batch tx)) q = tx_pairs tx q"
proof -
  have b: "preds_inv (predbatch tx)" "preds_inv (predDB (tx_db tx))"
    using assms by (simp_all add: tx_inv_def store_inv_def)
  show "store_inv (flush_batch tx)"
    using assms fold_put_inv[OF b(2) preds_inv_list[OF b(1)]]
    by (simp add: tx_inv_def store_inv_def flush_batch_def dict_inv_def)
  show "graphDB (flush_batch tx) = graphDB (tx_db tx)"
    "entityDB (flush_batch tx) = entityDB (tx_db tx)" "extendedDB (flush_batch tx) = extendedDB (tx_db tx)"
    by (simp_all add: flush_batch_def)
  have "gm_wf (predbatch tx)" using b(1) by (simp add: preds_inv_def)
  from fold_put_get[OF this, of "predDB (tx_db tx)" q]
  show "tx_pairs (open_transaction (flush_batch tx)) q = tx_pairs tx q"
    by (simp add: tx_pairs_def tx_get_predicate_by_hash_def open_transaction_def flush_batch_def Let_def
        split: option.splits)
qed

lemma commit_ok:
  "\<not> fail_entity f \<Longrightarrow> \<not> fail_pk f \<Longrightarrow> \<not> fail_graph f \<Longrightarrow> \<not> fail_ext f \<Longrightarrow> \<not> fail_pred f \<Longrightarrow>
     commit f new old = (None, new)"
  by (simp add: commit_def Let_def)

section \<open>Loading a data set\<close>

lemma ext_sound_grow:
  assumes "ext_sound st" "extendedDB st' = extendedDB st"
    and "\<And>d p. graph_rel d (graphDB st) p \<subseteq> graph_rel d (graphDB st') p"
  shows "ext_sound st'"
  using assms(1,2) plus_ok_mono[OF assms(3)] unfolding ext_sound_def ext_inv_def by auto

lemma agrees_subset:
  assumes "graph_agrees tx" "graph_agrees tx'" "\<And>q. tx_out tx q \<subseteq> tx_out tx' q"
  shows "graph_rel d (graphDB (tx_db tx)) q \<subseteq> graph_rel d (graphDB (tx_db tx')) q"
  using assms by (cases d) (auto simp: graph_agrees_def)

lemma triples_loop_free:
  assumes inv: "tx_inv tx'" and lf: "loop_free tx" and add: "triples_added ts tx tx'"
    and ts: "list_all no_self_loop ts" and known: "\<forall>t \<in> set ts. triple_known tx' t"
  shows "loop_free tx'"
proof (unfold loop_free_def, intro allI notI)
  fix p a assume "(a, a) \<in> tx_out tx' p"
  then have "(a, a) \<in> triples_rel tx' ts p"
    using lf add by (auto simp: triples_added_def loop_free_def)
  then obtain t where t: "t \<in> set ts" "tx_hash tx' (Subject t) = a" "tx_hash tx' (Object t) = a"
    by (auto simp: triples_rel_def)
  have kn: "triple_known tx' t" using known t(1) by blast
  obtain k where k: "gm_get (hashes tx') (Subject t) = Some k"
    using triple_known_get[OF kn, of "Subject t"] by auto
  obtain k' where k': "gm_get (hashes tx') (Object t) = Some k'"
    using triple_known_get[OF kn, of "Object t"] by auto
  have "k = a" "k' = a" using tx_hash_Some[OF k] tx_hash_Some[OF k'] t(2,3) by simp_all
  then have "uri_bytes (Subject t) = uri_bytes (Object t)"
    using tx_inv_hash_bytes[OF inv] k k' by blast
  then show False using ts t(1) by (auto simp: list_all_iff no_self_loop_def)
qed

lemma rollup_keeps:
  assumes "rollup_frame tx tx'"
  shows "tx_out tx' q = tx_out tx q" "tx_in tx' q = tx_in tx q" "tx_hash tx' u = tx_hash tx u"
    "names_stable (tx_db tx') = names_stable (tx_db tx)"
  using assms by (simp_all add: rollup_frame_def tx_hash_def names_stable_def)

lemma add_triples_stages:
  assumes "add_triples hf ords ds tx = Some r"
  shows "(\<exists>er. add_all hf (Triples ds) [] tx = Some (Inl er) \<and> r = Inl er) \<or>
    (\<exists>nps tx1. add_all hf (Triples ds) [] tx = Some (Inr (nps, tx1)) \<and>
       r = bind_res (build_inverses ords (load_inverses ords tx1))
         (\<lambda>tx2. Inr (fold (rollup_new ords) (ord_preds ords nps) tx2)))"
  using assms by (auto simp: add_triples_def split: option.splits sum.splits)

lemma open_transaction_simps [simp]:
  "tx_db (open_transaction st) = st" "hashes (open_transaction st) = []"
  "inverseRelationships (open_transaction st) = []" "predbatch (open_transaction st) = []"
  by (simp_all add: open_transaction_def)

text \<open>
  What loading a data set into a good database does: it does not fail; old names keep their keys and the
  names of the triples have keys of stored entities; the new triples and the old edges are there; inverse edges are added for the noted inverse relationships, and nothing else when
  these are symmetric; the invariant holds again.
\<close>

definition load_result :: "store \<Rightarrow> triple list \<Rightarrow> transaction \<Rightarrow> bool" where
  "load_result st ts tx \<longleftrightarrow>
     tx_inv tx \<and> graph_agrees tx \<and> loop_free tx \<and> ext_sound (tx_db tx) \<and> names_stable (tx_db tx) \<and>
     (\<forall>b k. gm_get (entityDB st) b = Some k \<longrightarrow> gm_get (entityDB (tx_db tx)) b = Some k) \<and>
     (\<forall>t \<in> set ts. triple_known tx t) \<and>
     (\<forall>q. tx_out (open_transaction st) q \<union> triples_rel tx ts q \<subseteq> tx_out tx q) \<and>
     (\<forall>p rp. gm_get (inverseRelationships tx) p = Some rp \<longrightarrow>
        (tx_out (open_transaction st) p \<union> triples_rel tx ts p)\<inverse> \<subseteq> tx_out tx rp) \<and>
     (symmetric_map (inverseRelationships tx) \<longrightarrow>
        (\<forall>q. tx_out tx q = tx_out (open_transaction st) q \<union> triples_rel tx ts q \<union>
           (case gm_get (inverseRelationships tx) q of
              None \<Rightarrow> {}
            | Some r \<Rightarrow> (tx_out (open_transaction st) r \<union> triples_rel tx ts r)\<inverse>)))"

lemma add_triples_result:
  assumes db: "database_inv st" and names: "names_stable st" and ords: "orders_ok ords"
    and ts: "list_all no_self_loop (Triples ds)" "list_all triple_stable (Triples ds)"
    and run: "add_triples hf ords ds (open_transaction st) = Some r"
  shows "\<exists>tx. r = Inr tx \<and> load_result st (Triples ds) tx"
proof -
  let ?old = "open_transaction st" and ?ts = "Triples ds"
  have inv0: "tx_inv ?old" "graph_agrees ?old" "loop_free ?old"
    using db open_transaction_inv by (simp_all add: database_inv_def)
  obtain ra where a: "add_all hf ?ts [] ?old = Some ra"
    using add_triples_stages[OF run] by blast
  obtain nps tx1 where ra: "ra = Inr (nps, tx1)" and t1: "tx_inv tx1" "tx_frame ?old tx1"
    "\<forall>t \<in> set ?ts. triple_known tx1 t" "triples_added ?ts ?old tx1"
    using add_all_spec[OF inv0(1) a ts(1)] by blast
  have a1: "add_all hf ?ts [] ?old = Some (Inr (nps, tx1))" using a ra by simp
  have g1: "graph_agrees tx1" by (rule triples_added_agrees[OF inv0(2) t1(4)])
  have l1: "loop_free tx1" by (rule triples_loop_free[OF t1(1) inv0(3) t1(4) ts(1) t1(3)])
  have n1: "names_stable (tx_db tx1)" using add_all_names[OF a1] names ts(2) by simp
  have w1: "gm_wf (inverseRelationships tx1)" by (rule add_all_inverse_wf[OF a1 inv0(1) ts(1)]) simp
  let ?tx2 = "load_inverses ords tx1"
  have t2: "tx_inv ?tx2" "tx_same_graph tx1 ?tx2" using load_inverses_same[OF t1(1)] by simp_all
  note same = tx_same_graph_facts[OF t2(2)]
  have w2: "gm_wf (inverseRelationships ?tx2)" by (rule load_inverses_wf[OF w1])
  obtain tx3 where b: "build_inverses ords ?tx2 = Inr tx3"
    and i: "inverses_inv (inverseRelationships ?tx2) ?tx2 (set (inverseRelationships ?tx2)) tx3"
    using build_inverses_inv[OF t2(1) _ _ ords w2] g1 l1 same(1,2) by auto
  let ?fin = "fold (rollup_new ords) (ord_preds ords nps) tx3"
  have r: "r = Inr ?fin" using add_triples_stages[OF run] a1 b by auto
  have t3: "tx_inv tx3" "graph_agrees tx3" "loop_free tx3" "tx_frame ?tx2 tx3" "hashes tx3 = hashes ?tx2"
    "inverseRelationships tx3 = inverseRelationships ?tx2"
    "entityDB (tx_db tx3) = entityDB (tx_db ?tx2)"
    and up3: "\<And>q. tx_out ?tx2 q \<subseteq> tx_out tx3 q"
    and inv3: "\<forall>(p, rp) \<in> set (inverseRelationships ?tx2). (tx_out ?tx2 p)\<inverse> \<subseteq> tx_out tx3 rp"
    using i unfolding inverses_inv_def by blast+
  have out2: "tx_out ?tx2 q = tx_out ?old q \<union> triples_rel tx1 ?ts q" for q
    using t1(4) t2(2) by (simp add: triples_added_def tx_same_graph_def)
  have n3: "names_stable (tx_db tx3)"
    using n1 t3(7) t2(2) by (simp add: names_stable_def tx_same_graph_def)
  have ext3: "ext_sound (tx_db tx3)"
  proof (rule ext_sound_grow[of st])
    show "ext_sound st" using db by (simp add: database_inv_def)
    show "extendedDB (tx_db tx3) = extendedDB st"
      using t1(2) t3(4) t2(2) by (simp add: tx_frame_def tx_same_graph_def)
    show "graph_rel d (graphDB st) p \<subseteq> graph_rel d (graphDB (tx_db tx3)) p" for d p
      using agrees_subset[OF inv0(2) t3(2), of d p] up3 out2 by fastforce
  qed
  have "graph_inv (graphDB (tx_db tx3))" using t3(1) by (simp add: tx_inv_def store_inv_def)
  then have pre: "rollup_pre tx3"
    using ext3 t3(2) by (simp add: rollup_pre_def graph_inv_get graph_agrees_def)
  have nm: "name_ok tx3 q" for q
    using t3(1) n3 by (intro names_stable_ok) (simp_all add: tx_inv_def store_inv_def)
  note rs = rollup_fold_sound[OF pre nm, of ords "ord_preds ords nps"]
  then have fr: "rollup_frame tx3 ?fin" and pre': "rollup_pre ?fin" by blast+
  note kp = rollup_keeps[OF fr]
  have inv': "tx_inv ?fin" and pairs': "\<And>q. tx_pairs ?fin q = tx_pairs tx3 q"
    using fr t3(1) by (simp_all add: rollup_frame_def)
  have rel: "triples_rel ?fin ?ts q = triples_rel tx1 ?ts q" for q
  proof -
    have "tx_hash ?fin u = tx_hash tx1 u" for u
      using kp(3)[of u] t3(5) same(4)[of u] by (simp add: tx_hash_def)
    then show ?thesis by (simp add: triples_rel_def)
  qed
  have m: "inverseRelationships ?fin = inverseRelationships ?tx2"
    using fr t3(6) by (simp add: rollup_frame_def)
  have names_kept: "gm_get (entityDB (tx_db ?fin)) b = Some k" if "gm_get (entityDB st) b = Some k" for b k
    using that t1(2) t2(2) t3(7) fr by (simp add: tx_frame_def tx_same_graph_def rollup_frame_def)
  have known: "\<forall>t \<in> set ?ts. triple_known ?fin t"
    using t1(3) t2(2) t3(4,5) fr
    by (simp add: triple_known_def tx_frame_def tx_same_graph_def rollup_frame_def) blast
  have "load_result st ?ts ?fin"
    unfolding load_result_def
  proof (intro conjI allI impI)
    show "graph_agrees ?fin" using t3(2) kp(1,2) pairs' by (simp add: graph_agrees_def)
    show "loop_free ?fin" using t3(3) kp(1) by (simp add: loop_free_def)
    show "tx_out ?old q \<union> triples_rel ?fin ?ts q \<subseteq> tx_out ?fin q" for q
      using up3[of q] out2[of q] rel[of q] kp(1)[of q] by simp
    show "(tx_out ?old p \<union> triples_rel ?fin ?ts p)\<inverse> \<subseteq> tx_out ?fin rp"
      if "gm_get (inverseRelationships ?fin) p = Some rp" for p rp
    proof -
      have "(p, rp) \<in> set (inverseRelationships ?tx2)"
        using that unfolding m by (rule map_of_SomeD)
      then have "(tx_out ?tx2 p)\<inverse> \<subseteq> tx_out tx3 rp" using inv3 by blast
      then show ?thesis unfolding out2[of p] rel[of p] kp(1)[of rp] by simp
    qed
    show "tx_out ?fin q = tx_out ?old q \<union> triples_rel ?fin ?ts q \<union>
           (case gm_get (inverseRelationships ?fin) q of None \<Rightarrow> {}
            | Some r \<Rightarrow> (tx_out ?old r \<union> triples_rel ?fin ?ts r)\<inverse>)"
      if "symmetric_map (inverseRelationships ?fin)" for q
      using inverses_inv_exact[OF i, of q] that out2 rel kp(1)[of q] unfolding m
      by (auto split: option.splits)
  qed (use inv' pre' n3 kp(4) names_kept known in \<open>simp_all add: rollup_pre_def\<close>)
  then show ?thesis using r by blast
qed

lemma load_result_database:
  assumes "load_result st ts tx"
  shows "database_inv (flush_batch tx)" "names_stable (flush_batch tx)"
proof -
  have t: "tx_inv tx" "graph_agrees tx" "loop_free tx" "ext_sound (tx_db tx)" "names_stable (tx_db tx)"
    using assms by (simp_all add: load_result_def)
  note f = flush_batch_spec[OF t(1)]
  show "database_inv (flush_batch tx)"
    using t f by (simp add: database_inv_def graph_agrees_def loop_free_def ext_sound_def ext_inv_def)
  show "names_stable (flush_batch tx)" using t(5) f(3) by (simp add: names_stable_def)
qed

section \<open>Snapshots\<close>

lemma snapshot_view_sound:
  assumes "database_inv st"
  shows "view_sound d (snapshot_view rels st)"
proof -
  have es: "ext_sound st" and gi: "graph_inv (graphDB st)"
    using assms by (simp_all add: database_inv_def store_inv_def)
  have "index_sound d (snapshot_view rels st)"
    unfolding index_sound_def edge_rel_graph
  proof (intro allI impI)
    fix k idx p ks
    assume v: "vw_ext (snapshot_view rels st) k = Inr idx" and e: "index_entry d idx p = Some ks"
    then obtain x where x: "gm_get (extendedDB st) k = Some x" "idx = Some x"
      by (auto simp: snapshot_view_def snap_get_extended_index_by_hash_def index_entry_def
          split: option.splits)
    have "set ks = edges (dir_plus d x) p"
      using e x(2) by (simp add: index_entry_def edges_def edge_list_def)
    then show "set ks \<subseteq> (graph_rel d (vw_graph (snapshot_view rels st)) p)\<^sup>+ `` {k}"
      using ext_sound_get[OF es x(1)] by (auto simp: snapshot_view_def plus_ok_def)
  qed
  then show ?thesis
    using graph_inv_get[OF gi] by (simp add: view_sound_def snapshot_view_def)
qed

lemma snapshot_no_panic: "\<not> path_panics (snapshot_view rels st) ord path stack"
  by (rule path_panics_never) (simp add: snapshot_view_def snap_get_hash_def split: option.splits)

lemma snapshot_edges: "edge_rel d (snapshot_view rels st) p = graph_rel d (graphDB st) p"
  by (simp add: edge_rel_graph snapshot_view_def)

section \<open>Termination of a load\<close>

text \<open>The number of keys the salted hash of a URI can take.\<close>

definition reachable_keys :: "(bytes \<Rightarrow> u32) \<Rightarrow> uri \<Rightarrow> nat" where
  "reachable_keys hf u = card (range (hash_uri hf u empty_key))"

lemma finite_key_range: "finite (range (hash_uri hf u empty_key))"
proof (rule finite_subset)
  show "range (hash_uri hf u empty_key) \<subseteq> {k. short_key k}"
    by (auto simp: short_key_hash_uri)
  show "finite {k. short_key k}"
    by (rule finite_imageD[OF _ short_key_inj]) simp
qed

lemma free_salt:
  assumes "length pk < reachable_keys hf u"
  shows "\<exists>s. \<not> gm_has pk (hash_uri hf u empty_key s)"
proof (rule ccontr)
  assume "\<not> ?thesis"
  then have "range (hash_uri hf u empty_key) \<subseteq> fst ` set pk" by (auto simp: gm_has_iff_key)
  then have "reachable_keys hf u \<le> card (fst ` set pk)"
    unfolding reachable_keys_def by (rule card_mono[rotated]) simp
  also have "\<dots> \<le> length pk" by (metis card_length image_set length_map)
  finally show False using assms by simp
qed

lemma resolve_key_total:
  assumes "length (pkDB (tx_db tx)) < reachable_keys hf u"
  shows "\<exists>k tx'. resolve_key hf u tx = Some (k, tx') \<and>
     length (pkDB (tx_db tx')) \<le> Suc (length (pkDB (tx_db tx)))"
proof -
  obtain k where "find_key hf (pkDB (tx_db tx)) u (hash_uri hf u empty_key 0) 0 = Some k"
    using free_salt[OF assms] find_key_iff by blast
  then show ?thesis
    by (auto simp: resolve_key_def alloc_key_def length_gm_put split: option.splits)
qed

lemma add_uri_total:
  assumes "length (pkDB (tx_db tx)) < reachable_keys hf u"
  shows "\<exists>tx'. add_uri hf u tx = Some tx' \<and> length (pkDB (tx_db tx')) \<le> Suc (length (pkDB (tx_db tx)))"
  using resolve_key_total[OF assms] by (auto simp: add_uri_def put_entity_def)

lemma add_uris_total:
  assumes "\<And>u. u \<in> set us \<Longrightarrow> length (pkDB (tx_db tx)) + length us \<le> reachable_keys hf u"
  shows "\<exists>tx'. add_uris hf us tx = Some tx' \<and>
     length (pkDB (tx_db tx')) \<le> length (pkDB (tx_db tx)) + length us"
  using assms
proof (induction us arbitrary: tx)
  case (Cons u us)
  have "length (pkDB (tx_db tx)) < reachable_keys hf u" using Cons.prems[of u] by simp
  then obtain tx1 where a: "add_uri hf u tx = Some tx1"
    and l: "length (pkDB (tx_db tx1)) \<le> Suc (length (pkDB (tx_db tx)))"
    using add_uri_total by blast
  have "length (pkDB (tx_db tx1)) + length us \<le> reachable_keys hf v" if "v \<in> set us" for v
    using Cons.prems[of v] that l by simp
  from Cons.IH[OF this] obtain tx' where r: "add_uris hf us tx1 = Some tx'"
    and l': "length (pkDB (tx_db tx')) \<le> length (pkDB (tx_db tx1)) + length us"
    by blast
  show ?case using a r l l' by auto
qed simp

lemma link_triple_pk:
  "link_triple t tx = Inr tx' \<Longrightarrow> pkDB (tx_db tx') = pkDB (tx_db tx)"
  by (auto simp: link_triple_def bind_res_Inr_iff tx_get_predicate_by_uri_def Let_def evict_def
      link_edges_graph dest!: get_predicate_frame)

lemma add_triple_total:
  assumes "\<And>u. length (pkDB (tx_db tx)) + 4 \<le> reachable_keys hf u"
  shows "\<exists>r. add_triple hf t tx = Some r \<and>
     (\<forall>tx'. r = Inr tx' \<longrightarrow> length (pkDB (tx_db tx')) \<le> length (pkDB (tx_db tx)) + 4)"
proof -
  let ?us = "[Subject t, Predicate t, Object t, plus_uri (Predicate t)]"
  have "\<exists>tx1. add_uris hf ?us tx = Some tx1 \<and>
      length (pkDB (tx_db tx1)) \<le> length (pkDB (tx_db tx)) + length ?us"
    by (rule add_uris_total) (use assms in \<open>simp add: numeral_eq_Suc\<close>)
  then obtain tx1 where "add_uris hf ?us tx = Some tx1"
    "length (pkDB (tx_db tx1)) \<le> length (pkDB (tx_db tx)) + 4" by auto
  then show ?thesis
    using link_triple_pk[of t tx1] by (auto simp: add_triple_def)
qed

lemma add_all_total:
  assumes "\<And>u. length (pkDB (tx_db tx)) + 4 * length ts \<le> reachable_keys hf u"
  shows "\<exists>r. add_all hf ts nps tx = Some r"
  using assms
proof (induction ts arbitrary: nps tx)
  case (Cons t ts)
  have four: "length (pkDB (tx_db tx)) + 4 \<le> reachable_keys hf u" for u
    using Cons.prems[of u] by simp
  obtain r where r: "add_triple hf t tx = Some r"
    "\<And>tx'. r = Inr tx' \<Longrightarrow> length (pkDB (tx_db tx')) \<le> length (pkDB (tx_db tx)) + 4"
    using add_triple_total[of tx hf t, OF four] by blast
  show ?case
  proof (cases r)
    case (Inl er)
    then show ?thesis using r(1) by simp
  next
    case (Inr tx1)
    let ?tx3 = "(note_inverse t tx1)\<lparr>triplesAdded := triplesAdded (note_inverse t tx1) + 1\<rparr>"
    have "length (pkDB (tx_db ?tx3)) + 4 * length ts \<le> reachable_keys hf u" for u
      using r(2)[OF Inr] Cons.prems[of u] by simp
    then show ?thesis using Cons.IH[of ?tx3] r(1) Inr by (simp add: Let_def)
  qed
qed simp

lemma add_triples_total:
  assumes "\<And>u. length (pkDB st) + 4 * length (Triples ds) \<le> reachable_keys hf u"
  shows "\<exists>r. add_triples hf ords ds (open_transaction st) = Some r"
  using add_all_total[of "open_transaction st" "Triples ds" hf "[]"] assms
  by (auto simp: add_triples_def split: sum.splits)

section \<open>A sample load\<close>

text \<open>A hash function that returns the low half of the salt, so that every key is reachable.\<close>

definition salt_hash :: "bytes \<Rightarrow> u32" where
  "salt_hash b = le_uint32 (drop (length b - 8) b)"

definition sample_salts :: "u64 list" where
  "sample_salts = [1, 2, 3, 4, 5, 6, 7, 8]"

lemma sample_salts_distinct:
  "distinct (map (\<lambda>s. le_uint32 (put_uint64 s)) sample_salts)"
  by (simp add: sample_salts_def put_uint64_def byte_at_def le_uint32_def)

lemma salt_hash_reachable: "8 \<le> reachable_keys salt_hash u"
proof -
  let ?f = "hash_uri salt_hash u empty_key"
  have "?f s = ?f s' \<longleftrightarrow> hash_of salt_hash u s = hash_of salt_hash u s'" for s s'
    by (rule hash_uri_short_eq) simp_all
  moreover have "hash_of salt_hash u s = le_uint32 (put_uint64 s)" if "s \<in> set sample_salts" for s
    using that by (auto simp: hash_of_def salt_hash_def sample_salts_def)
  ultimately have "inj_on ?f (set sample_salts)"
    using sample_salts_distinct by (auto simp: distinct_map inj_on_def)
  then have "card (?f ` set sample_salts) = card (set sample_salts)" by (rule card_image)
  also have "\<dots> = 8" by (simp add: sample_salts_def)
  finally have "card (?f ` set sample_salts) = 8" .
  moreover have "card (?f ` set sample_salts) \<le> card (range ?f)"
    by (rule card_mono[OF finite_key_range]) auto
  ultimately show ?thesis by (simp add: reachable_keys_def)
qed

definition sample_orders :: orders where
  "sample_orders = \<lparr>ord_inverse = id, ord_pairs = (\<lambda>p. id), ord_preds = rev, ord_ents = (\<lambda>d p. id),
     pick_max = (\<lambda>d p e ks. hd ks), pick_del = (\<lambda>d p e ks. last ks)\<rparr>"

lemma sample_orders_ok: "orders_ok sample_orders"
  by (simp add: orders_ok_def sample_orders_def)

definition sample_triple :: triple where
  "sample_triple = \<lparr>Subject = mkURI ''b'' ''room'', Predicate = mkURI ''b'' ''partOf'',
     Object = mkURI ''b'' ''floor''\<rparr>"

definition sample_data :: dataset where
  "sample_data = new_dataset\<lparr>Triples := [sample_triple]\<rparr>"

lemma stable_plain_name: "plain_name u \<Longrightarrow> stable_name (uri_bytes u)"
  using parse_uri_plain_name[of u] by (simp add: stable_name_def uri_bytes_eq_string[symmetric])
    (auto simp: plain_name_def uri_bytes_def)

lemma sample_data_ok:
  "list_all no_self_loop (Triples sample_data)" "list_all triple_stable (Triples sample_data)"
  using stable_plain_name[of "mkURI ''b'' ''room''"] stable_plain_name[of "mkURI ''b'' ''partOf''"]
    stable_plain_name[of "mkURI ''b'' ''floor''"] stable_plain_name[of "mkURI ''b'' ''partOf+''"]
  by (simp_all add: sample_data_def sample_triple_def no_self_loop_def uri_bytes_def triple_stable_def
      plain_name_def plus_uri_def)

lemma sample_load: "\<exists>r. add_triples salt_hash sample_orders sample_data (open_transaction empty_store) = Some r"
  using salt_hash_reachable
  by (intro add_triples_total) (simp add: sample_data_def empty_store_def le_trans[of 4 8])

text \<open>A hash function that gives one-letter names keys of their own, and a chain of two triples.\<close>

definition name_hash :: "bytes \<Rightarrow> u32" where
  "name_hash b =
     of_char (last b) + (if CHR ''+'' \<in> set b then 256 + of_char (last (butlast b)) else 0)"

definition name_uri :: "string \<Rightarrow> uri" where
  "name_uri s = mkURI ''n'' s"

definition name_triple :: "string \<Rightarrow> string \<Rightarrow> string \<Rightarrow> triple" where
  "name_triple s p o' = \<lparr>Subject = name_uri s, Predicate = name_uri p, Object = name_uri o'\<rparr>"

definition chain_data :: dataset where
  "chain_data = new_dataset\<lparr>Triples := [name_triple ''a'' ''p'' ''b'', name_triple ''b'' ''p'' ''c'']\<rparr>"

definition chain_path :: "path_pattern list" where
  "chain_path = [\<lparr>PathPredicate = name_uri ''p'', PathMod = PATTERN_ONE_PLUS\<rparr>,
     \<lparr>PathPredicate = name_uri ''p'', PathMod = PATTERN_ZERO_ONE\<rparr>]"

lemma chain_data_ok:
  "list_all no_self_loop (Triples chain_data)" "list_all triple_stable (Triples chain_data)"
  using stable_plain_name[of "mkURI ''n'' ''a''"] stable_plain_name[of "mkURI ''n'' ''b''"]
    stable_plain_name[of "mkURI ''n'' ''c''"] stable_plain_name[of "mkURI ''n'' ''p''"]
    stable_plain_name[of "mkURI ''n'' ''p+''"]
  by (simp_all add: chain_data_def name_triple_def name_uri_def no_self_loop_def uri_bytes_def triple_stable_def
      plain_name_def plus_uri_def)

text \<open>What the load gives: the keys of the names, and the answers of \<open>chain_path\<close> from both ends.\<close>

lemma chain_load:
  "case add_triples name_hash sample_orders chain_data (open_transaction empty_store) of
     Some (Inr tx) \<Rightarrow>
       gm_get (entityDB (tx_db tx)) (uri_bytes (name_uri ''a'')) = Some (sample_key CHR ''a'') \<and>
       get_object_from_subject_pred (snapshot_view [] (flush_batch tx)) rev (sample_key CHR ''a'') chain_path =
         Some [sample_key CHR ''c'', sample_key CHR ''b''] \<and>
       get_subject_from_pred_object (snapshot_view [] (flush_batch tx)) rev (sample_key CHR ''c'') chain_path =
         Some (Inr [sample_key CHR ''a'', sample_key CHR ''b''])
   | _ \<Rightarrow> False"
  by code_simp

section \<open>Properties\<close>

text \<open>
  C5: Loading a data set into a database that satisfies its invariant either does not return (only when
  no free key is left) or succeeds, and then the invariant holds again: the two dictionaries are inverse
  to each other, both directions of the graph and the predicate index agree, and the extended index
  lists only reachable entities. Old names keep their keys, and those of the new triples have keys of
  stored entities. The stored edges include the old ones, those of the new triples, and the converse edges
  of predicates with a recorded inverse; when the recorded inverses are symmetric there are no others.
  No triple may relate a resource to itself (see C31), and every name, the \<open>+\<close> names of predicates
  included, must be what its parsed form prints.
\<close>

theorem add_triples_correct:
  assumes "database_inv st" "names_stable st" "orders_ok ords"
    and "list_all no_self_loop (Triples ds)" "list_all triple_stable (Triples ds)"
    and "add_triples hf ords ds (open_transaction st) = Some r"
  shows "\<exists>tx. r = Inr tx \<and> load_result st (Triples ds) tx \<and> database_inv (flush_batch tx)"
  using add_triples_result[OF assms] load_result_database by blast

theorem add_triples_correct_witness:
  "\<exists>r tx. add_triples salt_hash sample_orders sample_data (open_transaction empty_store) = Some r \<and>
     r = Inr tx \<and> load_result empty_store (Triples sample_data) tx \<and> database_inv (flush_batch tx)"
proof -
  obtain r where r: "add_triples salt_hash sample_orders sample_data (open_transaction empty_store) = Some r"
    using sample_load by blast
  show ?thesis
    using add_triples_correct[OF empty_database_inv sample_orders_ok sample_data_ok r] r by blast
qed

text \<open>
  C20: A load returns whenever the salted hashes of every URI take more values than there are keys in the
  database and new names in the data set (each triple brings at most four). The search for a free key
  may otherwise run forever.
\<close>

theorem add_triples_terminates:
  assumes "\<And>u. length (pkDB st) + 4 * length (Triples ds) \<le> reachable_keys hf u"
  shows "\<exists>r. add_triples hf ords ds (open_transaction st) = Some r"
  using assms by (rule add_triples_total)

theorem add_triples_terminates_witness:
  "\<exists>r. add_triples salt_hash sample_orders sample_data (open_transaction empty_store) = Some r"
  by (rule add_triples_terminates)
     (use salt_hash_reachable in \<open>simp add: sample_data_def empty_store_def le_trans[of 4 8]\<close>)

text \<open>
  C21: The search for a key returns exactly when some salt gives a key that is not in use, and the key it
  returns is not in use; nothing else about the hash function matters.
\<close>

theorem find_key_returns:
  "((\<exists>k. find_key hf pk u (hash_uri hf u empty_key 0) 0 = Some k) \<longleftrightarrow>
      (\<exists>salt. \<not> gm_has pk (hash_uri hf u empty_key salt))) \<and>
   (\<forall>k. find_key hf pk u (hash_uri hf u empty_key 0) 0 = Some k \<longrightarrow> \<not> gm_has pk k \<and> short_key k)"
  using find_key_iff[of hf pk u] find_key_Some[of hf pk u "hash_uri hf u empty_key 0" 0]
  by (auto simp: short_key_hash_uri)

theorem find_key_returns_witness:
  "\<exists>k. find_key (\<lambda>b. 7) [] (mkURI ''b'' ''room'') (hash_uri (\<lambda>b. 7) (mkURI ''b'' ''room'') empty_key 0) 0 = Some k"
  using find_key_returns[of "\<lambda>b. 7" "[]" "mkURI ''b'' ''room''"] by (auto simp: gm_has_def)

text \<open>
  C15: In a snapshot of a database that satisfies its invariant, the search along any path returns only
  keys that the stored edges relate by the path to the key it starts from, from a subject and from an
  object, even where the extended index is incomplete or stale; and the search from an object never
  panics there. The order in which keys are iterated is any that gives the same keys.
\<close>

theorem snapshot_paths_sound:
  assumes "database_inv st" "\<And>ks. set (ord ks) = set ks"
  shows "(\<forall>ks. get_object_from_subject_pred (snapshot_view rels st) ord k path = Some ks \<longrightarrow>
            set ks \<subseteq> {o'. (k, o') \<in> path_rel FromSubject (snapshot_view rels st) path}) \<and>
         get_subject_from_pred_object (snapshot_view rels st) ord k path \<noteq> None \<and>
         (\<forall>ks. get_subject_from_pred_object (snapshot_view rels st) ord k path = Some (Inr ks) \<longrightarrow>
            set ks \<subseteq> {s. (s, k) \<in> path_rel FromSubject (snapshot_view rels st) path})"
proof (intro conjI allI impI)
  let ?v = "snapshot_view rels st"
  have ord: "set (ord ks) \<subseteq> set ks" for ks using assms(2) by simp
  have sound: "set (path_loop d ?v ord p [e]) \<subseteq> path_rel d ?v p `` {k}"
    if "get_entity_by_hash ?v k = Inr e" for d p e
    using view_sound_entity[OF snapshot_view_sound[OF assms(1), of d rels] that]
      path_sound[OF snapshot_view_sound[OF assms(1), of d rels] ord, of "[e]" p] by auto
  show "set ks \<subseteq> {o'. (k, o') \<in> path_rel FromSubject ?v path}"
    if "get_object_from_subject_pred ?v ord k path = Some ks" for ks
    using that sound[of _ FromSubject path] by (auto simp: get_object_from_subject_pred_def split: sum.splits)
  show "get_subject_from_pred_object ?v ord k path \<noteq> None"
    by (simp add: get_subject_from_pred_object_def snapshot_no_panic split: sum.splits)
  have conv: "edges_converse ?v"
    using assms(1) by (simp add: edges_converse_def snapshot_edges database_inv_def graph_agrees_def)
  show "set ks \<subseteq> {s. (s, k) \<in> path_rel FromSubject ?v path}"
    if "get_subject_from_pred_object ?v ord k path = Some (Inr ks)" for ks
    using that sound[of _ FromObject "reverse_path path"] reverse_path_rel_subset[OF conv, of path]
    by (auto simp: get_subject_from_pred_object_def split: sum.splits if_splits)
qed

text \<open>The chain \<open>a p b\<close>, \<open>b p c\<close>, loaded into an empty database; \<open>p+ p?\<close> is followed from both ends.\<close>

theorem snapshot_paths_sound_witness:
  "\<exists>tx ks ks'. add_triples name_hash sample_orders chain_data (open_transaction empty_store) = Some (Inr tx) \<and>
     get_object_from_subject_pred (snapshot_view [] (flush_batch tx)) rev (sample_key CHR ''a'') chain_path = Some ks \<and>
     get_subject_from_pred_object (snapshot_view [] (flush_batch tx)) rev (sample_key CHR ''c'') chain_path = Some (Inr ks') \<and>
     ks \<noteq> [] \<and> set ks \<subseteq> {o'. (sample_key CHR ''a'', o') \<in> path_rel FromSubject (snapshot_view [] (flush_batch tx)) chain_path} \<and>
     ks' \<noteq> [] \<and> set ks' \<subseteq> {s. (s, sample_key CHR ''c'') \<in> path_rel FromSubject (snapshot_view [] (flush_batch tx)) chain_path}"
proof -
  obtain tx where tx: "add_triples name_hash sample_orders chain_data (open_transaction empty_store) = Some (Inr tx)"
    and found: "get_object_from_subject_pred (snapshot_view [] (flush_batch tx)) rev (sample_key CHR ''a'') chain_path =
        Some [sample_key CHR ''c'', sample_key CHR ''b'']"
      "get_subject_from_pred_object (snapshot_view [] (flush_batch tx)) rev (sample_key CHR ''c'') chain_path =
        Some (Inr [sample_key CHR ''a'', sample_key CHR ''b''])"
    using chain_load by (auto split: option.splits sum.splits)
  have "load_result empty_store (Triples chain_data) tx"
    using add_triples_result[OF empty_database_inv sample_orders_ok chain_data_ok tx] by simp
  then have db: "database_inv (flush_batch tx)" by (rule load_result_database)
  have "set [sample_key CHR ''c'', sample_key CHR ''b''] \<subseteq>
      {o'. (sample_key CHR ''a'', o') \<in> path_rel FromSubject (snapshot_view [] (flush_batch tx)) chain_path}"
    using snapshot_paths_sound[OF db, of rev "[]" "sample_key CHR ''a''" chain_path] found(1) by simp
  moreover have "set [sample_key CHR ''a'', sample_key CHR ''b''] \<subseteq>
      {s. (s, sample_key CHR ''c'') \<in> path_rel FromSubject (snapshot_view [] (flush_batch tx)) chain_path}"
    using snapshot_paths_sound[OF db, of rev "[]" "sample_key CHR ''c''" chain_path] found(2) by simp
  ultimately show ?thesis using tx found by blast
qed



text \<open>
  C25: A load whose second commit fails, the one of the keys, reports an error and leaves every new name
  of the load with a key that has no name: \<open>getURI\<close> of that key fails, loading the name again finds the
  same key and writes nothing, and another new name whose hash is that key gets it too, so that two names
  share an entity.
\<close>

theorem failed_commit_breaks_names:
  assumes "database_inv st" "names_stable st" "orders_ok ords"
    and "list_all no_self_loop (Triples ds)" "list_all triple_stable (Triples ds)"
    and "add_triples hf ords ds (open_transaction st) = Some (Inr tx)"
    and "\<not> fail_write f" "\<not> fail_entity f" "fail_pk f"
    and "gm_get (entityDB st) (uri_bytes u) = None" "gm_get (entityDB (tx_db tx)) (uri_bytes u) = Some k"
  shows "\<exists>er st'. tx_done f tx st = (Some er, st') \<and>
     gm_get (entityDB st') (uri_bytes u) = Some k \<and> snap_get_uri st' k = Inl LdbNotFound \<and>
     (\<exists>tx'. resolve_key hf u (open_transaction st') = Some (k, tx') \<and> tx_db tx' = st') \<and>
     (\<forall>v. hash_uri hf v empty_key 0 = k \<and> gm_get (entityDB st') (uri_bytes v) = None \<longrightarrow>
        (\<exists>tx'. resolve_key hf v (open_transaction st') = Some (k, tx') \<and>
           gm_get (entityDB (tx_db tx')) (uri_bytes v) = Some k \<and>
           gm_get (entityDB (tx_db tx')) (uri_bytes u) = Some k))"
proof -
  have l: "load_result st (Triples ds) tx" using add_triples_result[OF assms(1-6)] by simp
  have inv: "dict_inv st" "dict_inv (tx_db tx)"
    using assms(1) l by (simp_all add: database_inv_def load_result_def tx_inv_def store_inv_def)
  have free: "gm_get (pkDB st) k = None"
  proof (rule ccontr)
    assume "gm_get (pkDB st) k \<noteq> None"
    then obtain b where "gm_get (pkDB st) k = Some b" by auto
    then have b: "gm_get (entityDB st) b = Some k" using inv(1) by (simp add: dict_inv_def)
    then have "gm_get (entityDB (tx_db tx)) b = Some k" using l by (simp add: load_result_def)
    then have "b = uri_bytes u" using assms(11) inv(2) by (simp add: dict_inv_def)
    then show False using b assms(10) by simp
  qed
  let ?st = "st\<lparr>entityDB := entityDB (tx_db tx)\<rparr>"
  have "tx_done f tx st = (Some (Failure ''commit''), ?st)"
    using assms(7-9) by (simp add: tx_done_def commit_def flush_batch_def Let_def)
  moreover have "snap_get_uri ?st k = Inl LdbNotFound" using free by (simp add: snap_get_uri_def)
  moreover have "\<exists>tx'. resolve_key hf u (open_transaction ?st) = Some (k, tx') \<and> tx_db tx' = ?st"
    using assms(11) by (simp add: resolve_key_def open_transaction_def)
  moreover have "\<exists>tx'. resolve_key hf v (open_transaction ?st) = Some (k, tx') \<and>
      gm_get (entityDB (tx_db tx')) (uri_bytes v) = Some k \<and> gm_get (entityDB (tx_db tx')) (uri_bytes u) = Some k"
    if v: "hash_uri hf v empty_key 0 = k" "gm_get (entityDB ?st) (uri_bytes v) = None" for v
  proof -
    have "uri_bytes u \<noteq> uri_bytes v" using v(2) assms(11) by auto
    moreover have "find_key hf (pkDB st) v k 0 = Some k" using free by (subst find_key.simps) (simp add: gm_has_def)
    ultimately show ?thesis using v assms(11) by (simp add: resolve_key_def alloc_key_def open_transaction_def)
  qed
  ultimately show ?thesis using assms(11) by auto
qed

theorem failed_commit_breaks_names_witness:
  "\<exists>tx er st'. add_triples name_hash sample_orders chain_data (open_transaction empty_store) = Some (Inr tx) \<and>
     tx_done \<lparr>fail_write = False, fail_entity = False, fail_pk = True, fail_graph = False, fail_ext = False,
       fail_pred = False\<rparr> tx empty_store = (Some er, st') \<and>
     snap_get_uri st' (sample_key CHR ''a'') = Inl LdbNotFound"
proof -
  obtain tx where tx: "add_triples name_hash sample_orders chain_data (open_transaction empty_store) = Some (Inr tx)"
    and k: "gm_get (entityDB (tx_db tx)) (uri_bytes (name_uri ''a'')) = Some (sample_key CHR ''a'')"
    using chain_load by (auto split: option.splits sum.splits)
  show ?thesis
    using failed_commit_breaks_names[OF empty_database_inv sample_orders_ok chain_data_ok tx _ _ _ _ k,
      of "\<lparr>fail_write = False, fail_entity = False, fail_pk = True, fail_graph = False, fail_ext = False,
       fail_pred = False\<rparr>"] tx by (simp add: empty_store_def) blast
qed

end
