(* ===== verification/RollupExample.thy ===== *)
theory RollupExample
  imports Database
begin

text \<open>
  A load that leaves the extended index incomplete. Four triples, \<open>b q c\<close>, \<open>1 p b\<close>, \<open>2 p b\<close> and
  \<open>b p d\<close>, are loaded into an empty database. Rolling up \<open>p\<close> stops with an error at \<open>d\<close>, which has no
  index yet, after it has recorded that \<open>1\<close> reaches \<open>b\<close> and before it looks at \<open>2\<close>; the caller drops
  the error. A query for one step finds both, a query for one or more steps stops at the index entry.
\<close>

definition fork_data :: dataset where
  "fork_data = new_dataset\<lparr>Triples := [name_triple ''b'' ''q'' ''c'', name_triple ''1'' ''p'' ''b'',
     name_triple ''2'' ''p'' ''b'', name_triple ''b'' ''p'' ''d'']\<rparr>"

definition fork_orders :: orders where
  "fork_orders = \<lparr>ord_inverse = id, ord_pairs = (\<lambda>p. id), ord_preds = id, ord_ents = (\<lambda>d p. id),
     pick_max = (\<lambda>d p e ks. hd ks), pick_del = (\<lambda>d p e ks. hd ks)\<rparr>"

definition fork_view :: "view option" where
  "fork_view =
     (case add_triples name_hash fork_orders fork_data (open_transaction empty_store) of
        Some (Inr tx) \<Rightarrow> Some (snapshot_view [] (flush_batch tx)) | _ \<Rightarrow> None)"

definition fork_subjects :: "pattern \<Rightarrow> key list res option" where
  "fork_subjects m =
     Option.bind fork_view (\<lambda>v. get_subject_from_pred_object v id (sample_key CHR ''b'')
       [\<lparr>PathPredicate = name_uri ''p'', PathMod = m\<rparr>])"

text \<open>
  After this load the subjects related to \<open>b\<close> by \<open>p\<close> are \<open>1\<close> and \<open>2\<close>, but those related to it by
  \<open>p+\<close> are only \<open>1\<close>: an aborted roll-up makes queries with closures incomplete.
\<close>

lemma rollup_incomplete:
  "orders_ok fork_orders \<and>
   fork_subjects PATTERN_SINGLE = Some (Inr [sample_key CHR ''1'', sample_key CHR ''2'']) \<and>
   fork_subjects PATTERN_ONE_PLUS = Some (Inr [sample_key CHR ''1''])"
proof (intro conjI)
  show "orders_ok fork_orders" by (simp add: orders_ok_def fork_orders_def)
qed code_simp+

end
