(* ===== verification/Relations.thy ===== *)
theory Relations
  imports Keys
begin

text \<open>
  Rows and relations of the query engine (db/row.go, db/relation.go). A row is a byte buffer of
  eight-byte slots; a relation is a list of rows with the slot of each variable and, for each
  variable, an index from keys to the numbers of the rows that hold them. The main results: slots
  behave like variables, the index is exact, and \<open>join\<close> computes the matching pairs of rows.
\<close>

section \<open>Rows\<close>

text \<open>\<open>copy(dst[at:], src)\<close>.\<close>

definition copy_into :: "bytes \<Rightarrow> nat \<Rightarrow> bytes \<Rightarrow> bytes" where
  "copy_into dst at src = take at dst @ take (length dst - at) src @ drop (at + length src) dst"

datatype row = Row (content: bytes)

text \<open>
  \<open>NewRow\<close> takes a row from a \<open>sync.Pool\<close>: a fresh one of 64 zero bytes, or one that \<open>release\<close> has
  put back, whose content is empty. Which one is up to the pool: \<open>fresh\<close>.
\<close>

definition release :: "row \<Rightarrow> row" where
  "release row = Row (take 0 (content row))"

definition new_row :: "bool \<Rightarrow> row" where
  "new_row fresh = (if fresh then Row (replicate 64 nul) else release (Row (replicate 64 nul)))"

definition row_copy :: "bool \<Rightarrow> row \<Rightarrow> row" where
  "row_copy fresh row =
     (let gr = content (new_row fresh);
          gr1 = (if length gr < length (content row) then replicate (length (content row)) nul else gr)
      in Row (copy_into gr1 0 (content row)))"

definition add_value :: "nat \<Rightarrow> key \<Rightarrow> row \<Rightarrow> row" where
  "add_value pos value row =
     (let c = content row;
          c1 = (if length c < pos * 8 + 8 then copy_into (replicate (pos * 8 + 8) nul) 0 c else c)
      in Row (copy_into c1 (pos * 8) (key_bytes value)))"

definition value_at :: "nat \<Rightarrow> row \<Rightarrow> key" where
  "value_at pos row =
     (if pos * 8 + 8 > length (content row) then empty_key
      else from_slice empty_key (take 8 (drop (pos * 8) (content row))))"

definition row_equals :: "row \<Rightarrow> row \<Rightarrow> bool" where
  "row_equals row other = (content row = content other)"

text \<open>Every row the engine makes is a whole number of slots.\<close>

definition row_wf :: "row \<Rightarrow> bool" where
  "row_wf row \<longleftrightarrow> 8 dvd length (content row)"

lemma length_copy_into [simp]: "at + length src \<le> length dst \<Longrightarrow> length (copy_into dst at src) = length dst"
  by (simp add: copy_into_def)

lemma nth_copy_into:
  assumes "at + length src \<le> length dst" "i < length dst"
  shows "copy_into dst at src ! i = (if at \<le> i \<and> i < at + length src then src ! (i - at) else dst ! i)"
  using assms by (auto simp: copy_into_def nth_append min_def)

lemma slot_copy_into:
  assumes "p * 8 + 8 \<le> length dst" "q * 8 + 8 \<le> length dst" "length src = 8"
  shows "take 8 (drop (q * 8) (copy_into dst (p * 8) src)) =
         (if q = p then src else take 8 (drop (q * 8) dst))"
proof (rule nth_equalityI)
  show "length (take 8 (drop (q * 8) (copy_into dst (p * 8) src))) =
        length (if q = p then src else take 8 (drop (q * 8) dst))"
    using assms by simp
next
  fix i
  assume "i < length (take 8 (drop (q * 8) (copy_into dst (p * 8) src)))"
  then have i: "i < 8" by simp
  then have "q * 8 + i < length dst" using assms(2) by simp
  then show "take 8 (drop (q * 8) (copy_into dst (p * 8) src)) ! i =
        (if q = p then src else take 8 (drop (q * 8) dst)) ! i"
    using assms i by (auto simp: nth_copy_into)
qed

lemma slot_extend:
  assumes "8 dvd length c" "length c < n" "q * 8 + 8 \<le> n"
  shows "take 8 (drop (q * 8) (copy_into (replicate n nul) 0 c)) =
     (if q * 8 + 8 \<le> length c then take 8 (drop (q * 8) c) else replicate 8 nul)"
proof -
  have "copy_into (replicate n nul) 0 c = c @ replicate (n - length c) nul"
    using assms(2) by (simp add: copy_into_def)
  moreover have "length c \<le> q * 8" if "\<not> q * 8 + 8 \<le> length c"
    using that assms(1) by (auto simp: dvd_def)
  ultimately show ?thesis using assms(2,3) by (auto simp: min_def)
qed

lemma from_slice_8 [simp]: "length bs = 8 \<Longrightarrow> from_slice k bs = key_of_bytes bs"
  by (simp add: from_slice_def)

lemma key_of_nul [simp]: "key_of_bytes (replicate 8 nul) = empty_key"
  by (simp add: eval_nat_numeral empty_key_def)

lemma row_wf_new [simp, intro]: "row_wf (new_row fresh)"
  by (simp add: row_wf_def new_row_def release_def)

lemma value_at_new [simp]: "value_at q (new_row fresh) = empty_key"
  by (simp add: value_at_def new_row_def release_def min_def)

lemma row_wf_add_value [simp, intro]: "row_wf row \<Longrightarrow> row_wf (add_value p k row)"
  by (auto simp: row_wf_def add_value_def Let_def)

lemma value_at_add_value:
  assumes "row_wf row"
  shows "value_at q (add_value p k row) = (if q = p then k else value_at q row)"
proof (cases "length (content row) < p * 8 + 8")
  case True
  then show ?thesis
    using assms slot_copy_into[of p "copy_into (replicate (p * 8 + 8) nul) 0 (content row)" q "key_bytes k"]
      slot_extend[of "content row" "p * 8 + 8" q]
    by (auto simp: add_value_def value_at_def Let_def row_wf_def)
next
  case False
  then show ?thesis
    using slot_copy_into[of p "content row" q "key_bytes k"]
    by (auto simp: add_value_def value_at_def Let_def)
qed

lemma row_wf_copy [simp, intro]: "row_wf row \<Longrightarrow> row_wf (row_copy fresh row)"
  by (auto simp: row_wf_def row_copy_def Let_def new_row_def release_def)

lemma value_at_copy:
  assumes "row_wf row"
  shows "value_at q (row_copy fresh row) = value_at q row"
proof (cases "fresh \<and> length (content row) < 64")
  case True
  then show ?thesis
    using assms slot_extend[of "content row" 64 q]
    by (auto simp: row_copy_def value_at_def row_wf_def new_row_def Let_def)
next
  case False
  then have "content (row_copy fresh row) = content row"
    by (auto simp: row_copy_def new_row_def release_def copy_into_def Let_def not_less)
  then show ?thesis by (simp add: value_at_def)
qed

section \<open>Slots as an interface\<close>

text \<open>
  What relations need of rows: reading a slot after writing one. The lemmas about filling a row from
  a list of positions hold for every implementation of the interface.
\<close>

locale slots =
  fixes ok :: "'r \<Rightarrow> bool"
    and put :: "nat \<Rightarrow> 'k \<Rightarrow> 'r \<Rightarrow> 'r"
    and get :: "nat \<Rightarrow> 'r \<Rightarrow> 'k"
  assumes ok_put: "ok r \<Longrightarrow> ok (put p k r)"
    and get_put: "ok r \<Longrightarrow> get q (put p k r) = (if q = p then k else get q r)"
begin

definition fill :: "(nat \<times> 'k) list \<Rightarrow> 'r \<Rightarrow> 'r" where
  "fill ps r = fold (\<lambda>(p, k). put p k) ps r"

lemma fill_simps [simp]: "fill [] r = r" "fill ((p, k) # ps) r = fill ps (put p k r)"
  by (simp_all add: fill_def)

lemma ok_fill: "ok r \<Longrightarrow> ok (fill ps r)"
  by (induction ps arbitrary: r) (auto simp: ok_put)

lemma get_fill_other: "ok r \<Longrightarrow> q \<notin> fst ` set ps \<Longrightarrow> get q (fill ps r) = get q r"
  by (induction ps arbitrary: r) (auto simp: ok_put get_put)

lemma get_fill: "ok r \<Longrightarrow> distinct (map fst ps) \<Longrightarrow> (q, k) \<in> set ps \<Longrightarrow> get q (fill ps r) = k"
proof (induction ps arbitrary: r)
  case (Cons pk ps)
  obtain p k' where pk: "pk = (p, k')" by (cases pk)
  show ?case
  proof (cases "(q, k) = pk")
    case True
    then have "q \<notin> fst ` set ps" using Cons.prems(2) pk by auto
    then show ?thesis using True pk Cons.prems(1) by (simp add: get_fill_other ok_put get_put)
  next
    case False
    then show ?thesis using Cons pk by (auto simp: ok_put)
  qed
qed simp

text \<open>The order of the writes does not matter when the positions are distinct.\<close>

lemma get_fill_map:
  assumes "ok r" "distinct (map fst ps)"
  shows "get q (fill ps r) = (case map_of ps q of None \<Rightarrow> get q r | Some k \<Rightarrow> k)"
proof (cases "map_of ps q")
  case None
  then have "q \<notin> fst ` set ps" by (simp add: map_of_eq_None_iff)
  then show ?thesis using assms(1) None by (simp add: get_fill_other)
next
  case (Some k)
  then show ?thesis using assms by (auto intro: get_fill map_of_SomeD)
qed

end

interpretation row_slots: slots row_wf add_value value_at
  by unfold_locales (auto simp: value_at_add_value)

section \<open>Relations\<close>

text \<open>
  A roaring bitmap is the ascending list of its members. An entry of the index that is nil in Go is
  absent here.
\<close>

type_synonym bitmap = "nat list"

record relation =
  rows :: "row list"
  multiindex :: "(string, (key, bitmap) gomap) gomap"
  vars :: "(string, nat) gomap"
  rel_keys :: "string list"

text \<open>\<open>FastAnd\<close> of one or more bitmaps.\<close>

fun fast_and :: "bitmap list \<Rightarrow> bitmap" where
  "fast_and [] = []"
| "fast_and (b # bs) = filter (\<lambda>i. \<forall>c \<in> set bs. i \<in> set c) b"

definition new_var :: "nat \<times> string \<Rightarrow> relation \<Rightarrow> relation" where
  "new_var iv rel =
     rel\<lparr>vars := gm_put (snd iv) (fst iv) (vars rel),
         multiindex := gm_put (snd iv) [] (multiindex rel)\<rparr>"

definition new_relation :: "string list \<Rightarrow> relation" where
  "new_relation vs =
     fold new_var (enumerate 0 vs) \<lparr>rows = [], multiindex = [], vars = [], rel_keys = vs\<rparr>"

text \<open>What the three \<open>add...\<close> functions do first with each variable.\<close>

definition ensure_var :: "string \<Rightarrow> relation \<Rightarrow> relation" where
  "ensure_var key1 rel =
     (if gm_has (vars rel) key1 then rel
      else rel\<lparr>vars := gm_put key1 (length (vars rel) + 1) (vars rel),
               multiindex := gm_put key1 [] (multiindex rel)\<rparr>)"

definition index_at :: "relation \<Rightarrow> string \<Rightarrow> key \<Rightarrow> bitmap option" where
  "index_at rel x k = (case gm_get (multiindex rel) x of None \<Rightarrow> None | Some m \<Rightarrow> gm_get m k)"

definition put_index :: "string \<Rightarrow> key \<Rightarrow> bitmap \<Rightarrow> relation \<Rightarrow> relation" where
  "put_index x k bm rel =
     (let m = (case gm_get (multiindex rel) x of None \<Rightarrow> [] | Some m \<Rightarrow> m)
      in rel\<lparr>multiindex := gm_put x (gm_put k bm m) (multiindex rel)\<rparr>)"

definition var_pos :: "relation \<Rightarrow> string \<Rightarrow> nat" where
  "var_pos rel x = (case gm_get (vars rel) x of None \<Rightarrow> 0 | Some p \<Rightarrow> p)"

text \<open>The body of the loop of \<open>add1Value\<close> for one value.\<close>

definition add_single :: "(nat \<Rightarrow> bool) \<Rightarrow> string \<Rightarrow> key \<Rightarrow> relation \<Rightarrow> relation" where
  "add_single fresh key1 value rel =
     (if index_at rel key1 value \<noteq> None then rel
      else
        (let n = length (rows rel);
             row = add_value (var_pos rel key1) value (new_row (fresh n));
             rel1 = rel\<lparr>rows := rows rel @ [row]\<rparr>
         in put_index key1 value [length (rows rel1) - 1] rel1))"

text \<open>\<open>values\<close> in the order in which the key map is iterated.\<close>

definition add1_value :: "(nat \<Rightarrow> bool) \<Rightarrow> string \<Rightarrow> key list \<Rightarrow> relation \<Rightarrow> relation" where
  "add1_value fresh key1 values rel = fold (add_single fresh key1) values (ensure_var key1 rel)"

text \<open>
  The body of the loops of \<open>add2Values\<close> and \<open>add3Values\<close> for one pair or triple: the bitmaps are read
  once, missing ones are created, then the number of the new row is added to each.
\<close>

definition clear_index :: "string \<times> key \<Rightarrow> bitmap option \<Rightarrow> relation \<Rightarrow> relation" where
  "clear_index xk bm rel =
     (case bm of None \<Rightarrow> put_index (fst xk) (snd xk) [] rel | Some _ \<Rightarrow> rel)"

definition add_int :: "nat \<Rightarrow> string \<times> key \<Rightarrow> relation \<Rightarrow> relation" where
  "add_int i xk rel =
     (case index_at rel (fst xk) (snd xk) of
        None \<Rightarrow> rel
      | Some bm \<Rightarrow> put_index (fst xk) (snd xk) (set_add i bm) rel)"

definition add_tuple :: "(nat \<Rightarrow> bool) \<Rightarrow> string list \<Rightarrow> key list \<Rightarrow> relation \<Rightarrow> relation" where
  "add_tuple fresh xs ks rel =
     (let xks = zip xs ks;
          bitmaps = map (\<lambda>(x, k). index_at rel x k) xks
      in if (\<forall>b \<in> set bitmaps. b \<noteq> None) \<and> fast_and (map the bitmaps) \<noteq> [] then rel
         else
           (let n = length (rows rel);
                row = fold (\<lambda>(x, k). add_value (var_pos rel x) k) xks (new_row (fresh n));
                rel1 = rel\<lparr>rows := rows rel @ [row]\<rparr>;
                rel2 = fold (\<lambda>(xk, bm). clear_index xk bm) (zip xks bitmaps) rel1
            in fold (add_int (length (rows rel2) - 1)) xks rel2))"

definition add2_values ::
    "(nat \<Rightarrow> bool) \<Rightarrow> string \<Rightarrow> string \<Rightarrow> (key \<times> key) list \<Rightarrow> relation \<Rightarrow> relation" where
  "add2_values fresh key1 key2 values rel =
     fold (\<lambda>(a, b). add_tuple fresh [key1, key2] [a, b]) values (ensure_var key2 (ensure_var key1 rel))"

definition add3_values ::
    "(nat \<Rightarrow> bool) \<Rightarrow> string \<Rightarrow> string \<Rightarrow> string \<Rightarrow> (key \<times> key \<times> key) list \<Rightarrow> relation
      \<Rightarrow> relation" where
  "add3_values fresh key1 key2 key3 values rel =
     fold (\<lambda>(a, b, c). add_tuple fresh [key1, key2, key3] [a, b, c]) values
       (ensure_var key3 (ensure_var key2 (ensure_var key1 rel)))"

text \<open>
  \<open>join\<close>: the rows of \<open>other\<close> that agree on the join variables are found with its index; every
  variable of \<open>other\<close> is copied into a copy of the row. The map of variables is iterated in the order
  \<open>ord\<close>; a variable unknown to \<open>rel\<close> gets position 0, the zero value.
\<close>

definition join_row ::
    "bool \<Rightarrow> ((string \<times> nat) list \<Rightarrow> (string \<times> nat) list) \<Rightarrow> relation \<Rightarrow> relation \<Rightarrow> row \<Rightarrow> row
      \<Rightarrow> row" where
  "join_row fresh ord rel other innerRow otherRow =
     fold (\<lambda>(otherVarname, otherIdx). add_value (var_pos rel otherVarname) (value_at otherIdx otherRow))
       (ord (vars other)) (row_copy fresh innerRow)"

definition matching_rows :: "relation \<Rightarrow> relation \<Rightarrow> string list \<Rightarrow> row \<Rightarrow> bitmap" where
  "matching_rows rel other on innerRow =
     (let bitmaps = map (\<lambda>x. index_at other x (value_at (var_pos rel x) innerRow)) on
      in if \<exists>b \<in> set bitmaps. b = None then [] else fast_and (map the bitmaps))"

definition join ::
    "(nat \<Rightarrow> nat \<Rightarrow> bool) \<Rightarrow> ((string \<times> nat) list \<Rightarrow> (string \<times> nat) list)
      \<Rightarrow> relation \<Rightarrow> string list \<Rightarrow> relation \<Rightarrow> relation" where
  "join fresh ord other on rel =
     rel\<lparr>rows := concat (map (\<lambda>(i, innerRow).
            map (\<lambda>j. join_row (fresh i j) ord rel other innerRow (rows other ! j))
              (matching_rows rel other on innerRow))
          (enumerate 0 (rows rel)))\<rparr>"

section \<open>What a relation means\<close>

text \<open>
  A row assigns a key to each variable, the zero key to one that is not bound. A relation is well
  formed when its variables have different slots and its rows are whole slots; its index is exact
  for some variables when it lists the rows that hold a key, and nothing for other keys.
\<close>

definition row_val :: "relation \<Rightarrow> row \<Rightarrow> string \<Rightarrow> key" where
  "row_val rel row x = (if gm_has (vars rel) x then value_at (var_pos rel x) row else empty_key)"

definition assigns :: "relation \<Rightarrow> (string \<Rightarrow> key) list" where
  "assigns rel = map (row_val rel) (rows rel)"

definition tuples :: "relation \<Rightarrow> string list \<Rightarrow> key list list" where
  "tuples rel xs = map (\<lambda>row. map (row_val rel row) xs) (rows rel)"

definition rel_wf :: "relation \<Rightarrow> bool" where
  "rel_wf rel \<longleftrightarrow> gm_wf (vars rel) \<and>
     (\<forall>x y. gm_has (vars rel) x \<longrightarrow> gm_has (vars rel) y \<longrightarrow> var_pos rel x = var_pos rel y \<longrightarrow> x = y) \<and>
     (\<forall>row \<in> set (rows rel). row_wf row)"

definition holding :: "relation \<Rightarrow> string \<Rightarrow> key \<Rightarrow> nat list" where
  "holding rel x k = filter (\<lambda>i. row_val rel (rows rel ! i) x = k) [0..<length (rows rel)]"

definition index_ok :: "string list \<Rightarrow> relation \<Rightarrow> bool" where
  "index_ok xs rel \<longleftrightarrow> (\<forall>x \<in> set xs. gm_has (vars rel) x \<and>
     (\<forall>k. index_at rel x k = (if holding rel x k = [] then None else Some (holding rel x k))))"

text \<open>The assignment of a list of keys to a list of variables.\<close>

definition bind :: "string list \<Rightarrow> key list \<Rightarrow> string \<Rightarrow> key" where
  "bind xs ks y = (case map_of (zip xs ks) y of None \<Rightarrow> empty_key | Some k \<Rightarrow> k)"

lemma tuples_assigns: "tuples rel xs = map (\<lambda>f. map f xs) (assigns rel)"
  by (simp add: tuples_def assigns_def)

lemma index_at_put_index [simp]:
  "index_at (put_index x k bm rel) y j = (if y = x \<and> j = k then Some bm else index_at rel y j)"
  by (auto simp: index_at_def put_index_def Let_def split: option.splits)

lemma put_index_frame [simp]:
  "rows (put_index x k bm rel) = rows rel" "vars (put_index x k bm rel) = vars rel"
  by (simp_all add: put_index_def Let_def)

lemma clear_index_frame [simp]:
  "rows (clear_index xk bm rel) = rows rel" "vars (clear_index xk bm rel) = vars rel"
  by (simp_all add: clear_index_def split: option.splits)

lemma add_int_frame [simp]:
  "rows (add_int i xk rel) = rows rel" "vars (add_int i xk rel) = vars rel"
  by (simp_all add: add_int_def split: option.splits)

lemma fold_clear_index:
  "index_at (fold (\<lambda>(xk, bm). clear_index xk bm) (zip xks (map B xks)) rel) y j =
     (if (y, j) \<in> set xks \<and> B (y, j) = None then Some [] else index_at rel y j) \<and>
   rows (fold (\<lambda>(xk, bm). clear_index xk bm) (zip xks (map B xks)) rel) = rows rel \<and>
   vars (fold (\<lambda>(xk, bm). clear_index xk bm) (zip xks (map B xks)) rel) = vars rel"
  by (induction xks arbitrary: rel) (auto simp: clear_index_def split: option.splits)

lemma fold_add_int:
  assumes "\<forall>(x, k) \<in> set xks. index_at rel x k \<noteq> None"
  shows "index_at (fold (add_int n) xks rel) y j =
     (if (y, j) \<in> set xks then Some (set_add n (the (index_at rel y j))) else index_at rel y j) \<and>
   rows (fold (add_int n) xks rel) = rows rel \<and> vars (fold (add_int n) xks rel) = vars rel"
  using assms
proof (induction xks arbitrary: rel)
  case (Cons xk xks)
  obtain bm where bm: "index_at rel (fst xk) (snd xk) = Some bm" using Cons.prems by auto
  then have r: "index_at (add_int n xk rel) z i =
      (if (z, i) = xk then Some (set_add n bm) else index_at rel z i)" for z i
    by (cases xk) (simp add: add_int_def)
  have "\<forall>(x, k) \<in> set xks. index_at (add_int n xk rel) x k \<noteq> None"
    using Cons.prems by (auto simp: r)
  from Cons.IH[OF this] show ?case
    using bm by (cases "(y, j) = xk") (auto simp: r set_add_def)
qed simp

text \<open>The row \<open>add_tuple\<close> makes.\<close>

lemma tuple_row:
  assumes "rel_wf rel" "distinct xs" "length ks = length xs" "\<forall>x \<in> set xs. gm_has (vars rel) x"
    and row_eq: "row = fold (\<lambda>(x, k). add_value (var_pos rel x) k) (zip xs ks) (new_row b)"
  shows "row_wf row" "row_val rel row = bind xs ks"
proof -
  let ?ps = "map (\<lambda>(x, k). (var_pos rel x, k)) (zip xs ks)"
  have row: "row = row_slots.fill ?ps (new_row b)"
    by (simp add: row_eq row_slots.fill_def fold_map comp_def case_prod_unfold)
  have inj: "inj_on (var_pos rel) (set xs)"
    using assms(1,4) by (auto simp: rel_wf_def inj_on_def)
  have "map fst ?ps = map (var_pos rel) xs"
    using assms(3) by (simp add: comp_def case_prod_beta flip: map_map[of "var_pos rel" fst, unfolded comp_def])
  then have d: "distinct (map fst ?ps)" using assms(2) inj by (simp add: distinct_map)
  show "row_wf row" by (simp add: row row_slots.ok_fill)
  show "row_val rel row = bind xs ks"
  proof
    fix y
    show "row_val rel row y = bind xs ks y"
    proof (cases "y \<in> set xs")
      case True
      then obtain k where k: "map_of (zip xs ks) y = Some k"
        using assms(3) by (metis map_of_zip_is_Some)
      then have "(var_pos rel y, k) \<in> set ?ps"
        by (force dest: map_of_SomeD)
      from row_slots.get_fill[OF row_wf_new d this] show ?thesis
        using True assms(4) k by (simp add: row_val_def row bind_def)
    next
      case False
      then have none: "map_of (zip xs ks) y = None"
        by (auto simp: map_of_eq_None_iff dest: set_zip_leftD)
      have "var_pos rel y \<notin> fst ` set ?ps" if "gm_has (vars rel) y"
      proof
        assume "var_pos rel y \<in> fst ` set ?ps"
        then obtain x where "x \<in> set xs" "var_pos rel x = var_pos rel y"
          by (auto dest: set_zip_leftD)
        then show False using assms(1,4) False that by (metis rel_wf_def)
      qed
      then show ?thesis
        using none by (auto simp: row_val_def row bind_def row_slots.get_fill_other)
    qed
  qed
qed

lemma holding_append:
  assumes "rows rel' = rows rel @ [row]" "vars rel' = vars rel"
  shows "holding rel' x k =
    holding rel x k @ (if row_val rel row x = k then [length (rows rel)] else [])"
proof -
  have "filter (\<lambda>i. row_val rel ((rows rel @ [row]) ! i) x = k) [0..<length (rows rel)] =
        filter (\<lambda>i. row_val rel (rows rel ! i) x = k) [0..<length (rows rel)]"
    by (rule filter_cong) (auto simp: nth_append)
  moreover have "row_val rel' r = row_val rel r" for r
    using assms(2) by (auto simp: row_val_def var_pos_def)
  ultimately show ?thesis using assms by (simp add: holding_def nth_append)
qed

text \<open>The test for an existing tuple: some row is in the bitmaps of all its keys.\<close>

lemma fast_and_iff: "bs \<noteq> [] \<Longrightarrow> set (fast_and bs) = (\<Inter>b \<in> set bs. set b)"
  by (cases bs) auto

lemma set_holding: "set (holding rel x k) = {i. i < length (rows rel) \<and> row_val rel (rows rel ! i) x = k}"
  by (auto simp: holding_def)

lemma index_okD:
  assumes "index_ok xs rel" "x \<in> set xs"
  shows "index_at rel x k = (if holding rel x k = [] then None else Some (holding rel x k))"
  using assms by (auto simp: index_ok_def)

lemma matching_exact:
  assumes "index_ok xs rel" "xs \<noteq> []"
  shows "(let bs = map (\<lambda>x. index_at rel x (f x)) xs
     in if \<exists>b \<in> set bs. b = None then [] else fast_and (map the bs)) =
     filter (\<lambda>i. \<forall>x \<in> set xs. row_val rel (rows rel ! i) x = f x) [0..<length (rows rel)]"
proof (cases "\<exists>x \<in> set xs. holding rel x (f x) = []")
  case True
  then obtain x where x: "x \<in> set xs" "holding rel x (f x) = []" by auto
  then have "filter (\<lambda>i. \<forall>x \<in> set xs. row_val rel (rows rel ! i) x = f x) [0..<length (rows rel)] = []"
    by (auto simp: holding_def filter_empty_conv)
  moreover have "index_at rel x (f x) = None" using index_okD[OF assms(1) x(1)] x(2) by simp
  ultimately show ?thesis using x(1) by (force simp: Let_def)
next
  case False
  then have all: "index_at rel x (f x) = Some (holding rel x (f x))" if "x \<in> set xs" for x
    using index_okD[OF assms(1) that] that by simp
  have bs: "map the (map (\<lambda>x. index_at rel x (f x)) xs) = map (\<lambda>x. holding rel x (f x)) xs"
    using all by simp
  have no: "\<not> (\<exists>b \<in> set (map (\<lambda>x. index_at rel x (f x)) xs). b = None)" using all by auto
  have "fast_and (map (\<lambda>x. holding rel x (f x)) xs) =
     filter (\<lambda>i. \<forall>x \<in> set xs. row_val rel (rows rel ! i) x = f x) [0..<length (rows rel)]"
    using assms(2) by (cases xs) (auto simp: holding_def intro!: filter_cong)
  then show ?thesis unfolding Let_def using no bs by (metis (lifting))
qed

lemma tuple_known:
  assumes "index_ok xs rel" "xs \<noteq> []" "length ks = length xs" "distinct xs"
  defines "bs \<equiv> map (\<lambda>(x, k). index_at rel x k) (zip xs ks)"
  shows "(\<forall>b \<in> set bs. b \<noteq> None) \<and> fast_and (map the bs) \<noteq> [] \<longleftrightarrow> ks \<in> set (tuples rel xs)"
proof -
  have "ks = map (bind xs ks) xs"
    using assms(3,4) by (intro nth_equalityI) (simp_all add: bind_def map_of_zip_nth)
  then obtain f where ks: "ks = map f xs" by (rule that)
  have bs: "bs = map (\<lambda>x. index_at rel x (f x)) xs"
    by (simp add: bs_def ks zip_map2 zip_same_conv_map)
  have "fast_and (map the bs) \<noteq> [] \<and> (\<forall>b \<in> set bs. b \<noteq> None) \<longleftrightarrow>
     filter (\<lambda>i. \<forall>x \<in> set xs. row_val rel (rows rel ! i) x = f x) [0..<length (rows rel)] \<noteq> []"
    using matching_exact[OF assms(1,2), of f] unfolding bs[symmetric] Let_def
    by (auto split: if_splits) (metis option.exhaust)
  also have "\<dots> \<longleftrightarrow> (\<exists>r \<in> set (rows rel). map (row_val rel r) xs = ks)"
    by (simp add: ks filter_empty_conv Bex_def) (metis in_set_conv_nth)
  finally show ?thesis by (auto simp: tuples_def)
qed

text \<open>
  Adding a tuple: nothing when a row has these keys already, else one more row that binds exactly the
  tuple; the relation stays well formed and its index exact.
\<close>

definition extends :: "string list \<Rightarrow> key list \<Rightarrow> relation \<Rightarrow> relation \<Rightarrow> bool" where
  "extends xs ks rel rel' \<longleftrightarrow> rel_wf rel' \<and> index_ok xs rel' \<and> vars rel' = vars rel \<and>
     assigns rel' = assigns rel @ (if ks \<in> set (tuples rel xs) then [] else [bind xs ks])"

lemma extends_new_row:
  assumes wf: "rel_wf rel" "index_ok xs rel" "distinct xs" "length ks = length xs"
    and new: "ks \<notin> set (tuples rel xs)"
    and row: "row_wf row" "row_val rel row = bind xs ks"
    and rel': "rows rel' = rows rel @ [row]" "vars rel' = vars rel"
    and idx: "\<And>x k. x \<in> set xs \<Longrightarrow> index_at rel' x k =
        (if (x, k) \<in> set (zip xs ks)
         then Some (set_add (length (rows rel))
                (case index_at rel x k of None \<Rightarrow> [] | Some bm \<Rightarrow> bm))
         else index_at rel x k)"
  shows "extends xs ks rel rel'"
proof -
  have rv: "row_val rel' r = row_val rel r" for r
    using rel'(2) by (auto simp: row_val_def var_pos_def)
  have vp: "var_pos rel' = var_pos rel" using rel'(2) by (auto simp: var_pos_def)
  have "rel_wf rel'" using wf(1) row(1) rel' by (auto simp: rel_wf_def vp)
  moreover have "assigns rel' = assigns rel @ [bind xs ks]"
    using row(2) rel' rv by (simp add: assigns_def)
  moreover have "index_ok xs rel'"
    unfolding index_ok_def
  proof (intro ballI conjI allI)
    fix x assume x: "x \<in> set xs"
    then show "gm_has (vars rel') x" using wf(2) rel'(2) by (simp add: index_ok_def)
    fix k
    have zip: "(x, k) \<in> set (zip xs ks) \<longleftrightarrow> bind xs ks x = k"
    proof -
      from x wf(4) obtain k' where k': "map_of (zip xs ks) x = Some k'"
        by (metis map_of_zip_is_Some)
      moreover have "(x, k) \<in> set (zip xs ks) \<longleftrightarrow> map_of (zip xs ks) x = Some k"
        using wf(3,4) by (intro Some_eq_map_of_iff[symmetric, THEN iffD2] refl | simp)+
      ultimately show ?thesis using k' by (simp add: bind_def)
    qed
    have fresh: "length (rows rel) \<notin> set (holding rel x k)" by (simp add: set_holding)
    show "index_at rel' x k = (if holding rel' x k = [] then None else Some (holding rel' x k))"
    proof (cases "bind xs ks x = k")
      case True
      then have "holding rel' x k = holding rel x k @ [length (rows rel)]"
        using holding_append[OF rel', of x k] row(2) by simp
      moreover have "index_at rel' x k =
          Some (set_add (length (rows rel)) (case index_at rel x k of None \<Rightarrow> [] | Some bm \<Rightarrow> bm))"
        using idx[OF x, of k] True zip by simp
      ultimately show ?thesis
        using fresh by (simp add: index_okD[OF wf(2) x] set_add_def)
    next
      case False
      then have "holding rel' x k = holding rel x k"
        using holding_append[OF rel', of x k] row(2) by simp
      then show ?thesis using idx[OF x, of k] False zip by (simp add: index_okD[OF wf(2) x])
    qed
  qed
  ultimately show ?thesis using new rel'(2) by (simp add: extends_def)
qed

lemma extends_refl:
  "rel_wf rel \<Longrightarrow> index_ok xs rel \<Longrightarrow> ks \<in> set (tuples rel xs) \<Longrightarrow> extends xs ks rel rel"
  by (simp add: extends_def)

lemma index_ok_has: "index_ok xs rel \<Longrightarrow> x \<in> set xs \<Longrightarrow> gm_has (vars rel) x"
  by (simp add: index_ok_def)

lemma add_tuple_extends:
  assumes "rel_wf rel" "index_ok xs rel" "xs \<noteq> []" "distinct xs" "length ks = length xs"
  shows "extends xs ks rel (add_tuple fresh xs ks rel)"
proof (cases "ks \<in> set (tuples rel xs)")
  case True
  then have "add_tuple fresh xs ks rel = rel"
    using tuple_known[OF assms(2,3,5,4)] by (simp add: add_tuple_def Let_def)
  then show ?thesis using True assms(1,2) by (simp add: extends_refl)
next
  case False
  let ?xks = "zip xs ks"
  let ?B = "\<lambda>(x, k). index_at rel x k"
  let ?n = "length (rows rel)"
  define row where "row = fold (\<lambda>(x, k). add_value (var_pos rel x) k) ?xks (new_row (fresh ?n))"
  let ?rel1 = "rel\<lparr>rows := rows rel @ [row]\<rparr>"
  let ?rel2 = "fold (\<lambda>(xk, bm). clear_index xk bm) (zip ?xks (map ?B ?xks)) ?rel1"
  have same: "index_at ?rel1 = index_at rel" by (intro ext) (simp add: index_at_def)
  note two = fold_clear_index[where B = ?B and xks = ?xks and rel = ?rel1, unfolded same]
  have some: "\<forall>(x, k) \<in> set ?xks. index_at ?rel2 x k \<noteq> None"
    using two by auto
  have eq: "add_tuple fresh xs ks rel = fold (add_int ?n) ?xks ?rel2"
    using tuple_known[OF assms(2,3,5,4)] False two by (auto simp: add_tuple_def Let_def row_def)
  note three = fold_add_int[OF some, of ?n, folded eq]
  have rowp: "row_wf row" "row_val rel row = bind xs ks"
    using tuple_row[OF assms(1,4,5) _ row_def] index_ok_has[OF assms(2)] by auto
  show ?thesis
  proof (rule extends_new_row[OF assms(1,2,4,5) False rowp])
    show "rows (add_tuple fresh xs ks rel) = rows rel @ [row]"
      "vars (add_tuple fresh xs ks rel) = vars rel"
      using three two by simp_all
    show "index_at (add_tuple fresh xs ks rel) x k =
      (if (x, k) \<in> set ?xks then Some (set_add ?n (case index_at rel x k of None \<Rightarrow> [] | Some bm \<Rightarrow> bm))
       else index_at rel x k)" for x k
      using three[of x k] two[of x k] by (auto split: option.splits)
  qed
qed

lemma add_single_extends:
  assumes "rel_wf rel" "index_ok [x] rel"
  shows "extends [x] [k] rel (add_single fresh x k rel)"
proof (cases "[k] \<in> set (tuples rel [x])")
  case True
  then have "index_at rel x k \<noteq> None"
    using tuple_known[OF assms(2), of "[k]"] by auto
  then show ?thesis using True assms by (simp add: add_single_def extends_refl)
next
  case False
  let ?n = "length (rows rel)"
  define row where "row = add_value (var_pos rel x) k (new_row (fresh ?n))"
  have "\<forall>r \<in> set (rows rel). row_val rel r x \<noteq> k" using False by (auto simp: tuples_def)
  then have "holding rel x k = []" by (simp add: holding_def filter_empty_conv)
  then have none: "index_at rel x k = None" using index_okD[OF assms(2), of x k] by simp
  have rowp: "row_wf row" "row_val rel row = bind [x] [k]"
    using tuple_row[OF assms(1), of "[x]" "[k]" row] index_ok_has[OF assms(2)] by (auto simp: row_def)
  have eq: "add_single fresh x k rel = put_index x k [?n] (rel\<lparr>rows := rows rel @ [row]\<rparr>)"
    using none by (simp add: add_single_def Let_def row_def)
  show ?thesis
    by (rule extends_new_row[OF assms _ _ False rowp])
       (auto simp: eq none set_add_def, auto simp: index_at_def)
qed

section \<open>New relations and lists of tuples\<close>

lemma new_relation_fold:
  assumes "distinct vs" "gm_wf (vars rel)"
  shows "rows (fold new_var (enumerate n vs) rel) = rows rel \<and>
     gm_wf (vars (fold new_var (enumerate n vs) rel)) \<and>
     (\<forall>x. x \<notin> set vs \<longrightarrow> gm_get (vars (fold new_var (enumerate n vs) rel)) x = gm_get (vars rel) x) \<and>
     (\<forall>i < length vs. gm_get (vars (fold new_var (enumerate n vs) rel)) (vs ! i) = Some (n + i)) \<and>
     (\<forall>x. gm_get (multiindex (fold new_var (enumerate n vs) rel)) x =
        (if x \<in> set vs then Some [] else gm_get (multiindex rel) x))"
  using assms
proof (induction vs arbitrary: n rel)
  case (Cons v vs)
  have "gm_wf (vars (new_var (n, v) rel))" using Cons.prems(2) by (simp add: new_var_def)
  with Cons.IH[of "new_var (n, v) rel" "Suc n"] Cons.prems(1) show ?case
    by (auto simp: new_var_def nth_Cons split: nat.splits)
qed simp

lemma new_relation_spec:
  assumes "distinct vs"
  shows "rows (new_relation vs) = []" "gm_has (vars (new_relation vs)) x \<longleftrightarrow> x \<in> set vs"
    "i < length vs \<Longrightarrow> var_pos (new_relation vs) (vs ! i) = i"
    "rel_wf (new_relation vs)" "set xs \<subseteq> set vs \<Longrightarrow> index_ok xs (new_relation vs)"
proof -
  let ?r = "\<lparr>rows = [], multiindex = [], vars = [], rel_keys = vs\<rparr>"
  have f: "rows (new_relation vs) = []" "gm_wf (vars (new_relation vs))"
    "x \<notin> set vs \<Longrightarrow> gm_get (vars (new_relation vs)) x = None"
    "i < length vs \<Longrightarrow> gm_get (vars (new_relation vs)) (vs ! i) = Some i"
    "gm_get (multiindex (new_relation vs)) x = (if x \<in> set vs then Some [] else None)" for x i
    using new_relation_fold[OF assms, of ?r 0] by (simp_all add: new_relation_def)
  show rows: "rows (new_relation vs) = []" by (rule f)
  show has: "gm_has (vars (new_relation vs)) x \<longleftrightarrow> x \<in> set vs" for x
    by (metis f(3,4) gm_has_def in_set_conv_nth option.distinct(1))
  show pos: "i < length vs \<Longrightarrow> var_pos (new_relation vs) (vs ! i) = i" for i
    using f(4) by (simp add: var_pos_def)
  have "x = y" if "x \<in> set vs" "y \<in> set vs" "var_pos (new_relation vs) x = var_pos (new_relation vs) y" for x y
    using that pos by (auto simp: in_set_conv_nth)
  then show "rel_wf (new_relation vs)" using f(1,2) has by (simp add: rel_wf_def)
  show "set xs \<subseteq> set vs \<Longrightarrow> index_ok xs (new_relation vs)"
    using f(5) has rows by (auto simp: index_ok_def holding_def index_at_def)
qed

text \<open>Relations that differ by a list of tuples.\<close>

definition extends_all :: "string list \<Rightarrow> key list list \<Rightarrow> relation \<Rightarrow> relation \<Rightarrow> bool" where
  "extends_all xs tups rel rel' \<longleftrightarrow> rel_wf rel' \<and> index_ok xs rel' \<and> vars rel' = vars rel \<and>
     (\<exists>new. assigns rel' = assigns rel @ map (bind xs) new \<and> distinct new \<and>
        set new = set tups - set (tuples rel xs))"

lemma map_bind: "distinct xs \<Longrightarrow> length ks = length xs \<Longrightarrow> map (bind xs ks) xs = ks"
  by (intro nth_equalityI) (simp_all add: bind_def map_of_zip_nth)

lemma extends_all_Nil: "rel_wf rel \<Longrightarrow> index_ok xs rel \<Longrightarrow> extends_all xs [] rel rel"
  by (simp add: extends_all_def)

lemma extends_all_Cons:
  assumes "extends xs ks rel rel1" "extends_all xs tups rel1 rel2" "distinct xs" "length ks = length xs"
  shows "extends_all xs (ks # tups) rel rel2"
proof -
  from assms(2) obtain new where new: "assigns rel2 = assigns rel1 @ map (bind xs) new" "distinct new"
    "set new = set tups - set (tuples rel1 xs)" by (auto simp: extends_all_def)
  show ?thesis
  proof (cases "ks \<in> set (tuples rel xs)")
    case True
    then have "assigns rel1 = assigns rel" using assms(1) by (simp add: extends_def)
    then show ?thesis
      using assms(1,2) new True by (auto simp: extends_all_def extends_def tuples_assigns)
  next
    case False
    then have a: "assigns rel1 = assigns rel @ [bind xs ks]" using assms(1) by (simp add: extends_def)
    then have t: "tuples rel1 xs = tuples rel xs @ [ks]"
      using assms(3,4) by (simp add: tuples_assigns map_bind)
    have "assigns rel2 = assigns rel @ map (bind xs) (ks # new)" using new(1) a by simp
    moreover have "distinct (ks # new)" "set (ks # new) = set (ks # tups) - set (tuples rel xs)"
      using new(2,3) t False by auto
    moreover have "rel_wf rel2" "index_ok xs rel2" "vars rel2 = vars rel"
      using assms(1,2) by (simp_all add: extends_all_def extends_def)
    ultimately show ?thesis unfolding extends_all_def by blast
  qed
qed

lemma fold_add_tuple:
  assumes "rel_wf rel" "index_ok xs rel" "xs \<noteq> []" "distinct xs" "\<forall>ks \<in> set tups. length ks = length xs"
  shows "extends_all xs tups rel (fold (add_tuple fresh xs) tups rel)"
  using assms(1,2,5)
proof (induction tups arbitrary: rel)
  case (Cons ks tups)
  have e: "extends xs ks rel (add_tuple fresh xs ks rel)"
    using Cons.prems assms(3,4) by (simp add: add_tuple_extends)
  with Cons show ?case
    using assms(4) by (auto intro!: extends_all_Cons[OF e] simp: extends_def)
qed (simp add: extends_all_Nil)

lemma fold_add_single:
  assumes "rel_wf rel" "index_ok [x] rel"
  shows "extends_all [x] (map (\<lambda>k. [k]) ks) rel (fold (add_single fresh x) ks rel)"
  using assms
proof (induction ks arbitrary: rel)
  case (Cons k ks)
  have e: "extends [x] [k] rel (add_single fresh x k rel)"
    using Cons.prems by (simp add: add_single_extends)
  with Cons show ?case
    by (auto intro!: extends_all_Cons[OF e] simp: extends_def)
qed (simp add: extends_all_Nil)

lemma ensure_var_id: "gm_has (vars rel) x \<Longrightarrow> ensure_var x rel = rel"
  by (simp add: ensure_var_def)

lemma add1_value_spec:
  assumes "rel_wf rel" "index_ok [x] rel"
  shows "extends_all [x] (map (\<lambda>k. [k]) ks) rel (add1_value fresh x ks rel)"
  using fold_add_single[OF assms] assms by (simp add: add1_value_def ensure_var_id index_ok_def)

lemma add2_values_spec:
  assumes "rel_wf rel" "index_ok [x, y] rel" "x \<noteq> y"
  shows "extends_all [x, y] (map (\<lambda>(a, b). [a, b]) ps) rel (add2_values fresh x y ps rel)"
proof -
  have "add2_values fresh x y ps rel =
        fold (add_tuple fresh [x, y]) (map (\<lambda>(a, b). [a, b]) ps) rel"
    using assms(2) by (simp add: add2_values_def ensure_var_id index_ok_def fold_map comp_def case_prod_unfold)
  then show ?thesis using fold_add_tuple[OF assms(1,2), of "map (\<lambda>(a, b). [a, b]) ps" fresh] assms(3)
    by (auto simp: case_prod_unfold)
qed

lemma add3_values_spec:
  assumes "rel_wf rel" "index_ok [x, y, z] rel" "distinct [x, y, z]"
  shows "extends_all [x, y, z] (map (\<lambda>(a, b, c). [a, b, c]) ts) rel (add3_values fresh x y z ts rel)"
proof -
  have "add3_values fresh x y z ts rel =
        fold (add_tuple fresh [x, y, z]) (map (\<lambda>(a, b, c). [a, b, c]) ts) rel"
    using assms(2) by (simp add: add3_values_def ensure_var_id index_ok_def fold_map comp_def case_prod_unfold)
  then show ?thesis using fold_add_tuple[OF assms(1,2), of "map (\<lambda>(a, b, c). [a, b, c]) ts" fresh] assms(3)
    by (auto simp: case_prod_unfold)
qed

section \<open>Joins\<close>

text \<open>Iterating a map: every order that visits each entry once.\<close>

definition iteration :: "('a list \<Rightarrow> 'a list) \<Rightarrow> bool" where
  "iteration ord \<longleftrightarrow> (\<forall>m. set (ord m) = set m \<and> (distinct m \<longrightarrow> distinct (ord m)))"

definition merged :: "relation \<Rightarrow> (string \<Rightarrow> key) \<Rightarrow> (string \<Rightarrow> key) \<Rightarrow> string \<Rightarrow> key" where
  "merged other f g x = (if gm_has (vars other) x then g x else f x)"

definition joined_assigns :: "relation \<Rightarrow> string list \<Rightarrow> (string \<Rightarrow> key) \<Rightarrow> (string \<Rightarrow> key) list" where
  "joined_assigns other on f =
     map (merged other f) (filter (\<lambda>g. \<forall>x \<in> set on. g x = f x) (assigns other))"

lemma filter_map_nth: "map (\<lambda>j. g (xs ! j)) (filter (\<lambda>j. P (xs ! j)) [0..<length xs]) = map g (filter P xs)"
proof -
  have "filter P xs = filter P (map (nth xs) [0..<length xs])" by (simp add: map_nth)
  also have "\<dots> = map (nth xs) (filter (P \<circ> nth xs) [0..<length xs])" by (rule filter_map)
  finally show ?thesis by (simp add: comp_def)
qed

lemma join_row_val:
  assumes "rel_wf rel" "rel_wf other" "iteration ord"
    and sub: "\<And>x. gm_has (vars other) x \<Longrightarrow> gm_has (vars rel) x"
    and "row_wf r"
  shows "row_wf (join_row b ord rel other r o')"
    and "row_val rel (join_row b ord rel other r o') = merged other (row_val rel r) (row_val other o')"
proof -
  let ?vs = "ord (vars other)"
  let ?ps = "map (\<lambda>(x, i). (var_pos rel x, value_at i o')) ?vs"
  have jr: "join_row b ord rel other r o' = row_slots.fill ?ps (row_copy b r)"
    by (simp add: join_row_def row_slots.fill_def fold_map comp_def case_prod_unfold)
  have wf: "row_wf (row_copy b r)" using assms(5) by simp
  have vs: "set ?vs = set (vars other)" "distinct ?vs"
    using assms(2,3) by (auto simp: iteration_def rel_wf_def distinct_map)
  have "inj_on fst (set (vars other))" using assms(2) by (simp add: rel_wf_def distinct_map)
  moreover have "inj_on (var_pos rel) (fst ` set (vars other))"
  proof (rule inj_onI)
    fix x y
    assume "x \<in> fst ` set (vars other)" "y \<in> fst ` set (vars other)" and eq: "var_pos rel x = var_pos rel y"
    then have "gm_has (vars rel) x" "gm_has (vars rel) y" by (simp_all add: sub gm_has_iff_key[of "vars other"])
    then show "x = y" using assms(1) eq unfolding rel_wf_def by blast
  qed
  ultimately have "inj_on (var_pos rel \<circ> fst) (set ?vs)" unfolding vs(1) by (rule comp_inj_on)
  then have d: "distinct (map fst ?ps)"
    using vs(2) by (simp add: comp_def case_prod_unfold distinct_map)
  show "row_wf (join_row b ord rel other r o')" by (simp add: jr row_slots.ok_fill wf)
  show "row_val rel (join_row b ord rel other r o') = merged other (row_val rel r) (row_val other o')"
  proof
    fix x
    show "row_val rel (join_row b ord rel other r o') x = merged other (row_val rel r) (row_val other o') x"
    proof (cases "gm_has (vars other) x")
      case True
      then obtain i where i: "gm_get (vars other) x = Some i" by (auto simp: gm_has_def)
      then have "(x, i) \<in> set ?vs" using vs(1) by (simp add: map_of_SomeD)
      then have "(var_pos rel x, value_at i o') \<in> set ?ps" by force
      from row_slots.get_fill[OF wf d this] show ?thesis
        using True i sub[OF True] by (simp add: row_val_def merged_def jr var_pos_def[of other])
    next
      case False
      have "var_pos rel x \<notin> fst ` set ?ps" if "gm_has (vars rel) x"
      proof
        assume "var_pos rel x \<in> fst ` set ?ps"
        then obtain y where "y \<in> fst ` set (vars other)" "var_pos rel y = var_pos rel x"
          using vs(1) by force
        then show False using assms(1) sub False that by (metis rel_wf_def gm_has_iff_key)
      qed
      then show ?thesis
        using False wf assms(5)
        by (auto simp: row_val_def merged_def jr row_slots.get_fill_other value_at_copy)
    qed
  qed
qed

lemma matching_rows_exact:
  assumes "index_ok on other" "on \<noteq> []" "\<forall>x \<in> set on. gm_has (vars rel) x"
  shows "matching_rows rel other on r =
    filter (\<lambda>j. \<forall>x \<in> set on. row_val other (rows other ! j) x = row_val rel r x) [0..<length (rows other)]"
  using matching_exact[OF assms(1,2), of "\<lambda>x. value_at (var_pos rel x) r"] assms(3)
  by (simp add: matching_rows_def row_val_def)

lemma concat_map_enumerate: "concat (map (\<lambda>(i, r). f r) (enumerate n rs)) = concat (map f rs)"
  by (induction rs arbitrary: n) auto

lemma vars_join [simp]: "vars (join fresh ord other on rel) = vars rel"
  by (simp add: join_def)

lemma join_assigns:
  assumes "rel_wf rel" "rel_wf other" "iteration ord" "index_ok on other" "on \<noteq> []"
    and sub: "\<And>x. gm_has (vars other) x \<Longrightarrow> gm_has (vars rel) x"
  shows "assigns (join fresh ord other on rel) = concat (map (joined_assigns other on) (assigns rel))"
    and "rel_wf (join fresh ord other on rel)"
proof -
  have on: "\<forall>x \<in> set on. gm_has (vars rel) x" using assms(4) sub by (auto simp: index_ok_def)
  have wf: "row_wf r" if "r \<in> set (rows rel)" for r using that assms(1) by (simp add: rel_wf_def)
  note jr = join_row_val[OF assms(1-3) sub]
  have rv: "row_val (join fresh ord other on rel) = row_val rel"
    by (intro ext) (simp add: row_val_def var_pos_def)
  have row: "map (row_val rel) (map (\<lambda>j. join_row (fresh i j) ord rel other r (rows other ! j))
         (matching_rows rel other on r)) = joined_assigns other on (row_val rel r)" (is "?L = _")
    if "r \<in> set (rows rel)" for i r
  proof -
    have "?L = map (\<lambda>j. merged other (row_val rel r) (row_val other (rows other ! j)))
         (matching_rows rel other on r)"
      using jr(2)[OF _ wf[OF that]] by simp
    also have "\<dots> = map (\<lambda>o'. merged other (row_val rel r) (row_val other o'))
        (filter (\<lambda>o'. \<forall>x \<in> set on. row_val other o' x = row_val rel r x) (rows other))"
      unfolding matching_rows_exact[OF assms(4,5) on] by (rule filter_map_nth)
    also have "\<dots> = joined_assigns other on (row_val rel r)"
      by (simp add: joined_assigns_def assigns_def filter_map comp_def)
    finally show ?thesis .
  qed
  have "assigns (join fresh ord other on rel) =
     concat (map (\<lambda>(i, r). joined_assigns other on (row_val rel r)) (enumerate 0 (rows rel)))"
  proof -
    have "assigns (join fresh ord other on rel) = concat (map (\<lambda>(i, r). map (row_val rel)
        (map (\<lambda>j. join_row (fresh i j) ord rel other r (rows other ! j)) (matching_rows rel other on r)))
        (enumerate 0 (rows rel)))"
      unfolding assigns_def rv by (simp add: join_def map_concat comp_def case_prod_unfold)
    also have "\<dots> = concat (map (\<lambda>(i, r). joined_assigns other on (row_val rel r)) (enumerate 0 (rows rel)))"
      by (intro arg_cong[where f = concat] map_cong refl) (auto simp: in_set_enumerate_eq simp del: map_map intro!: row)
    finally show ?thesis .
  qed
  then show "assigns (join fresh ord other on rel) = concat (map (joined_assigns other on) (assigns rel))"
    by (simp add: concat_map_enumerate[of "\<lambda>r. joined_assigns other on (row_val rel r)"] assigns_def comp_def)
  have vp: "var_pos (join fresh ord other on rel) = var_pos rel" by (intro ext) (simp add: var_pos_def)
  have "row_wf r'" if r': "r' \<in> set (rows (join fresh ord other on rel))" for r'
  proof -
    from r' obtain i r j where "r \<in> set (rows rel)"
      "r' = join_row (fresh i j) ord rel other r (rows other ! j)"
      by (auto simp: join_def in_set_enumerate_eq) (metis nth_mem)
    then show ?thesis using jr(1)[OF _ wf] by simp
  qed
  then show "rel_wf (join fresh ord other on rel)" using assms(1) by (simp add: rel_wf_def vp)
qed

lemma join_assigns_iff:
  assumes "rel_wf rel" "rel_wf other" "iteration ord" "index_ok on other" "on \<noteq> []"
    and "\<And>x. gm_has (vars other) x \<Longrightarrow> gm_has (vars rel) x"
  shows "h \<in> set (assigns (join fresh ord other on rel)) \<longleftrightarrow>
     (\<exists>f \<in> set (assigns rel). \<exists>g \<in> set (assigns other).
        (\<forall>x \<in> set on. f x = g x) \<and> (\<forall>x. h x = (if gm_has (vars other) x then g x else f x)))"
proof -
  have "h \<in> set (assigns (join fresh ord other on rel)) \<longleftrightarrow>
     (\<exists>f \<in> set (assigns rel). h \<in> set (joined_assigns other on f))"
    using join_assigns(1)[OF assms, of fresh] by simp
  moreover have "h \<in> set (joined_assigns other on f) \<longleftrightarrow> (\<exists>g \<in> set (assigns other).
        (\<forall>x \<in> set on. f x = g x) \<and> (\<forall>x. h x = (if gm_has (vars other) x then g x else f x)))" for f
    unfolding joined_assigns_def merged_def[abs_def] by (simp add: image_iff fun_eq_iff eq_commute Bex_def conj_ac)
  ultimately show ?thesis by simp
qed

text \<open>
  C7: \<open>join\<close> pairs each row with exactly the rows of the other relation that agree on the join
  variables. The result takes every variable of the other relation from the other row; so it is the
  natural join only when the two relations share no variable outside the join variables.
\<close>

theorem join_correct:
  assumes "rel_wf rel" "rel_wf other" "iteration ord" "index_ok on other" "on \<noteq> []"
    and "\<And>x. gm_has (vars other) x \<Longrightarrow> gm_has (vars rel) x"
  shows "h \<in> set (assigns (join fresh ord other on rel)) \<longleftrightarrow>
     (\<exists>f \<in> set (assigns rel). \<exists>g \<in> set (assigns other).
        (\<forall>x \<in> set on. f x = g x) \<and> (\<forall>x. h x = (if gm_has (vars other) x then g x else f x)))"
  by (rule join_assigns_iff[OF assms])

text \<open>
  C23: The relation an operator builds from pairs of keys holds exactly the given pairs, each once,
  whichever rows the pool hands out, and its index finds each row.
\<close>

theorem add2_values_correct:
  assumes "x \<noteq> y"
  shows "let rel = add2_values fresh x y ps (new_relation [x, y])
     in distinct (tuples rel [x, y]) \<and> set (tuples rel [x, y]) = {[a, b] | a b. (a, b) \<in> set ps} \<and>
        (\<forall>z \<in> {x, y}. \<forall>k i. i \<in> set (case index_at rel z k of None \<Rightarrow> [] | Some bm \<Rightarrow> bm) \<longleftrightarrow>
            i < length (rows rel) \<and> row_val rel (rows rel ! i) z = k)"
proof -
  have d: "distinct [x, y]" using assms by simp
  let ?rel = "add2_values fresh x y ps (new_relation [x, y])"
  note n = new_relation_spec[OF d]
  have wf: "rel_wf (new_relation [x, y])" and ok: "index_ok [x, y] (new_relation [x, y])"
    using n(4) n(5)[of "[x, y]"] by auto
  have "assigns (new_relation [x, y]) = []" "tuples (new_relation [x, y]) [x, y] = []"
    using n(1) by (simp_all add: assigns_def tuples_def)
  with add2_values_spec[OF wf ok assms, of ps fresh] obtain new where
    new: "assigns ?rel = map (bind [x, y]) new" "distinct new"
      "set new = set (map (\<lambda>(a, b). [a, b]) ps)" and idx: "index_ok [x, y] ?rel"
    unfolding extends_all_def by auto
  have pairs: "set (map (\<lambda>(a, b). [a, b]) ps) = {[a, b] | a b. (a, b) \<in> set ps}" by force
  have "tuples ?rel [x, y] = map (\<lambda>ks. map (bind [x, y] ks) [x, y]) new"
    unfolding tuples_assigns new(1) by simp
  also have "\<dots> = map (\<lambda>ks. ks) new"
    using new(3) d by (intro map_cong refl map_bind) auto
  finally have t: "tuples ?rel [x, y] = new" by simp
  have "i \<in> set (case index_at ?rel z k of None \<Rightarrow> [] | Some bm \<Rightarrow> bm) \<longleftrightarrow>
      i < length (rows ?rel) \<and> row_val ?rel (rows ?rel ! i) z = k" if "z \<in> {x, y}" for z k i
    using index_okD[OF idx, of z k] that set_holding[of ?rel z k] by (auto split: if_splits)
  then show ?thesis unfolding Let_def t new(3)[unfolded pairs] using new(2) by blast
qed

text \<open>Two small relations on which the theorems are applied.\<close>

definition row_key :: "char \<Rightarrow> key" where
  "row_key c = Key c c c c c c c c"

definition left_rel :: relation where
  "left_rel = add2_values (\<lambda>i. i = 0) ''a'' ''b''
     [(row_key CHR ''1'', row_key CHR ''2''), (row_key CHR ''3'', row_key CHR ''4'')]
     (new_relation [''a'', ''b''])"

definition right_rel :: relation where
  "right_rel = add1_value (\<lambda>i. False) ''b'' [row_key CHR ''2''] (new_relation [''b''])"

lemma left_rel_ok: "rel_wf left_rel" "gm_has (vars left_rel) x \<longleftrightarrow> x = ''a'' \<or> x = ''b''"
  using add2_values_spec[OF new_relation_spec(4,5), of "[''a'', ''b'']" "''a''" "''b''"]
    new_relation_spec(2)[of "[''a'', ''b'']" x]
  by (auto simp: left_rel_def extends_all_def)

lemma right_rel_ok: "rel_wf right_rel" "index_ok [''b''] right_rel" "gm_has (vars right_rel) x \<longleftrightarrow> x = ''b''"
  using add1_value_spec[OF new_relation_spec(4,5), of "[''b'']" "''b''"]
    new_relation_spec(2)[of "[''b'']" x]
  by (auto simp: right_rel_def extends_all_def)

theorem join_correct_witness:
  "(\<lambda>_. empty_key) \<in> set (assigns (join (\<lambda>i j. True) rev right_rel [''b''] left_rel)) \<longleftrightarrow>
     (\<exists>f \<in> set (assigns left_rel). \<exists>g \<in> set (assigns right_rel).
        (\<forall>x \<in> set [''b'']. f x = g x) \<and>
        (\<forall>x. empty_key = (if gm_has (vars right_rel) x then g x else f x)))"
  by (rule join_correct[OF left_rel_ok(1) right_rel_ok(1) _ right_rel_ok(2)])
     (simp_all add: iteration_def right_rel_ok(3) left_rel_ok(2))

theorem add2_values_correct_witness:
  "let rel = add2_values (\<lambda>_. False) ''a'' ''b'' [(empty_key, empty_key)] (new_relation [''a'', ''b''])
   in distinct (tuples rel [''a'', ''b'']) \<and>
      set (tuples rel [''a'', ''b'']) = {[a, b] | a b. (a, b) \<in> set [(empty_key, empty_key)]} \<and>
      (\<forall>z \<in> {''a'', ''b''}. \<forall>k i.
          i \<in> set (case index_at rel z k of None \<Rightarrow> [] | Some bm \<Rightarrow> bm) \<longleftrightarrow>
          i < length (rows rel) \<and> row_val rel (rows rel ! i) z = k)"
  by (rule add2_values_correct) simp

end
