(* ===== verification/Planning.thy ===== *)
theory Planning
  imports Ast "HOL-Library.Multiset"
begin

text \<open>
  From a query to a plan: the order in which the triples of a query are evaluated (db/dependency.go)
  and the operator chosen for each (db/plan.go). The main results: what the ordering loop returns is
  a permutation of the triples in which neighbours share a variable, when it returns and when it
  does not, and that the plan has one fitting operator per triple.
\<close>

section \<open>Panics\<close>

text \<open>A nil pointer or an index out of range ends the program: \<open>Panic\<close>.\<close>

datatype 'a exec = Done 'a | Panic

section \<open>Query terms\<close>

text \<open>The field \<open>dependencies\<close> of the code stays empty and is left out.\<close>

record query_term =
  TTriple :: qtriple
  TVars :: "string list"

record dependency_graph =
  DgSelect :: "string list"
  DgVariables :: "string list"
  DgPlan :: "query_term list"

text \<open>The three places of a triple that can be variables; the predicate is the first of the path.\<close>

definition first_pred :: "qtriple \<Rightarrow> uri" where
  "first_pred t = PathPredicate (hd (QPredicates t))"

definition term_places :: "qtriple \<Rightarrow> uri list" where
  "term_places t = [QSubject t, first_pred t, QObject t]"

text \<open>\<open>Predicates[0]\<close> of a triple without a path panics.\<close>

definition make_query_term :: "qtriple \<Rightarrow> string list \<Rightarrow> (query_term \<times> string list) exec" where
  "make_query_term t variables =
     (if QPredicates t = [] then Panic
      else
        (let vs = map uri_string (filter is_variable (term_places t))
         in Done (\<lparr>TTriple = t, TVars = vs\<rparr>, fold set_add vs variables)))"

fun make_query_terms :: "qtriple list \<Rightarrow> string list \<Rightarrow> (query_term list \<times> string list) exec" where
  "make_query_terms [] variables = Done ([], variables)"
| "make_query_terms (t # ts) variables =
     (case make_query_term t variables of
        Panic \<Rightarrow> Panic
      | Done (qt, variables1) \<Rightarrow>
          (case make_query_terms ts variables1 of
             Panic \<Rightarrow> Panic
           | Done (qts, variables2) \<Rightarrow> Done (qt # qts, variables2)))"

definition term_equals :: "query_term \<Rightarrow> query_term \<Rightarrow> bool" where
  "term_equals qt qt2 =
     (QSubject (TTriple qt) = QSubject (TTriple qt2) \<and> QObject (TTriple qt) = QObject (TTriple qt2) \<and>
      QPredicates (TTriple qt) = QPredicates (TTriple qt2))"

text \<open>The number of pairs of equal variables.\<close>

definition overlap :: "query_term \<Rightarrow> query_term \<Rightarrow> nat" where
  "overlap qt other =
     sum_list (map (\<lambda>v. length (filter (\<lambda>vv. vv = v) (TVars other))) (TVars qt))"

text \<open>\<open>queryTermList.Less\<close> on the positions \<open>i\<close> and \<open>j\<close>.\<close>

definition overlap_before :: "query_term list \<Rightarrow> nat \<Rightarrow> nat \<Rightarrow> nat" where
  "overlap_before ts i j = sum_list (map (\<lambda>idx. overlap (ts ! i) (ts ! idx)) (filter (\<lambda>idx. idx \<noteq> j) [0..<i]))"

definition term_list_less :: "query_term list \<Rightarrow> nat \<Rightarrow> nat \<Rightarrow> bool" where
  "term_list_less ts i j =
     (if length (TVars (ts ! i)) = 1 then True
      else if length (TVars (ts ! j)) = 1 then False
      else overlap_before ts i j > overlap_before ts j i)"

section \<open>Ordering the terms\<close>

text \<open>The first term with the fewest variables, one at least.\<close>

definition root_index :: "query_term list \<Rightarrow> nat option" where
  "root_index ts =
     (case find_index (\<lambda>t. length (TVars t) = 1) ts of
        Some i \<Rightarrow> Some i
      | None \<Rightarrow>
          (case find_index (\<lambda>t. length (TVars t) = 2) ts of
             Some i \<Rightarrow> Some i
           | None \<Rightarrow> find_index (\<lambda>t. length (TVars t) = 3) ts))"

text \<open>
  The loop: take the first remaining term that shares a variable with the term taken last. When no
  remaining term does, the code goes round its outer loop for ever: \<open>None\<close>.
\<close>

partial_function (option) order_loop ::
    "query_term \<Rightarrow> query_term list \<Rightarrow> query_term list \<Rightarrow> query_term list option" where
  "order_loop nxt ts plan =
     (if ts = [] then Some plan
      else
        (case find_index (\<lambda>t. overlap t nxt > 0) ts of
           None \<Rightarrow> order_loop nxt ts plan
         | Some i \<Rightarrow> order_loop (ts ! i) (remove_nth i ts) (plan @ [ts ! i])))"

declare order_loop.simps [code]

definition make_dependency_graph :: "query \<Rightarrow> dependency_graph exec option" where
  "make_dependency_graph q =
     (case make_query_terms (WhereTerms (Where q)) [] of
        Panic \<Rightarrow> Some Panic
      | Done (ts, variables) \<Rightarrow>
          (case root_index ts of
             None \<Rightarrow> Some Panic
           | Some i \<Rightarrow>
               map_option (\<lambda>plan. Done \<lparr>DgSelect = SelectVars (Select q), DgVariables = variables,
                                        DgPlan = plan\<rparr>)
                 (order_loop (ts ! i) (remove_nth i ts) [ts ! i])))"

section \<open>Operators and plans\<close>

datatype operation =
    ResolveSubject (op_term: query_term)
  | ResolveObject (op_term: query_term)
  | ResolvePredicate (op_term: query_term)
  | RestrictSubjectObjectByPredicate (op_term: query_term) (parent_var: string) (child_var: string)
  | ResolveSubjectFromVarObject (op_term: query_term)
  | ResolveObjectFromVarSubject (op_term: query_term)
  | ResolveObjectFromVarSubjectPred (op_term: query_term)
  | ResolveSubjectObjectFromPred (op_term: query_term)
  | ResolveSubjectPredFromObject (op_term: query_term)
  | ResolvePredObjectFromSubject (op_term: query_term)
  | ResolveVarTripleFromSubject (op_term: query_term)
  | ResolveVarTripleFromObject (op_term: query_term)
  | ResolveVarTripleFromPredicate (op_term: query_term)
  | ResolveVarTripleAll (op_term: query_term)

record query_plan =
  operations :: "operation list"
  plan_select :: "string list"
  plan_query :: query
  plan_vars :: "(string, string) gomap"

definition RESOLVED :: string where "RESOLVED = ''RESOLVED''"
definition UNRESOLVED :: string where "UNRESOLVED = ''''"

definition new_query_plan :: "dependency_graph \<Rightarrow> query \<Rightarrow> query_plan" where
  "new_query_plan dg q =
     \<lparr>operations = [], plan_select = DgSelect dg, plan_query = q, plan_vars = []\<rparr>"

text \<open>Reading a Go map at a missing key gives the empty string.\<close>

definition plan_var :: "query_plan \<Rightarrow> string \<Rightarrow> string" where
  "plan_var qp v = (case gm_get (plan_vars qp) v of None \<Rightarrow> '''' | Some p \<Rightarrow> p)"

definition has_var :: "query_plan \<Rightarrow> string \<Rightarrow> bool" where
  "has_var qp v = (plan_var qp v \<noteq> UNRESOLVED)"

definition var_is_child :: "query_plan \<Rightarrow> string \<Rightarrow> bool" where
  "var_is_child qp v = (has_var qp v \<and> plan_var qp v \<noteq> RESOLVED)"

definition var_is_top :: "query_plan \<Rightarrow> string \<Rightarrow> bool" where
  "var_is_top qp v = (has_var qp v \<and> plan_var qp v = RESOLVED)"

definition add_top_level :: "string \<Rightarrow> query_plan \<Rightarrow> query_plan" where
  "add_top_level v qp = qp\<lparr>plan_vars := gm_put v RESOLVED (plan_vars qp)\<rparr>"

definition add_link :: "string \<Rightarrow> string \<Rightarrow> query_plan \<Rightarrow> query_plan" where
  "add_link parent child qp = qp\<lparr>plan_vars := gm_put child parent (plan_vars qp)\<rparr>"

definition top_unless_child :: "string \<Rightarrow> query_plan \<Rightarrow> query_plan" where
  "top_unless_child v qp = (if var_is_child qp v then qp else add_top_level v qp)"

text \<open>The filter on two resolved variables: which of the two becomes the parent.\<close>

definition plan_restrict ::
    "query_term \<Rightarrow> string \<Rightarrow> string \<Rightarrow> query_plan \<Rightarrow> operation \<times> query_plan" where
  "plan_restrict t subjectVar objectVar qp =
     (if var_is_child qp subjectVar then
        (RestrictSubjectObjectByPredicate t subjectVar objectVar, add_link subjectVar objectVar qp)
      else if var_is_child qp objectVar then
        (RestrictSubjectObjectByPredicate t objectVar subjectVar, add_link objectVar subjectVar qp)
      else if var_is_top qp subjectVar then
        (RestrictSubjectObjectByPredicate t subjectVar objectVar, add_link subjectVar objectVar qp)
      else if var_is_top qp objectVar then
        (RestrictSubjectObjectByPredicate t objectVar subjectVar, add_link objectVar subjectVar qp)
      else (RestrictSubjectObjectByPredicate t '''' '''', qp))"

text \<open>The \<open>switch\<close> of \<open>formQueryPlan\<close>; \<open>None\<close> is its default, an error.\<close>

definition choose_operation :: "query_term \<Rightarrow> query_plan \<Rightarrow> (operation \<times> query_plan) option" where
  "choose_operation t qp =
     (let subject = QSubject (TTriple t); object = QObject (TTriple t); predicate = first_pred (TTriple t);
          s = is_variable subject; o' = is_variable object; p = is_variable predicate;
          subjectVar = uri_string subject; objectVar = uri_string object;
          predicateVar = uri_string predicate;
          numvars = length (TVars t);
          hasS = has_var qp subjectVar; hasO = has_var qp objectVar; hasP = has_var qp predicateVar
      in if numvars = 1 \<and> s then Some (ResolveSubject t, top_unless_child subjectVar qp)
         else if numvars = 1 \<and> o' then Some (ResolveObject t, top_unless_child objectVar qp)
         else if numvars = 1 \<and> p then Some (ResolvePredicate t, top_unless_child predicateVar qp)
         else if s \<and> o' \<and> p then
           (if hasS then Some (ResolveVarTripleFromSubject t, qp)
            else if hasO then Some (ResolveVarTripleFromObject t, qp)
            else if hasP then Some (ResolveVarTripleFromPredicate t, qp)
            else Some (ResolveVarTripleAll t, qp))
         else if s \<and> o' \<and> \<not> p then
           (if hasS \<and> hasO then Some (plan_restrict t subjectVar objectVar qp)
            else if hasO then Some (ResolveSubjectFromVarObject t, add_link objectVar subjectVar qp)
            else if hasS then Some (ResolveObjectFromVarSubject t, add_link subjectVar objectVar qp)
            else Some (ResolveSubjectObjectFromPred t, add_link subjectVar objectVar qp))
         else if \<not> s \<and> \<not> o' \<and> p then Some (ResolvePredicate t, top_unless_child predicateVar qp)
         else if s \<and> \<not> o' \<and> p then
           Some (ResolveSubjectPredFromObject t, add_link subjectVar predicateVar qp)
         else if \<not> s \<and> o' \<and> p then
           Some (ResolvePredObjectFromSubject t, add_link objectVar predicateVar qp)
         else if s then Some (ResolveSubject t, top_unless_child subjectVar qp)
         else if o' then Some (ResolveObject t, top_unless_child objectVar qp)
         else None)"

fun plan_terms :: "query_term list \<Rightarrow> query_plan \<Rightarrow> query_plan res" where
  "plan_terms [] qp = Inr qp"
| "plan_terms (t # ts) qp =
     (case choose_operation t qp of
        None \<Rightarrow> Inl (Failure ''Nothing chosen'')
      | Some (newop, qp1) \<Rightarrow> plan_terms ts (qp1\<lparr>operations := operations qp1 @ [newop]\<rparr>))"

definition form_query_plan :: "dependency_graph \<Rightarrow> query \<Rightarrow> query_plan res" where
  "form_query_plan dg q = plan_terms (DgPlan dg) (new_query_plan dg q)"

section \<open>What the ordering loop returns\<close>

text \<open>The terms in the order the loop takes them, when it does not get stuck.\<close>

inductive walk :: "query_term \<Rightarrow> query_term list \<Rightarrow> query_term list \<Rightarrow> bool" where
  walk_done: "walk nxt [] []"
| walk_step: "find_index (\<lambda>t. overlap t nxt > 0) ts = Some i \<Longrightarrow> walk (ts ! i) (remove_nth i ts) order
    \<Longrightarrow> walk nxt ts (ts ! i # order)"

inductive_simps walk_Nil [simp]: "walk nxt [] order"
inductive_cases walk_ConsE: "walk nxt (t # ts) order"

lemma order_loop_walk: "walk nxt ts order \<Longrightarrow> order_loop nxt ts plan = Some (plan @ order)"
proof (induction arbitrary: plan rule: walk.induct)
  case (walk_step nxt ts i order)
  then have "ts \<noteq> []" by auto
  with walk_step show ?case by (subst order_loop.simps) simp
qed (simp add: order_loop.simps)

lemma walk_order_loop:
  assumes "order_loop nxt ts plan = Some r"
  shows "\<exists>order. walk nxt ts order \<and> r = plan @ order"
proof (rule order_loop.raw_induct[OF _ assms, where P = "\<lambda>nxt ts plan r. \<exists>order. walk nxt ts order \<and> r = plan @ order"],
    goal_cases)
  case (1 loop nxt ts plan r)
  show ?case
  proof (cases "ts = []")
    case True
    then show ?thesis using 1(2) by simp
  next
    case False
    show ?thesis
    proof (cases "find_index (\<lambda>t. overlap t nxt > 0) ts")
      case None
      then show ?thesis using 1(2) 1(1)[of nxt ts plan r] False by simp
    next
      case (Some i)
      with 1(2) False 1(1)[of "ts ! i" "remove_nth i ts" "plan @ [ts ! i]" r]
      obtain order where "walk (ts ! i) (remove_nth i ts) order" "r = plan @ ts ! i # order" by auto
      with Some show ?thesis by (auto intro: walk_step)
    qed
  qed
qed

lemma order_loop_iff: "order_loop nxt ts plan = Some r \<longleftrightarrow> (\<exists>order. walk nxt ts order \<and> r = plan @ order)"
  using order_loop_walk walk_order_loop by blast

lemma mset_remove_nth: "i < length xs \<Longrightarrow> add_mset (xs ! i) (mset (remove_nth i xs)) = mset xs"
  by (simp add: remove_nth_def) (metis id_take_nth_drop mset.simps(2) mset_append union_mset_add_mset_right)

lemma walk_mset: "walk nxt ts order \<Longrightarrow> mset order = mset ts"
proof (induction rule: walk.induct)
  case (walk_step nxt ts i order)
  then show ?case using mset_remove_nth[of i ts] by (auto dest: find_index_Some)
qed simp

lemma walk_chain: "walk nxt ts order \<Longrightarrow> successively (\<lambda>a b. overlap b a > 0) (nxt # order)"
proof (induction rule: walk.induct)
  case (walk_step nxt ts i order)
  then show ?case by (auto dest: find_index_Some)
qed simp

text \<open>Terms that all contain one variable never get stuck.\<close>

lemma overlap_common:
  assumes "v \<in> set (TVars a)" "v \<in> set (TVars b)"
  shows "overlap a b > 0"
proof -
  have "filter (\<lambda>vv. vv = v) (TVars b) \<noteq> []" using assms(2) by (auto simp: filter_empty_conv)
  then have "length (filter (\<lambda>vv. vv = v) (TVars b)) > 0" by simp
  moreover have "length (filter (\<lambda>vv. vv = v) (TVars b)) \<le> overlap a b"
    unfolding overlap_def using assms(1) by (intro member_le_sum_list) auto
  ultimately show ?thesis by linarith
qed

lemma walk_common:
  assumes "\<forall>t \<in> set (nxt # ts). v \<in> set (TVars t)"
  shows "\<exists>order. walk nxt ts order"
  using assms
proof (induction "length ts" arbitrary: nxt ts)
  case (Suc n)
  then obtain t ts' where ts: "ts = t # ts'" by (cases ts) auto
  have "overlap t nxt > 0" using Suc.prems ts by (intro overlap_common) auto
  then have f: "find_index (\<lambda>t. overlap t nxt > 0) ts = Some 0" using ts by simp
  have "n = length (remove_nth 0 ts)" "\<forall>u \<in> set (ts ! 0 # remove_nth 0 ts). v \<in> set (TVars u)"
    using Suc ts by (auto simp: remove_nth_def)
  then obtain order where "walk (ts ! 0) (remove_nth 0 ts) order" using Suc.hyps(1) by blast
  then show ?case using walk_step[OF f] by blast
qed auto

section \<open>What the plan contains\<close>

definition term_wf :: "query_term \<Rightarrow> bool" where
  "term_wf t \<longleftrightarrow> TVars t = map uri_string (filter is_variable (term_places (TTriple t)))"

lemma make_query_terms_Done:
  assumes "make_query_terms ts variables = Done (qts, variables')"
  shows "map TTriple qts = ts \<and> list_all term_wf qts"
  using assms
proof (induction ts arbitrary: variables qts variables')
  case (Cons t ts)
  then show ?case
    by (auto simp: make_query_term_def term_wf_def Let_def split: exec.splits if_splits prod.splits)
qed simp

lemma root_index_Some: "root_index ts = Some i \<Longrightarrow> i < length ts"
  by (auto simp: root_index_def dest: find_index_Some split: option.splits)

text \<open>The places an operator treats as variables: subject, predicate, object.\<close>

fun op_places :: "operation \<Rightarrow> bool list" where
  "op_places (ResolveSubject t) = [True, False, False]"
| "op_places (ResolveObject t) = [False, False, True]"
| "op_places (ResolvePredicate t) = [False, True, False]"
| "op_places (RestrictSubjectObjectByPredicate t p c) = [True, False, True]"
| "op_places (ResolveSubjectFromVarObject t) = [True, False, True]"
| "op_places (ResolveObjectFromVarSubject t) = [True, False, True]"
| "op_places (ResolveObjectFromVarSubjectPred t) = [True, True, False]"
| "op_places (ResolveSubjectObjectFromPred t) = [True, False, True]"
| "op_places (ResolveSubjectPredFromObject t) = [True, True, False]"
| "op_places (ResolvePredObjectFromSubject t) = [False, True, True]"
| "op_places (ResolveVarTripleFromSubject t) = [True, True, True]"
| "op_places (ResolveVarTripleFromObject t) = [True, True, True]"
| "op_places (ResolveVarTripleFromPredicate t) = [True, True, True]"
| "op_places (ResolveVarTripleAll t) = [True, True, True]"

definition op_fits :: "operation \<Rightarrow> bool" where
  "op_fits op \<longleftrightarrow> op_places op = map is_variable (term_places (TTriple (op_term op)))"

lemma choose_operation_fits:
  assumes "term_wf t" "choose_operation t qp = Some (op, qp')"
  shows "op_term op = t" "op_fits op" "operations qp' = operations qp"
proof -
  have n: "length (TVars t) = (if is_variable (QSubject (TTriple t)) then 1 else 0) +
      (if is_variable (first_pred (TTriple t)) then 1 else 0) + (if is_variable (QObject (TTriple t)) then 1 else 0)"
    using assms(1) by (simp add: term_wf_def term_places_def)
  show "op_term op = t" "op_fits op" "operations qp' = operations qp"
    using assms(2) unfolding choose_operation_def plan_restrict_def n
    by (auto simp: Let_def op_fits_def term_places_def top_unless_child_def add_top_level_def add_link_def
        split: if_splits)
qed

text \<open>
  The variables that an operator starts from have to be bound by the operators before it: \<open>bound_before\<close>,
  with the variables bound so far.
\<close>

fun op_needs :: "operation \<Rightarrow> string set" where
  "op_needs (RestrictSubjectObjectByPredicate t _ _) =
     {uri_string (QSubject (TTriple t)), uri_string (QObject (TTriple t))}"
| "op_needs (ResolveSubjectFromVarObject t) = {uri_string (QObject (TTriple t))}"
| "op_needs (ResolveObjectFromVarSubject t) = {uri_string (QSubject (TTriple t))}"
| "op_needs (ResolveVarTripleFromSubject t) = {uri_string (QSubject (TTriple t))}"
| "op_needs (ResolveVarTripleFromObject t) = {uri_string (QObject (TTriple t))}"
| "op_needs (ResolveVarTripleFromPredicate t) = {uri_string (first_pred (TTriple t))}"
| "op_needs _ = {}"

definition triple_places_vars :: "qtriple \<Rightarrow> string set" where
  "triple_places_vars t = uri_string ` {u \<in> {QSubject t, first_pred t, QObject t}. is_variable u}"

fun bound_before :: "string set \<Rightarrow> operation list \<Rightarrow> bool" where
  "bound_before V [] = True"
| "bound_before V (op # ops) =
     (op_needs op \<subseteq> V \<and> bound_before (V \<union> triple_places_vars (TTriple (op_term op))) ops)"

definition planned :: "query_plan \<Rightarrow> string set" where
  "planned qp = fst ` set (plan_vars qp)"

lemma has_var_planned: "has_var qp x \<Longrightarrow> x \<in> planned qp"
  by (auto simp: planned_def has_var_def plan_var_def UNRESOLVED_def image_iff split: option.splits
      dest!: map_of_SomeD)
     (metis fst_conv)

lemma planned_add:
  "planned (add_link x y qp) = insert y (planned qp)"
  "planned (top_unless_child x qp) \<subseteq> insert x (planned qp)"
  by (auto simp: planned_def add_link_def top_unless_child_def add_top_level_def fst_set_gm_put)

lemma planned_operations [simp]: "planned (qp\<lparr>operations := ops\<rparr>) = planned qp"
  by (simp add: planned_def)

lemma choose_operation_bound:
  assumes "choose_operation t qp = Some (op, qp')"
  shows "op_needs op \<subseteq> planned qp" "planned qp' \<subseteq> planned qp \<union> triple_places_vars (TTriple t)"
  using assms unfolding choose_operation_def plan_restrict_def Let_def
  by (auto simp: triple_places_vars_def has_var_planned planned_add split: if_splits
      dest: subsetD[OF planned_add(2)])

lemma bound_before_mono: "bound_before V ops \<Longrightarrow> V \<subseteq> W \<Longrightarrow> bound_before W ops"
proof (induction ops arbitrary: V W)
  case (Cons op ops)
  then show ?case using Cons.IH[OF _ Un_mono[OF Cons.prems(2) subset_refl]] by auto
qed simp

lemma plan_terms_bound:
  "plan_terms ts qp = Inr qp' \<Longrightarrow> list_all term_wf ts \<Longrightarrow>
     \<exists>new. operations qp' = operations qp @ new \<and> bound_before (planned qp) new"
proof (induction ts arbitrary: qp)
  case (Cons t ts)
  then obtain op qp1 where c: "choose_operation t qp = Some (op, qp1)"
    "plan_terms ts (qp1\<lparr>operations := operations qp1 @ [op]\<rparr>) = Inr qp'"
    by (auto split: option.splits)
  have fits: "op_term op = t" "operations qp1 = operations qp" using choose_operation_fits[OF _ c(1)] Cons.prems(2) by auto
  obtain new where new: "operations qp' = operations qp @ op # new" "bound_before (planned qp1) new"
    using Cons.IH[OF c(2)] Cons.prems(2) fits by auto
  then have "bound_before (planned qp) (op # new)"
    using choose_operation_bound[OF c(1)] fits bound_before_mono by auto
  with new show ?case by blast
qed simp

lemma choose_operation_None:
  assumes "term_wf t"
  shows "choose_operation t qp = None \<longleftrightarrow> TVars t = []"
  using assms unfolding term_wf_def term_places_def choose_operation_def Let_def by auto

lemma plan_terms_Inr:
  assumes "plan_terms ts qp = Inr qp'" "list_all term_wf ts"
  shows "\<exists>ops. operations qp' = operations qp @ ops \<and> map op_term ops = ts \<and> list_all op_fits ops"
  using assms
proof (induction ts arbitrary: qp)
  case (Cons t ts)
  then obtain op qp1 where c: "choose_operation t qp = Some (op, qp1)"
    and r: "plan_terms ts (qp1\<lparr>operations := operations qp1 @ [op]\<rparr>) = Inr qp'"
    by (auto split: option.splits)
  note f = choose_operation_fits[OF _ c]
  from Cons.IH[OF r] Cons.prems(2) f show ?case by force
qed simp

lemma plan_terms_returns:
  assumes "list_all term_wf ts"
  shows "(\<exists>qp'. plan_terms ts qp = Inr qp') \<longleftrightarrow> (\<forall>t \<in> set ts. TVars t \<noteq> [])"
  using assms
proof (induction ts arbitrary: qp)
  case (Cons t ts)
  then show ?case
    using choose_operation_None[of t qp] by (cases "choose_operation t qp") auto
qed simp

section \<open>Whole queries\<close>

lemma make_dependency_graph_Done:
  assumes "make_dependency_graph q = Some (Done dg)"
  obtains qts i order where "map TTriple qts = WhereTerms (Where q)" "list_all term_wf qts" "i < length qts"
    "walk (qts ! i) (remove_nth i qts) order" "DgPlan dg = qts ! i # order"
    "DgSelect dg = SelectVars (Select q)"
proof -
  obtain qts vs where ts: "make_query_terms (WhereTerms (Where q)) [] = Done (qts, vs)"
    using assms unfolding make_dependency_graph_def by (auto split: exec.splits prod.splits)
  then obtain i where i: "root_index qts = Some i"
    using assms by (auto simp: make_dependency_graph_def split: option.splits)
  from assms ts i obtain plan where plan: "order_loop (qts ! i) (remove_nth i qts) [qts ! i] = Some plan"
    "dg = \<lparr>DgSelect = SelectVars (Select q), DgVariables = vs, DgPlan = plan\<rparr>"
    by (auto simp: make_dependency_graph_def)
  then obtain order where "walk (qts ! i) (remove_nth i qts) order" "plan = qts ! i # order"
    by (auto simp: order_loop_iff)
  with make_query_terms_Done[OF ts] root_index_Some[OF i] plan(2) show thesis by (intro that[of qts i]) auto
qed

lemma dependency_graph_mset:
  assumes "make_dependency_graph q = Some (Done dg)"
  shows "mset (map TTriple (DgPlan dg)) = mset (WhereTerms (Where q))" "list_all term_wf (DgPlan dg)"
proof -
  from assms obtain qts i order where q: "map TTriple qts = WhereTerms (Where q)" "list_all term_wf qts"
    "i < length qts" "walk (qts ! i) (remove_nth i qts) order" "DgPlan dg = qts ! i # order"
    by (rule make_dependency_graph_Done)
  then have m: "mset (DgPlan dg) = mset qts"
    using mset_remove_nth[of i qts] by (simp add: walk_mset)
  then show "mset (map TTriple (DgPlan dg)) = mset (WhereTerms (Where q))"
    by (simp flip: q(1))
  show "list_all term_wf (DgPlan dg)"
    using q(2) mset_eq_setD[OF m] by (simp add: list_all_iff)
qed

text \<open>
  C22: The dependency graph orders the triples of a query: every triple occurs exactly as often as in
  the query, and each after the first shares a variable with the one just before it.
\<close>

theorem dependency_graph_order:
  assumes "make_dependency_graph q = Some (Done dg)"
  shows "mset (map TTriple (DgPlan dg)) = mset (WhereTerms (Where q)) \<and>
     successively (\<lambda>a b. set (TVars a) \<inter> set (TVars b) \<noteq> {}) (DgPlan dg)"
proof -
  from assms obtain qts i order where q: "walk (qts ! i) (remove_nth i qts) order"
    "DgPlan dg = qts ! i # order" by (rule make_dependency_graph_Done)
  have "set (TVars a) \<inter> set (TVars b) \<noteq> {}" if "overlap b a > 0" for a b
  proof (rule ccontr)
    assume "\<not> ?thesis"
    then have "filter (\<lambda>vv. vv = v) (TVars a) = []" if "v \<in> set (TVars b)" for v
      using that by (auto simp: filter_empty_conv)
    then have "overlap b a = 0" by (simp add: overlap_def)
    with that show False by simp
  qed
  with walk_chain[OF q(1)] have "successively (\<lambda>a b. set (TVars a) \<inter> set (TVars b) \<noteq> {}) (DgPlan dg)"
    unfolding q(2) by (rule successively_mono)
  then show ?thesis using dependency_graph_mset(1)[OF assms] by simp
qed

text \<open>
  C11: A plan has exactly one operator for each triple of the query, each operator is one for the places of
  its triple that are variables, and the variables it starts from occur in the triples of the operators
  before it.
\<close>

theorem plan_covers_query:
  assumes "make_dependency_graph q = Some (Done dg)" "form_query_plan dg q = Inr qp"
  shows "mset (map (TTriple \<circ> op_term) (operations qp)) = mset (WhereTerms (Where q)) \<and>
     list_all (\<lambda>op. op_places op = map is_variable (term_places (TTriple (op_term op)))) (operations qp) \<and>
     bound_before {} (operations qp)"
proof -
  obtain new where "operations qp = new" "bound_before {} new"
    using plan_terms_bound[OF assms(2)[unfolded form_query_plan_def] dependency_graph_mset(2)[OF assms(1)]]
    by (auto simp: new_query_plan_def planned_def)
  moreover from plan_terms_Inr[OF assms(2)[unfolded form_query_plan_def] dependency_graph_mset(2)[OF assms(1)]]
  have "map op_term (operations qp) = DgPlan dg" "list_all op_fits (operations qp)"
    by (auto simp: new_query_plan_def)
  ultimately show ?thesis
    using dependency_graph_mset(1)[OF assms(1)] by (auto simp: list_all_iff op_fits_def simp flip: map_map)
qed

text \<open>
  C32: A query whose triples all contain one common variable gets a dependency graph and a plan: the
  ordering loop returns and no triple is without an operator.
\<close>

theorem common_variable_plans:
  assumes "WhereTerms (Where q) \<noteq> []"
    and "\<And>t. t \<in> set (WhereTerms (Where q)) \<Longrightarrow>
        QPredicates t \<noteq> [] \<and> v \<in> uri_string ` set (filter is_variable (term_places t))"
  shows "\<exists>dg qp. make_dependency_graph q = Some (Done dg) \<and> form_query_plan dg q = Inr qp"
proof -
  have "\<exists>qts vs'. make_query_terms ts vs = Done (qts, vs')"
    if "\<forall>t \<in> set ts. QPredicates t \<noteq> []" for ts vs
    using that
  proof (induction ts arbitrary: vs)
    case (Cons t ts)
    then obtain qt vs1 where "make_query_term t vs = Done (qt, vs1)"
      by (simp add: make_query_term_def Let_def)
    moreover obtain qts vs' where "make_query_terms ts vs1 = Done (qts, vs')"
      using Cons.IH[of vs1] Cons.prems by auto
    ultimately show ?case by simp
  qed simp
  then obtain qts vs where ts: "make_query_terms (WhereTerms (Where q)) [] = Done (qts, vs)"
    using assms(2) by blast
  note qts = make_query_terms_Done[OF ts]
  have v: "v \<in> set (TVars t)" if "t \<in> set qts" for t
  proof -
    have "TTriple t \<in> set (WhereTerms (Where q))" using that qts by (metis image_eqI list.set_map)
    then show ?thesis using assms(2) qts that by (auto simp: list_all_iff term_wf_def)
  qed
  have "qts \<noteq> []" using assms(1) qts by auto
  then obtain t0 where t0: "t0 \<in> set qts" by (cases qts) auto
  have len: "length (TVars t0) \<in> {1, 2, 3}"
  proof -
    have "length (TVars t0) \<le> 3"
      using qts t0 length_filter_le[of is_variable "term_places (TTriple t0)"]
      by (simp add: list_all_iff term_wf_def term_places_def)
    moreover have "length (TVars t0) > 0" using v[OF t0] by (cases "TVars t0") auto
    ultimately have "length (TVars t0) = 1 \<or> length (TVars t0) = 2 \<or> length (TVars t0) = 3" by linarith
    then show ?thesis by auto
  qed
  have "root_index qts \<noteq> None"
  proof
    assume "root_index qts = None"
    then have "length (TVars t0) \<notin> {1, 2, 3}"
      using t0 by (auto simp: root_index_def find_index_None split: option.splits)
    with len show False by simp
  qed
  then obtain i where i: "root_index qts = Some i" by auto
  have "\<forall>t \<in> set (qts ! i # remove_nth i qts). v \<in> set (TVars t)"
    using v root_index_Some[OF i] by (auto simp: remove_nth_def dest: in_set_takeD in_set_dropD)
  then obtain order where "walk (qts ! i) (remove_nth i qts) order" using walk_common by blast
  then obtain dg where dg: "make_dependency_graph q = Some (Done dg)" "DgPlan dg = qts ! i # order"
    using ts i by (auto simp: make_dependency_graph_def order_loop_walk)
  have "\<forall>t \<in> set (DgPlan dg). TVars t \<noteq> []"
  proof
    fix t assume "t \<in> set (DgPlan dg)"
    then have "TTriple t \<in> set (WhereTerms (Where q))" "term_wf t"
      using dependency_graph_mset[OF dg(1)]
      by (metis image_eqI list.set_map mset_eq_setD, simp add: list_all_iff)
    then show "TVars t \<noteq> []" using assms(2)[of "TTriple t"] by (auto simp: term_wf_def filter_empty_conv)
  qed
  then obtain qp where "form_query_plan dg q = Inr qp"
    using plan_terms_returns[OF dependency_graph_mset(2)[OF dg(1)]] unfolding form_query_plan_def by blast
  with dg(1) show ?thesis by blast
qed

section \<open>Example queries\<close>

definition var_uri :: "string \<Rightarrow> uri" where
  "var_uri s = mkURI '''' (CHR ''?'' # s)"

definition const_uri :: "string \<Rightarrow> uri" where
  "const_uri s = mkURI ''n'' s"

definition step_triple :: "uri \<Rightarrow> string \<Rightarrow> uri \<Rightarrow> qtriple" where
  "step_triple s p o' =
     \<lparr>QSubject = s, QPredicates = [\<lparr>PathPredicate = const_uri p, PathMod = PATTERN_SINGLE\<rparr>], QObject = o'\<rparr>"

text \<open>\<open>SELECT vs WHERE { ts }\<close>.\<close>

definition select_where :: "string list \<Rightarrow> qtriple list \<Rightarrow> query" where
  "select_where vs ts =
     new_query id (new_select_clause vs) \<lparr>WhereTerms = ts, WhereGroup = None\<rparr> False"

definition plan_of :: "query \<Rightarrow> query_plan res exec option" where
  "plan_of q =
     (case make_dependency_graph q of
        None \<Rightarrow> None
      | Some Panic \<Rightarrow> Some Panic
      | Some (Done dg) \<Rightarrow> Some (Done (form_query_plan dg q)))"

definition chain_query :: query where
  "chain_query = select_where [''?x''] [step_triple (var_uri ''x'') ''q'' (var_uri ''y''),
     step_triple (var_uri ''x'') ''p'' (const_uri ''o'')]"

definition chain_graph :: dependency_graph where
  "chain_graph = (case make_dependency_graph chain_query of Some (Done dg) \<Rightarrow> dg | _ \<Rightarrow> undefined)"

definition chain_plan :: query_plan where
  "chain_plan = projr (form_query_plan chain_graph chain_query)"

lemma chain_query_plans:
  "make_dependency_graph chain_query = Some (Done chain_graph)"
  "form_query_plan chain_graph chain_query = Inr chain_plan"
  by code_simp+

theorem dependency_graph_order_witness:
  "mset (map TTriple (DgPlan chain_graph)) = mset (WhereTerms (Where chain_query)) \<and>
   successively (\<lambda>a b. set (TVars a) \<inter> set (TVars b) \<noteq> {}) (DgPlan chain_graph)"
  by (rule dependency_graph_order[OF chain_query_plans(1)])

theorem plan_covers_query_witness:
  "mset (map (TTriple \<circ> op_term) (operations chain_plan)) = mset (WhereTerms (Where chain_query)) \<and>
   list_all (\<lambda>op. op_places op = map is_variable (term_places (TTriple (op_term op)))) (operations chain_plan) \<and>
   bound_before {} (operations chain_plan)"
  by (rule plan_covers_query[OF chain_query_plans])

theorem common_variable_plans_witness:
  "\<exists>dg qp. make_dependency_graph chain_query = Some (Done dg) \<and> form_query_plan dg chain_query = Inr qp"
proof (rule common_variable_plans[where v = "''?x''"])
  show "WhereTerms (Where chain_query) \<noteq> []" by code_simp
  have "list_all (\<lambda>t. QPredicates t \<noteq> [] \<and>
      list_ex (\<lambda>u. uri_string u = ''?x'') (filter is_variable (term_places t))) (WhereTerms (Where chain_query))"
    by code_simp
  then show "QPredicates t \<noteq> [] \<and> ''?x'' \<in> uri_string ` set (filter is_variable (term_places t))"
    if "t \<in> set (WhereTerms (Where chain_query))" for t
    using that by (simp add: list_all_iff list_ex_iff image_iff Bex_def eq_commute)
qed

lemma walk_stuck: "ts \<noteq> [] \<Longrightarrow> \<forall>t \<in> set ts. overlap t nxt = 0 \<Longrightarrow> \<not> walk nxt ts order"
proof
  assume ts: "ts \<noteq> []" "\<forall>t \<in> set ts. overlap t nxt = 0" and "walk nxt ts order"
  from \<open>walk nxt ts order\<close> show False
  proof cases
    case (walk_step i order')
    then show False using ts(2) find_index_Some[OF walk_step(2)] by auto
  qed (simp add: ts(1))
qed

definition fork_terms :: "qtriple list" where
  "fork_terms = [step_triple (var_uri ''x'') ''p'' (const_uri ''o''),
     step_triple (var_uri ''x'') ''q'' (var_uri ''y''), step_triple (var_uri ''y'') ''r'' (var_uri ''w''),
     step_triple (var_uri ''x'') ''s'' (var_uri ''z'')]"

definition fork_order :: "query_term list" where
  "fork_order =
     (case make_query_terms fork_terms [] of Done (ts, _) \<Rightarrow> ts | Panic \<Rightarrow> [])"

lemma fork_overlap:
  "overlap (fork_order ! 1) (fork_order ! 0) > 0" "overlap (fork_order ! 2) (fork_order ! 1) > 0"
  "overlap (fork_order ! 3) (fork_order ! 2) = 0"
  by code_simp+

lemma order_loop_step:
  "overlap t nxt > 0 \<Longrightarrow> order_loop nxt (t # ts) plan = order_loop t ts (plan @ [t])"
  by (subst order_loop.simps) (simp add: remove_nth_def)

text \<open>
  C33: The query \<open>?x p o . ?x q ?y . ?y r ?w . ?x s ?z\<close> never gets a plan, although its triples are
  connected: after \<open>?y r ?w\<close> the loop looks for a triple with \<open>?y\<close> or \<open>?w\<close>, finds none, and goes round
  for ever. With the last triple moved to the second place the query gets a plan.
\<close>

theorem connected_query_hangs:
  "make_dependency_graph (select_where [''?x''] fork_terms) = None \<and>
   plan_of (select_where [''?x'']
     [fork_terms ! 0, fork_terms ! 3, fork_terms ! 1, fork_terms ! 2]) \<noteq> None"
proof
  let ?t = "\<lambda>i. fork_order ! i"
  obtain vs where ts: "make_query_terms fork_terms [] = Done ([?t 0, ?t 1, ?t 2, ?t 3], vs)"
    by (rule that) code_simp
  have root: "root_index [?t 0, ?t 1, ?t 2, ?t 3] = Some 0" by code_simp
  have "order_loop (?t 0) [?t 1, ?t 2, ?t 3] [?t 0] = order_loop (?t 2) [?t 3] [?t 0, ?t 1, ?t 2]"
    using fork_overlap(1,2) by (simp add: order_loop_step)
  also have "\<dots> = None"
    using walk_stuck[of "[?t 3]" "?t 2"] fork_overlap(3) order_loop_iff[of "?t 2" "[?t 3]"]
    by (cases "order_loop (?t 2) [?t 3] [?t 0, ?t 1, ?t 2]") auto
  finally have "order_loop (?t 0) [?t 1, ?t 2, ?t 3] [?t 0] = None" .
  moreover have "WhereTerms (Where (select_where [''?x''] fork_terms)) = fork_terms" by code_simp
  ultimately show "make_dependency_graph (select_where [''?x''] fork_terms) = None"
    using ts root by (simp add: make_dependency_graph_def remove_nth_def)
  show "plan_of (select_where [''?x'']
     [fork_terms ! 0, fork_terms ! 3, fork_terms ! 1, fork_terms ! 2]) \<noteq> None"
    by code_simp
qed

end
