(* ===== verification/Engine.thy ===== *)
theory Engine
  imports Relations Planning Traversal
begin

text \<open>
  The query engine: the context a query runs in (db/context.go, db/keymap.go), the operators of a
  plan (db/operators.go), the result rows, and the evaluation of a whole query (db/db_api.go). Go's
  choices (the order of map iteration, the rows the pool hands out) are the record \<open>runtime\<close>.
\<close>

section \<open>Key maps\<close>

text \<open>A \<open>keymap\<close> is a set of keys, a list without repetitions.\<close>

definition keymap_add :: "key \<Rightarrow> key list \<Rightarrow> key list" where
  "keymap_add k m = set_add k m"

definition keymap_has :: "key list \<Rightarrow> key \<Rightarrow> bool" where
  "keymap_has m k = (k \<in> set m)"

definition keymap_len :: "key list \<Rightarrow> nat" where
  "keymap_len m = length m"

definition keymap_delete :: "key \<Rightarrow> key list \<Rightarrow> key list" where
  "keymap_delete k m = filter (\<lambda>k'. k' \<noteq> k) m"

section \<open>The context of a query\<close>

record runtime =
  iter_keys :: "key list \<Rightarrow> key list"
  iter_vars :: "(string \<times> nat) list \<Rightarrow> (string \<times> nat) list"
  iter_edges :: "edge_map \<Rightarrow> edge_map"
  pool_new :: "nat \<Rightarrow> bool"
  pool_copy :: "nat \<Rightarrow> nat \<Rightarrow> bool"

record query_context =
  variablePosition :: "(string, nat) gomap"
  ctxSelect :: "string list"
  definitions :: "(string, key list) gomap"
  rel :: relation
  joined :: "string list"
  ctx_view :: view
  ctx_predIndex :: "(uri, predicate_entity) gomap"

definition new_query_context ::
    "query_plan \<Rightarrow> view \<Rightarrow> (uri, predicate_entity) gomap \<Rightarrow> query_context" where
  "new_query_context plan v pidx =
     \<lparr>variablePosition = fold (\<lambda>(idx, x). gm_put x idx) (enumerate 0 (Variables (plan_query plan))) [],
      ctxSelect = plan_select plan, definitions = [], rel = new_relation (Variables (plan_query plan)),
      joined = [], ctx_view = v, ctx_predIndex = pidx\<rparr>"

definition cardinality_unique :: "query_context \<Rightarrow> string \<Rightarrow> nat" where
  "cardinality_unique ctx x =
     (case gm_get (definitions ctx) x of None \<Rightarrow> 0 | Some tree \<Rightarrow> keymap_len tree)"

definition has_joined :: "query_context \<Rightarrow> string \<Rightarrow> bool" where
  "has_joined ctx x = (x \<in> set (joined ctx))"

definition valid_value :: "query_context \<Rightarrow> string \<Rightarrow> key \<Rightarrow> bool" where
  "valid_value ctx x value =
     (case gm_get (definitions ctx) x of None \<Rightarrow> True | Some tree \<Rightarrow> keymap_has tree value)"

definition mark_joined :: "string \<Rightarrow> query_context \<Rightarrow> query_context" where
  "mark_joined x ctx = ctx\<lparr>joined := set_add x (joined ctx)\<rparr>"

definition get_values_for_variable :: "query_context \<Rightarrow> string \<Rightarrow> key list" where
  "get_values_for_variable ctx x =
     (case gm_get (definitions ctx) x of None \<Rightarrow> [] | Some tree \<Rightarrow> tree)"

definition define_variable :: "string \<Rightarrow> key list \<Rightarrow> query_context \<Rightarrow> query_context" where
  "define_variable x values ctx =
     (if keymap_len (get_values_for_variable ctx x) = 0
      then ctx\<lparr>definitions := gm_put x values (definitions ctx)\<rparr> else ctx)"

definition defined :: "query_context \<Rightarrow> string \<Rightarrow> bool" where
  "defined ctx x = gm_has (definitions ctx) x"

text \<open>Only the values that the variable may still have; all of them when it is not defined.\<close>

definition restrict_to_resolved :: "query_context \<Rightarrow> string \<Rightarrow> key list \<Rightarrow> key list" where
  "restrict_to_resolved ctx x values =
     (case gm_get (definitions ctx) x of
        None \<Rightarrow> values
      | Some tree \<Rightarrow> fold keymap_delete (filter (\<lambda>k. \<not> keymap_has tree k) values) values)"

definition union_definitions :: "string \<Rightarrow> key list \<Rightarrow> query_context \<Rightarrow> query_context" where
  "union_definitions x values ctx =
     ctx\<lparr>definitions := gm_put x (restrict_to_resolved ctx x values) (definitions ctx)\<rparr>"

definition join_rel :: "runtime \<Rightarrow> relation \<Rightarrow> string list \<Rightarrow> query_context \<Rightarrow> query_context" where
  "join_rel rt other on ctx =
     ctx\<lparr>rel := join (pool_copy rt) (iter_vars rt) other on (rel ctx)\<rparr>"

section \<open>Operators for one variable\<close>

text \<open>
  The end of the three operators that bind one variable: the first values go into the relation,
  later ones restrict it. A nil key map makes \<open>add1Value\<close> panic; the callers do that.
\<close>

definition bind_or_join :: "runtime \<Rightarrow> string \<Rightarrow> key list \<Rightarrow> query_context \<Rightarrow> query_context" where
  "bind_or_join rt x values ctx =
     (if \<not> defined ctx x then
        (let ctx1 = define_variable x values ctx
         in ctx1\<lparr>rel := add1_value (pool_new rt) x (iter_keys rt values) (rel ctx1)\<rparr>)
      else
        (let values1 = restrict_to_resolved ctx x values;
             ctx1 = union_definitions x values ctx;
             newrel = add1_value (pool_new rt) x (iter_keys rt values1) (new_relation [x])
         in join_rel rt newrel [x] ctx1))"

text \<open>
  \<open>err != nil && err != leveldb.ErrNotFound\<close> wraps the error, \<open>ErrNotFound\<close> ends the operator
  without one.
\<close>

definition or_not_found :: "'a res \<Rightarrow> query_context \<Rightarrow> ('a \<Rightarrow> query_context res exec)
    \<Rightarrow> query_context res exec" where
  "or_not_found r ctx f =
     (case r of
        Inl e \<Rightarrow> if e = LdbNotFound then Done (Inr ctx) else Done (Inl (Wrapped e))
      | Inr x \<Rightarrow> f x)"

definition run_resolve_subject :: "runtime \<Rightarrow> qtriple \<Rightarrow> query_context \<Rightarrow> query_context res exec" where
  "run_resolve_subject rt t ctx =
     or_not_found (vw_hash (ctx_view ctx) (QObject t)) ctx (\<lambda>object.
       case get_subject_from_pred_object (ctx_view ctx) (iter_keys rt) object (QPredicates t) of
         None \<Rightarrow> Panic
       | Some (Inl e) \<Rightarrow> Done (Inl e)
       | Some (Inr subjects) \<Rightarrow> Done (Inr (bind_or_join rt (uri_string (QSubject t)) subjects ctx)))"

definition run_resolve_object :: "runtime \<Rightarrow> qtriple \<Rightarrow> query_context \<Rightarrow> query_context res exec" where
  "run_resolve_object rt t ctx =
     or_not_found (vw_hash (ctx_view ctx) (QSubject t)) ctx (\<lambda>subject.
       case get_object_from_subject_pred (ctx_view ctx) (iter_keys rt) subject (QPredicates t) of
         None \<Rightarrow> Panic
       | Some objects \<Rightarrow> Done (Inr (bind_or_join rt (uri_string (QObject t)) objects ctx)))"

definition run_resolve_predicate :: "runtime \<Rightarrow> qtriple \<Rightarrow> query_context \<Rightarrow> query_context res exec" where
  "run_resolve_predicate rt t ctx =
     or_not_found (get_entity_by_uri (ctx_view ctx) (QSubject t)) ctx (\<lambda>subject.
     or_not_found (get_entity_by_uri (ctx_view ctx) (QObject t)) ctx (\<lambda>object.
       Done (Inr (bind_or_join rt (uri_string (first_pred t))
         (get_predicate_from_subject_object subject object) ctx))))"

section \<open>Operators for two variables\<close>

text \<open>
  A loop over a key map whose body appends to a list or records an error in \<open>itererr\<close>: it goes on
  after an error, so the last one stays.
\<close>

fun collect :: "('k \<Rightarrow> 'b list res exec) \<Rightarrow> 'k list \<Rightarrow> 'b list res exec" where
  "collect f [] = Done (Inr [])"
| "collect f (k # ks) =
     (case f k of
        Panic \<Rightarrow> Panic
      | Done r \<Rightarrow>
          (case collect f ks of
             Panic \<Rightarrow> Panic
           | Done (Inl e) \<Rightarrow> Done (Inl e)
           | Done (Inr bs) \<Rightarrow> Done (bind_res r (\<lambda>b. Inr (b @ bs)))))"

definition objects_of ::
    "runtime \<Rightarrow> query_context \<Rightarrow> path_pattern list \<Rightarrow> string \<Rightarrow> key \<Rightarrow> (key \<times> key) list res exec" where
  "objects_of rt ctx path objectVar subject =
     (case get_object_from_subject_pred (ctx_view ctx) (iter_keys rt) subject path of
        None \<Rightarrow> Panic
      | Some objects \<Rightarrow>
          Done (Inr (map (Pair subject) (iter_keys rt (restrict_to_resolved ctx objectVar objects)))))"

definition subjects_of ::
    "runtime \<Rightarrow> query_context \<Rightarrow> path_pattern list \<Rightarrow> string \<Rightarrow> key \<Rightarrow> (key \<times> key) list res exec" where
  "subjects_of rt ctx path subjectVar object =
     (case get_subject_from_pred_object (ctx_view ctx) (iter_keys rt) object path of
        None \<Rightarrow> Panic
      | Some (Inl e) \<Rightarrow> Done (Inl e)
      | Some (Inr subjects) \<Rightarrow>
          Done (Inr (map (Pair object) (iter_keys rt (restrict_to_resolved ctx subjectVar subjects)))))"

definition all_objects_of ::
    "runtime \<Rightarrow> query_context \<Rightarrow> qtriple \<Rightarrow> (key \<times> key) list res exec" where
  "all_objects_of rt ctx t =
     collect (objects_of rt ctx (QPredicates t) (uri_string (QObject t)))
       (iter_keys rt (get_values_for_variable ctx (uri_string (QSubject t))))"

definition all_subjects_of ::
    "runtime \<Rightarrow> query_context \<Rightarrow> qtriple \<Rightarrow> (key \<times> key) list res exec" where
  "all_subjects_of rt ctx t =
     collect (subjects_of rt ctx (QPredicates t) (uri_string (QSubject t)))
       (iter_keys rt (get_values_for_variable ctx (uri_string (QObject t))))"

text \<open>Join the pairs \<open>(x, y)\<close> on \<open>x\<close>.\<close>

definition join_pairs ::
    "runtime \<Rightarrow> string \<Rightarrow> string \<Rightarrow> (key \<times> key) list \<Rightarrow> string list \<Rightarrow> query_context \<Rightarrow> query_context" where
  "join_pairs rt x y ps on ctx =
     join_rel rt (add2_values (pool_new rt) x y ps (new_relation [x, y])) on ctx"

definition exec_res :: "'a res exec \<Rightarrow> ('a \<Rightarrow> query_context res exec) \<Rightarrow> query_context res exec" where
  "exec_res r f = (case r of Panic \<Rightarrow> Panic | Done (Inl e) \<Rightarrow> Done (Inl e) | Done (Inr x) \<Rightarrow> f x)"

definition run_restrict :: "runtime \<Rightarrow> qtriple \<Rightarrow> query_context \<Rightarrow> query_context res exec" where
  "run_restrict rt t ctx =
     (let subjectVar = uri_string (QSubject t); objectVar = uri_string (QObject t);
          finish = (\<lambda>c. Done (Inr (mark_joined objectVar (mark_joined subjectVar c))));
          from_subjects = exec_res (all_objects_of rt ctx t) (\<lambda>ps.
            finish (join_pairs rt subjectVar objectVar ps [subjectVar] ctx));
          from_objects = exec_res (all_subjects_of rt ctx t) (\<lambda>ps.
            finish (join_pairs rt objectVar subjectVar ps [objectVar] ctx))
      in if has_joined ctx subjectVar then from_subjects
         else if has_joined ctx objectVar then from_objects
         else if cardinality_unique ctx subjectVar < cardinality_unique ctx objectVar then from_subjects
         else from_objects)"

definition run_subject_from_var_object ::
    "runtime \<Rightarrow> qtriple \<Rightarrow> query_context \<Rightarrow> query_context res exec" where
  "run_subject_from_var_object rt t ctx =
     (let subjectVar = uri_string (QSubject t); objectVar = uri_string (QObject t)
      in exec_res (all_subjects_of rt ctx t) (\<lambda>ps.
           let newSubjects = fold keymap_add (map snd ps) [];
               ctx1 = join_pairs rt objectVar subjectVar ps [objectVar] ctx
           in Done (Inr (union_definitions subjectVar newSubjects
                (mark_joined objectVar (mark_joined subjectVar ctx1))))))"

definition run_object_from_var_subject ::
    "runtime \<Rightarrow> qtriple \<Rightarrow> query_context \<Rightarrow> query_context res exec" where
  "run_object_from_var_subject rt t ctx =
     (let subjectVar = uri_string (QSubject t); objectVar = uri_string (QObject t)
      in exec_res (all_objects_of rt ctx t) (\<lambda>ps.
           let newObjects = fold keymap_add (map snd ps) [];
               ctx1 = join_pairs rt subjectVar objectVar ps [subjectVar] ctx
           in Done (Inr (union_definitions objectVar newObjects
                (mark_joined objectVar (mark_joined subjectVar ctx1))))))"

definition run_subject_object_from_pred ::
    "runtime \<Rightarrow> qtriple \<Rightarrow> query_context \<Rightarrow> query_context res exec" where
  "run_subject_object_from_pred rt t ctx =
     (let subjectVar = uri_string (QSubject t); objectVar = uri_string (QObject t)
      in case get_subject_object_from_pred (ctx_view ctx) (QPredicates t) of
           None \<Rightarrow> Panic
         | Some (Inl e) \<Rightarrow> Done (Inl e)
         | Some (Inr subsobjs) \<Rightarrow>
             (let ctx1 =
                (if defined ctx subjectVar \<or> has_joined ctx subjectVar then
                   join_pairs rt subjectVar objectVar subsobjs [subjectVar] ctx
                 else if defined ctx objectVar \<or> has_joined ctx objectVar then
                   join_pairs rt subjectVar objectVar subsobjs [objectVar] ctx
                 else ctx\<lparr>rel := add2_values (pool_new rt) subjectVar objectVar subsobjs (rel ctx)\<rparr>)
              in Done (Inr (mark_joined objectVar (mark_joined subjectVar ctx1)))))"

text \<open>
  \<open>?s ?p o\<close> and \<open>s ?p ?o\<close>: for each predicate of the known entity that is still valid, the other ends.
  An error of the loop makes the first operator return the nil \<open>err\<close> of the enclosing scope, so it
  returns with nothing done; the second returns the error.
\<close>

definition preds_subjects ::
    "runtime \<Rightarrow> query_context \<Rightarrow> string \<Rightarrow> string \<Rightarrow> entity \<Rightarrow> key \<Rightarrow> (key \<times> key) list res exec" where
  "preds_subjects rt ctx subjectVar predicateVar object predicate =
     (if \<not> valid_value ctx predicateVar predicate then Done (Inr [])
      else
        (case vw_uri (ctx_view ctx) predicate of
           Inl e \<Rightarrow> Done (Inl e)
         | Inr pred \<Rightarrow>
             (case get_subject_from_pred_object (ctx_view ctx) (iter_keys rt) (PK object)
                     [\<lparr>PathPredicate = pred, PathMod = PATTERN_SINGLE\<rparr>] of
                None \<Rightarrow> Panic
              | Some (Inl e) \<Rightarrow> Done (Inl e)
              | Some (Inr subjects) \<Rightarrow>
                  Done (Inr (map (\<lambda>subject. (subject, predicate))
                    (filter (valid_value ctx subjectVar) (iter_keys rt subjects)))))))"

definition run_subject_pred_from_object ::
    "runtime \<Rightarrow> qtriple \<Rightarrow> query_context \<Rightarrow> query_context res exec" where
  "run_subject_pred_from_object rt t ctx =
     (let subjectVar = uri_string (QSubject t); predicateVar = uri_string (first_pred t)
      in or_not_found (get_entity_by_uri (ctx_view ctx) (QObject t)) ctx (\<lambda>object.
           case collect (preds_subjects rt ctx subjectVar predicateVar object)
                  (iter_keys rt (get_predicates_from_object object)) of
             Panic \<Rightarrow> Panic
           | Done (Inl e) \<Rightarrow> Done (Inr ctx)
           | Done (Inr ps) \<Rightarrow>
               (let ctx1 =
                  (if defined ctx subjectVar then
                     join_pairs rt subjectVar predicateVar ps [subjectVar] ctx
                   else if defined ctx predicateVar then
                     join_pairs rt subjectVar predicateVar ps [predicateVar] ctx
                   else ctx\<lparr>rel := add2_values (pool_new rt) subjectVar predicateVar ps (rel ctx)\<rparr>)
                in Done (Inr (define_variable subjectVar [] (define_variable predicateVar [] ctx1))))))"

definition preds_objects ::
    "runtime \<Rightarrow> query_context \<Rightarrow> string \<Rightarrow> string \<Rightarrow> entity \<Rightarrow> key \<Rightarrow> (key \<times> key) list res exec" where
  "preds_objects rt ctx predicateVar objectVar subject predicate =
     (if \<not> valid_value ctx predicateVar predicate then Done (Inr [])
      else
        (case vw_uri (ctx_view ctx) predicate of
           Inl e \<Rightarrow> Done (Inl e)
         | Inr pred \<Rightarrow>
             (case get_object_from_subject_pred (ctx_view ctx) (iter_keys rt) (PK subject)
                     [\<lparr>PathPredicate = pred, PathMod = PATTERN_SINGLE\<rparr>] of
                None \<Rightarrow> Panic
              | Some objects \<Rightarrow>
                  Done (Inr (map (Pair predicate)
                    (filter (valid_value ctx objectVar) (iter_keys rt objects)))))))"

definition run_pred_object_from_subject ::
    "runtime \<Rightarrow> qtriple \<Rightarrow> query_context \<Rightarrow> query_context res exec" where
  "run_pred_object_from_subject rt t ctx =
     (let objectVar = uri_string (QObject t); predicateVar = uri_string (first_pred t)
      in or_not_found (get_entity_by_uri (ctx_view ctx) (QSubject t)) ctx (\<lambda>subject.
           exec_res (collect (preds_objects rt ctx predicateVar objectVar subject)
                  (iter_keys rt (get_predicates_from_subject subject))) (\<lambda>ps.
             let ctx1 =
                  (if has_joined ctx predicateVar then
                     join_pairs rt predicateVar objectVar ps [predicateVar] ctx
                   else if has_joined ctx objectVar then
                     join_rel rt (add2_values (pool_new rt) predicateVar objectVar ps
                       (new_relation [objectVar, predicateVar])) [objectVar] ctx
                   else define_variable objectVar [] (define_variable predicateVar []
                     (ctx\<lparr>rel := add2_values (pool_new rt) predicateVar objectVar ps (rel ctx)\<rparr>)))
             in Done (Inr (mark_joined objectVar (mark_joined predicateVar ctx1))))))"

section \<open>Operators for three variables\<close>

text \<open>\<open>definitions[x]\<close> of a variable that is not defined is nil, and iterating it panics.\<close>

definition definition_of :: "query_context \<Rightarrow> string \<Rightarrow> key list exec" where
  "definition_of ctx x = (case gm_get (definitions ctx) x of None \<Rightarrow> Panic | Some tree \<Rightarrow> Done tree)"

text \<open>
  The triples of one entity; the key of the predicate is one variable that every edge overwrites.
\<close>

fun edge_triples :: "key \<Rightarrow> key \<Rightarrow> edge_map \<Rightarrow> (key \<times> key \<times> key) list" where
  "edge_triples pk predKey [] = []"
| "edge_triples pk predKey ((edge, ends) # es) =
     (let predKey1 = from_slice predKey edge
      in map (\<lambda>k. (pk, predKey1, k)) ends @ edge_triples pk predKey1 es)"

text \<open>An entity that cannot be read is logged and skipped.\<close>

definition entity_triples :: "runtime \<Rightarrow> dir \<Rightarrow> query_context \<Rightarrow> key \<Rightarrow> (key \<times> key \<times> key) list" where
  "entity_triples rt d ctx k =
     (case get_entity_by_hash (ctx_view ctx) k of
        Inl e \<Rightarrow> []
      | Inr e \<Rightarrow> edge_triples (PK e) empty_key (iter_edges rt (dir_edges d e)))"

definition join_triples ::
    "runtime \<Rightarrow> string \<Rightarrow> string \<Rightarrow> string \<Rightarrow> (key \<times> key \<times> key) list \<Rightarrow> qtriple
      \<Rightarrow> query_context \<Rightarrow> query_context" where
  "join_triples rt x y z ts t ctx =
     mark_joined (uri_string (QObject t)) (mark_joined (uri_string (first_pred t))
       (mark_joined (uri_string (QSubject t))
         (join_rel rt (add3_values (pool_new rt) x y z ts (new_relation [x, y, z])) [x] ctx)))"

definition run_var_triple_from_subject ::
    "runtime \<Rightarrow> qtriple \<Rightarrow> query_context \<Rightarrow> query_context res exec" where
  "run_var_triple_from_subject rt t ctx =
     (let subjectVar = uri_string (QSubject t); objectVar = uri_string (QObject t);
          predicateVar = uri_string (first_pred t)
      in case definition_of ctx subjectVar of
           Panic \<Rightarrow> Panic
         | Done subjects \<Rightarrow>
             Done (Inr (join_triples rt subjectVar predicateVar objectVar
               (concat (map (entity_triples rt FromSubject ctx) (iter_keys rt subjects))) t ctx)))"

definition run_var_triple_from_object ::
    "runtime \<Rightarrow> qtriple \<Rightarrow> query_context \<Rightarrow> query_context res exec" where
  "run_var_triple_from_object rt t ctx =
     (let subjectVar = uri_string (QSubject t); objectVar = uri_string (QObject t);
          predicateVar = uri_string (first_pred t)
      in case definition_of ctx objectVar of
           Panic \<Rightarrow> Panic
         | Done objects \<Rightarrow>
             Done (Inr (join_triples rt objectVar predicateVar subjectVar
               (concat (map (entity_triples rt FromObject ctx) (iter_keys rt objects))) t ctx)))"

text \<open>
  The predicate index of the database object; \<open>predIndex[uri]\<close> of a missing predicate is nil and
  reading its field panics. The subject key is one variable that every entry overwrites.
\<close>

fun subject_triples :: "key \<Rightarrow> key \<Rightarrow> pair_map \<Rightarrow> (key \<times> key \<times> key) list" where
  "subject_triples pk subjectKey [] = []"
| "subject_triples pk subjectKey ((s, objs) # es) =
     (let subjectKey1 = from_slice subjectKey s
      in map (\<lambda>(o', _). (pk, subjectKey1, from_slice empty_key o')) objs @ subject_triples pk subjectKey1 es)"

definition predicate_triples :: "query_context \<Rightarrow> key \<Rightarrow> (key \<times> key \<times> key) list res exec" where
  "predicate_triples ctx predicateKey =
     (case vw_uri (ctx_view ctx) predicateKey of
        Inl e \<Rightarrow> Done (Inl e)
      | Inr u \<Rightarrow>
          (case gm_get (ctx_predIndex ctx) u of
             None \<Rightarrow> Panic
           | Some predicate \<Rightarrow> Done (Inr (subject_triples predicateKey empty_key (Subjects predicate)))))"

definition run_var_triple_from_predicate ::
    "runtime \<Rightarrow> qtriple \<Rightarrow> query_context \<Rightarrow> query_context res exec" where
  "run_var_triple_from_predicate rt t ctx =
     (let subjectVar = uri_string (QSubject t); objectVar = uri_string (QObject t);
          predicateVar = uri_string (first_pred t)
      in case definition_of ctx predicateVar of
           Panic \<Rightarrow> Panic
         | Done predicates \<Rightarrow>
             exec_res (collect (predicate_triples ctx) (iter_keys rt predicates)) (\<lambda>ts.
               Done (Inr (join_triples rt predicateVar subjectVar objectVar ts t (mark_joined predicateVar ctx)))))"

definition run_var_triple_all ::
    "runtime \<Rightarrow> qtriple \<Rightarrow> query_context \<Rightarrow> query_context res exec" where
  "run_var_triple_all rt t ctx =
     (let subjectVar = uri_string (QSubject t); objectVar = uri_string (QObject t);
          predicateVar = uri_string (first_pred t);
          relation = add3_values (pool_new rt) subjectVar predicateVar objectVar
            (all_edges (ctx_view ctx)) (new_relation [subjectVar, predicateVar, objectVar])
      in if rows (rel ctx) \<noteq> [] then Panic
         else Done (Inr (mark_joined objectVar (mark_joined predicateVar (mark_joined subjectVar
                (ctx\<lparr>rel := relation\<rparr>))))))"

section \<open>Running a plan\<close>

fun run_operation :: "runtime \<Rightarrow> operation \<Rightarrow> query_context \<Rightarrow> query_context res exec" where
  "run_operation rt (ResolveSubject t) ctx = run_resolve_subject rt (TTriple t) ctx"
| "run_operation rt (ResolveObject t) ctx = run_resolve_object rt (TTriple t) ctx"
| "run_operation rt (ResolvePredicate t) ctx = run_resolve_predicate rt (TTriple t) ctx"
| "run_operation rt (RestrictSubjectObjectByPredicate t p c) ctx = run_restrict rt (TTriple t) ctx"
| "run_operation rt (ResolveSubjectFromVarObject t) ctx = run_subject_from_var_object rt (TTriple t) ctx"
| "run_operation rt (ResolveObjectFromVarSubject t) ctx = run_object_from_var_subject rt (TTriple t) ctx"
| "run_operation rt (ResolveObjectFromVarSubjectPred t) ctx = Done (Inr ctx)"
| "run_operation rt (ResolveSubjectObjectFromPred t) ctx = run_subject_object_from_pred rt (TTriple t) ctx"
| "run_operation rt (ResolveSubjectPredFromObject t) ctx = run_subject_pred_from_object rt (TTriple t) ctx"
| "run_operation rt (ResolvePredObjectFromSubject t) ctx = run_pred_object_from_subject rt (TTriple t) ctx"
| "run_operation rt (ResolveVarTripleFromSubject t) ctx = run_var_triple_from_subject rt (TTriple t) ctx"
| "run_operation rt (ResolveVarTripleFromObject t) ctx = run_var_triple_from_object rt (TTriple t) ctx"
| "run_operation rt (ResolveVarTripleFromPredicate t) ctx = run_var_triple_from_predicate rt (TTriple t) ctx"
| "run_operation rt (ResolveVarTripleAll t) ctx = run_var_triple_all rt (TTriple t) ctx"

fun run_operations :: "runtime \<Rightarrow> operation list \<Rightarrow> query_context \<Rightarrow> query_context res exec" where
  "run_operations rt [] ctx = Done (Inr ctx)"
| "run_operations rt (op # ops) ctx = exec_res (run_operation rt op ctx) (run_operations rt ops)"

text \<open>\<open>executeQueryPlan\<close> on a snapshot that could be taken.\<close>

definition execute_query_plan ::
    "runtime \<Rightarrow> view \<Rightarrow> (uri, predicate_entity) gomap \<Rightarrow> query_plan \<Rightarrow> query_context res exec" where
  "execute_query_plan rt v pidx plan = run_operations rt (operations plan) (new_query_context plan v pidx)"

section \<open>Result rows\<close>

text \<open>
  \<open>hashRowWithPos\<close> slices the content of the row at each position, which panics when the row is too
  short; a row never has spare capacity beyond its length.
\<close>

definition row_slices :: "row \<Rightarrow> nat list \<Rightarrow> bytes exec" where
  "row_slices row positions =
     (if \<exists>pos \<in> set positions. pos * 8 + 8 > length (content row) then Panic
      else Done (concat (map (\<lambda>pos. take 8 (drop (pos * 8) (content row))) positions)))"

definition hash_row_with_pos :: "(bytes \<Rightarrow> u32) \<Rightarrow> row \<Rightarrow> nat list \<Rightarrow> u32 exec" where
  "hash_row_with_pos hf row positions =
     (case row_slices row positions of Panic \<Rightarrow> Panic | Done b \<Rightarrow> Done (hf b))"

text \<open>A result row of the pool has sixteen columns.\<close>

definition result_columns :: nat where "result_columns = 16"

text \<open>
  The columns of one row: \<open>None\<close> when a selected variable is not bound, which drops the row; a
  column beyond the sixteenth and a key without a URI panic.
\<close>

fun result_row :: "view \<Rightarrow> row \<Rightarrow> nat \<Rightarrow> nat list \<Rightarrow> uri list option exec" where
  "result_row v row idx [] = Done (Some [])"
| "result_row v row idx (pos # ps) =
     (if value_at pos row = empty_key then Done None
      else if idx \<ge> result_columns then Panic
      else
        (case vw_uri v (value_at pos row) of
           Inl e \<Rightarrow> Panic
         | Inr u \<Rightarrow>
             (case result_row v row (Suc idx) ps of
                Panic \<Rightarrow> Panic
              | Done r \<Rightarrow> Done (map_option (Cons u) r))))"

fun result_rows ::
    "(bytes \<Rightarrow> u32) \<Rightarrow> view \<Rightarrow> nat list \<Rightarrow> row list \<Rightarrow> u32 list \<Rightarrow> uri list list exec" where
  "result_rows hf v positions [] jtest = Done []"
| "result_rows hf v positions (row # rs) jtest =
     (case hash_row_with_pos hf row positions of
        Panic \<Rightarrow> Panic
      | Done hash \<Rightarrow>
          if hash \<in> set jtest then result_rows hf v positions rs jtest
          else
            (case result_row v row 0 positions of
               Panic \<Rightarrow> Panic
             | Done None \<Rightarrow> result_rows hf v positions rs (hash # jtest)
             | Done (Some r) \<Rightarrow>
                 (case result_rows hf v positions rs (hash # jtest) of
                    Panic \<Rightarrow> Panic
                  | Done res \<Rightarrow> Done (r # res))))"

definition var_position :: "query_context \<Rightarrow> string \<Rightarrow> nat" where
  "var_position ctx x = (case gm_get (variablePosition ctx) x of None \<Rightarrow> 0 | Some p \<Rightarrow> p)"

definition get_results :: "(bytes \<Rightarrow> u32) \<Rightarrow> query_context \<Rightarrow> uri list list exec" where
  "get_results hf ctx =
     result_rows hf (ctx_view ctx) (map (var_position ctx) (ctxSelect ctx)) (rows (rel ctx)) []"

section \<open>Whole queries\<close>

definition get_query_results ::
    "(bytes \<Rightarrow> u32) \<Rightarrow> runtime \<Rightarrow> view \<Rightarrow> (uri, predicate_entity) gomap \<Rightarrow> query
      \<Rightarrow> uri list list res exec option" where
  "get_query_results hf rt v pidx q =
     (case make_dependency_graph q of
        None \<Rightarrow> None
      | Some Panic \<Rightarrow> Some Panic
      | Some (Done dg) \<Rightarrow>
          (case form_query_plan dg q of
             Inl e \<Rightarrow> Some (Done (Inl e))
           | Inr qp \<Rightarrow>
               (case execute_query_plan rt v pidx qp of
                  Panic \<Rightarrow> Some Panic
                | Done (Inl e) \<Rightarrow> Some (Done (Inl e))
                | Done (Inr ctx) \<Rightarrow>
                    (case get_results hf ctx of
                       Panic \<Rightarrow> Some Panic
                     | Done res \<Rightarrow> Some (Done (Inr res))))))"

text \<open>\<open>expand\<close>: a prefix of the database is replaced by its namespace.\<close>

definition expand :: "(string, string) gomap \<Rightarrow> uri \<Rightarrow> uri" where
  "expand namespaces u =
     (if \<not> has_prefix (Value u) ''?'' then
        (case gm_get namespaces (Namespace u) of
           None \<Rightarrow> u | Some full \<Rightarrow> u\<lparr>Namespace := full\<rparr>)
      else u)"

definition expand_triple :: "(string, string) gomap \<Rightarrow> qtriple \<Rightarrow> qtriple" where
  "expand_triple namespaces t =
     t\<lparr>QSubject := expand namespaces (QSubject t), QObject := expand namespaces (QObject t),
       QPredicates := map (\<lambda>pp. pp\<lparr>PathPredicate := expand namespaces (PathPredicate pp)\<rparr>) (QPredicates t)\<rparr>"

text \<open>
  \<open>abbreviate\<close>: the first prefix, in the order of the map's iteration, with the URI's namespace.
\<close>

fun abbreviate :: "(string \<times> string) list \<Rightarrow> uri \<Rightarrow> string" where
  "abbreviate [] u = ''''"
| "abbreviate ((abbv, ns) # nss) u =
     (if abbv \<noteq> '''' \<and> ns = Namespace u then abbv @ '':'' @ Value u else abbreviate nss u)"

text \<open>
  The branches of the unions run in parallel; a branch that does not return keeps the whole query
  waiting, a panic ends the program, and after an error the last one is returned.
\<close>

fun merge_branches :: "uri list list res exec option list \<Rightarrow> uri list list res exec option" where
  "merge_branches [] = Some (Done (Inr []))"
| "merge_branches (b # bs) =
     (case (b, merge_branches bs) of
        (Some Panic, _) \<Rightarrow> Some Panic
      | (_, Some Panic) \<Rightarrow> Some Panic
      | (None, _) \<Rightarrow> None
      | (_, None) \<Rightarrow> None
      | (_, Some (Done (Inl e))) \<Rightarrow> Some (Done (Inl e))
      | (Some (Done (Inl e)), _) \<Rightarrow> Some (Done (Inl e))
      | (Some (Done (Inr r)), Some (Done (Inr rs))) \<Rightarrow> Some (Done (Inr (r @ rs))))"

definition branch_query :: "(string list \<Rightarrow> string list) \<Rightarrow> query \<Rightarrow> qtriple list \<Rightarrow> query" where
  "branch_query ord q alt =
     (let tmp = populate_vars ord (copy_with_new_terms q alt)
      in if AllVars (Select tmp) then tmp\<lparr>Select := (Select tmp)\<lparr>SelectVars := Variables tmp\<rparr>\<rparr> else tmp)"

definition query_branches :: "query \<Rightarrow> qtriple list list" where
  "query_branches q =
     (case WhereGroup (Where q) of
        None \<Rightarrow> []
      | Some g \<Rightarrow> map (\<lambda>alt. WhereTerms (Where q) @ alt) (expand_group g))"

text \<open>\<open>runQuery\<close>; \<open>finished\<close> is the order in which the branches finish.\<close>

definition run_query ::
    "(bytes \<Rightarrow> u32) \<Rightarrow> runtime \<Rightarrow> (string list \<Rightarrow> string list) \<Rightarrow> (qtriple list list \<Rightarrow> qtriple list list)
      \<Rightarrow> (string, string) gomap \<Rightarrow> view \<Rightarrow> (uri, predicate_entity) gomap \<Rightarrow> query
      \<Rightarrow> uri list list res exec option" where
  "run_query hf rt ord finished namespaces v pidx q0 =
     (let q = iter_triples (expand_triple namespaces) q0;
          ors = query_branches q
      in if ors \<noteq> [] then
           merge_branches (map (\<lambda>alt. get_query_results hf rt v pidx (branch_query ord q alt)) (finished ors))
         else get_query_results hf rt v pidx q)"

end
