(* ===== verification/EngineCorrect.thy ===== *)
theory EngineCorrect
  imports Engine TraversalCorrect
begin

text \<open>
  The answers of tree-shaped queries. A plan is tree-shaped when each operator after the first binds
  one new variable from a bound one, or restricts a bound variable by a constant. The engine's
  relation then holds exactly the solutions of the query's triples, and the result rows are exactly
  their projections.
\<close>

section \<open>Solutions\<close>

definition in_graph :: "view \<Rightarrow> key \<Rightarrow> bool" where
  "in_graph v k \<longleftrightarrow> gm_get (vw_graph v) k \<noteq> None"

definition place_val :: "view \<Rightarrow> (string \<Rightarrow> key) \<Rightarrow> uri \<Rightarrow> key option" where
  "place_val v f u =
     (if is_variable u then Some (f (uri_string u))
      else case vw_hash v u of Inl e \<Rightarrow> None | Inr k \<Rightarrow> Some k)"

definition term_holds :: "view \<Rightarrow> (string \<Rightarrow> key) \<Rightarrow> qtriple \<Rightarrow> bool" where
  "term_holds v f t \<longleftrightarrow> (\<exists>s o'. place_val v f (QSubject t) = Some s \<and> place_val v f (QObject t) = Some o' \<and>
     in_graph v s \<and> in_graph v o' \<and> (s, o') \<in> path_rel FromSubject v (QPredicates t))"

definition ends_vars :: "qtriple \<Rightarrow> string set" where
  "ends_vars t = uri_string ` {u \<in> {QSubject t, QObject t}. is_variable u}"

text \<open>Assignments that satisfy every triple and bind nothing else.\<close>

definition solutions :: "view \<Rightarrow> string set \<Rightarrow> qtriple list \<Rightarrow> (string \<Rightarrow> key) set" where
  "solutions v V ts = {f. (\<forall>t \<in> set ts. term_holds v f t) \<and> (\<forall>x. x \<notin> V \<longrightarrow> f x = empty_key)}"

section \<open>What the engine relies on\<close>

definition fine :: "view \<Rightarrow> runtime \<Rightarrow> bool" where
  "fine v rt \<longleftrightarrow> view_ok FromSubject v \<and> view_ok FromObject v \<and> edges_converse v \<and>
     \<not> in_graph v empty_key \<and> (\<forall>ks. set (iter_keys rt ks) = set ks) \<and> iteration (iter_vars rt)"

definition path_fine :: "path_pattern list \<Rightarrow> bool" where
  "path_fine path \<longleftrightarrow> path \<noteq> [] \<and> (even (length path) \<or> length path = 1)"

lemma path_rel_in_graph:
  "view_ok d v \<Longrightarrow> in_graph v a \<Longrightarrow> (a, b) \<in> path_rel d v path \<Longrightarrow> in_graph v b"
  unfolding in_graph_def
proof (induction path arbitrary: a)
  case (Cons seg path)
  from Cons.prems(3) obtain c where c: "(a, c) \<in> segment_rel d v seg" "(c, b) \<in> path_rel d v path"
    by auto
  show ?case
    by (rule Cons.IH[OF Cons.prems(1) segment_rel_in_graph[OF Cons.prems(1,2) c(1)] c(2)])
qed simp

lemma objects_set:
  assumes "fine v rt" "path \<noteq> []" "in_graph v k"
  shows "\<exists>ks. get_object_from_subject_pred v (iter_keys rt) k path = Some ks \<and>
     set ks = {o'. (k, o') \<in> path_rel FromSubject v path} \<and> (\<forall>o' \<in> set ks. in_graph v o')"
proof -
  obtain ks where "get_object_from_subject_pred v (iter_keys rt) k path = Some ks"
    "set ks = path_rel FromSubject v path `` {k}"
    using get_object_from_subject_pred_set[of v "iter_keys rt" path k] assms
    by (auto simp: fine_def in_graph_def)
  then show ?thesis using assms path_rel_in_graph[of FromSubject v k] by (auto simp: fine_def)
qed

lemma subjects_set:
  assumes "fine v rt" "path_fine path" "in_graph v k"
  shows "\<exists>ks. get_subject_from_pred_object v (iter_keys rt) k path = Some (Inr ks) \<and>
     set ks = {s. (s, k) \<in> path_rel FromSubject v path} \<and> (\<forall>s \<in> set ks. in_graph v s)"
proof -
  have conv: "path_rel FromObject v (reverse_path path) = (path_rel FromSubject v path)\<inverse>"
    using assms by (auto simp: fine_def path_fine_def reverse_path_even path_rel_converse)
  obtain ks where "get_subject_from_pred_object v (iter_keys rt) k path = Some (Inr ks)"
    "set ks = path_rel FromObject v (reverse_path path) `` {k}"
    using get_subject_from_pred_object_set[of v "iter_keys rt" path k] assms
    by (auto simp: fine_def in_graph_def path_fine_def)
  then show ?thesis
    using assms path_rel_in_graph[of FromObject v k _ "reverse_path path"] conv by (auto simp: fine_def)
qed

lemma set_keymap_deletes: "set (fold keymap_delete ds ks) = set ks - set ds"
  by (induction ds arbitrary: ks) (auto simp: keymap_delete_def)

lemma set_restrict_to_resolved:
  "set (restrict_to_resolved ctx x values) =
     (case gm_get (definitions ctx) x of None \<Rightarrow> set values | Some tree \<Rightarrow> set values \<inter> set tree)"
  by (auto simp: restrict_to_resolved_def set_keymap_deletes keymap_has_def split: option.splits)

section \<open>Joining one or two variables\<close>

lemma bind_single: "bind [x] [k] = (\<lambda>_. empty_key)(x := k)"
  by (auto simp: bind_def)

lemma bind_pair: "x \<noteq> y \<Longrightarrow> bind [x, y] [a, b] = (\<lambda>_. empty_key)(x := a, y := b)"
  by (auto simp: bind_def)

lemma single_relation:
  assumes r_def: "r = add1_value fresh x ks (new_relation [x])"
  shows "rel_wf r" "index_ok [x] r" "gm_has (vars r) z \<longleftrightarrow> z = x"
    "set (assigns r) = {bind [x] [k] | k. k \<in> set ks}"
proof -
  have d: "distinct [x]" by simp
  have empty: "assigns (new_relation [x]) = []" "tuples (new_relation [x]) [x] = []"
    by (simp_all add: assigns_def tuples_def new_relation_spec(1))
  have "extends_all [x] (map (\<lambda>k. [k]) ks) (new_relation [x]) r"
    unfolding r_def using new_relation_spec(4,5)[OF d] by (intro add1_value_spec) auto
  then show "rel_wf r" "index_ok [x] r" "gm_has (vars r) z \<longleftrightarrow> z = x"
    "set (assigns r) = {bind [x] [k] | k. k \<in> set ks}"
    using empty new_relation_spec(2)[OF d] by (auto simp: extends_all_def)
qed

lemma pair_relation:
  assumes "x \<noteq> y" and r_def: "r = add2_values fresh x y ps (new_relation [x, y])"
  shows "rel_wf r" "index_ok [x, y] r" "gm_has (vars r) z \<longleftrightarrow> z = x \<or> z = y"
    "set (assigns r) = {bind [x, y] [a, b] | a b. (a, b) \<in> set ps}"
proof -
  have d: "distinct [x, y]" using assms(1) by simp
  have empty: "assigns (new_relation [x, y]) = []" "tuples (new_relation [x, y]) [x, y] = []"
    by (simp_all add: assigns_def tuples_def new_relation_spec(1)[OF d])
  have e: "extends_all [x, y] (map (\<lambda>(a, b). [a, b]) ps) (new_relation [x, y]) r"
    unfolding r_def using new_relation_spec(4,5)[OF d] assms(1) by (intro add2_values_spec) auto
  then show "rel_wf r" "index_ok [x, y] r" "gm_has (vars r) z \<longleftrightarrow> z = x \<or> z = y"
    using new_relation_spec(2)[OF d] by (auto simp: extends_all_def)
  from e empty obtain new where "assigns r = map (bind [x, y]) new" "set new = set (map (\<lambda>(a, b). [a, b]) ps)"
    by (auto simp: extends_all_def)
  then show "set (assigns r) = {bind [x, y] [a, b] | a b. (a, b) \<in> set ps}" by force
qed

lemma join_single:
  assumes "rel_wf rl" "iteration ord" "gm_has (vars rl) x"
  shows "set (assigns (join fresh ord (add1_value fr x ks (new_relation [x])) [x] rl)) =
           {f \<in> set (assigns rl). f x \<in> set ks}"
    and "rel_wf (join fresh ord (add1_value fr x ks (new_relation [x])) [x] rl)"
proof -
  let ?r = "add1_value fr x ks (new_relation [x])"
  note r = single_relation[where r = ?r, OF refl]
  have sub: "gm_has (vars ?r) z \<Longrightarrow> gm_has (vars rl) z" for z using r(3) assms(3) by simp
  have h: "h \<in> set (assigns (join fresh ord ?r [x] rl)) \<longleftrightarrow>
      h \<in> set (assigns rl) \<and> h x \<in> set ks" (is "?L \<longleftrightarrow> ?R") for h
  proof -
    have "?L \<longleftrightarrow> (\<exists>f \<in> set (assigns rl). \<exists>g \<in> set (assigns ?r). (\<forall>z \<in> set [x]. f z = g z) \<and>
        (\<forall>z. h z = (if gm_has (vars ?r) z then g z else f z)))"
      by (rule join_assigns_iff[OF assms(1) r(1) assms(2) r(2) _ sub]) simp
    also have "\<dots> \<longleftrightarrow> (\<exists>f \<in> set (assigns rl). \<exists>k \<in> set ks. (\<forall>z \<in> set [x]. f z = bind [x] [k] z) \<and>
        (\<forall>z. h z = (if z = x then bind [x] [k] z else f z)))"
      unfolding r(3,4) by blast
    also have "\<dots> \<longleftrightarrow> (\<exists>f \<in> set (assigns rl). \<exists>k \<in> set ks. f x = k \<and> (\<forall>z. h z = (if z = x then k else f z)))"
    proof -
      have "(if z = x then bind [x] [k] z else f z) = (if z = x then k else f z)" for z k and f :: "string \<Rightarrow> key"
        by (simp add: bind_single)
      then show ?thesis by (simp add: bind_single)
    qed
    also have "\<dots> \<longleftrightarrow> (\<exists>f \<in> set (assigns rl). f x \<in> set ks \<and> h = f)"
      by (auto simp: fun_eq_iff)
    finally show ?thesis by auto
  qed
  then show "set (assigns (join fresh ord ?r [x] rl)) = {f \<in> set (assigns rl). f x \<in> set ks}" by auto
  show "rel_wf (join fresh ord ?r [x] rl)"
    by (rule join_assigns(2)[OF assms(1) r(1) assms(2) r(2) _ sub]) simp
qed

lemma join_pair:
  assumes "rel_wf rl" "iteration ord" "gm_has (vars rl) x" "gm_has (vars rl) y" "x \<noteq> y"
  shows "set (assigns (join fresh ord (add2_values fr x y ps (new_relation [x, y])) [x] rl)) =
           {f(y := b) | f b. f \<in> set (assigns rl) \<and> (f x, b) \<in> set ps}"
    and "rel_wf (join fresh ord (add2_values fr x y ps (new_relation [x, y])) [x] rl)"
proof -
  let ?r = "add2_values fr x y ps (new_relation [x, y])"
  note r = pair_relation[where r = ?r, OF assms(5) refl]
  have idx: "index_ok [x] ?r" using r(2) by (simp add: index_ok_def)
  have sub: "gm_has (vars ?r) z \<Longrightarrow> gm_has (vars rl) z" for z using r(3) assms(3,4) by auto
  have h: "h \<in> set (assigns (join fresh ord ?r [x] rl)) \<longleftrightarrow>
      (\<exists>f \<in> set (assigns rl). \<exists>b. (f x, b) \<in> set ps \<and> h = f(y := b))" (is "?L \<longleftrightarrow> ?R") for h
  proof -
    have "?L \<longleftrightarrow> (\<exists>f \<in> set (assigns rl). \<exists>g \<in> set (assigns ?r). (\<forall>z \<in> set [x]. f z = g z) \<and>
        (\<forall>z. h z = (if gm_has (vars ?r) z then g z else f z)))"
      by (rule join_assigns_iff[OF assms(1) r(1) assms(2) idx _ sub]) simp
    also have "\<dots> \<longleftrightarrow> (\<exists>f \<in> set (assigns rl). \<exists>a b. (a, b) \<in> set ps \<and>
        (\<forall>z \<in> set [x]. f z = bind [x, y] [a, b] z) \<and>
        (\<forall>z. h z = (if z = x \<or> z = y then bind [x, y] [a, b] z else f z)))"
      unfolding r(3,4) by blast
    also have "\<dots> \<longleftrightarrow> (\<exists>f \<in> set (assigns rl). \<exists>a b. (a, b) \<in> set ps \<and> f x = a \<and>
        (\<forall>z. h z = (if z = x then a else if z = y then b else f z)))"
    proof -
      have "(if z = x \<or> z = y then bind [x, y] [a, b] z else f z) =
          (if z = x then a else if z = y then b else f z)" for z a b and f :: "string \<Rightarrow> key"
        using assms(5) by (auto simp: bind_pair)
      moreover have "bind [x, y] [a, b] x = a" for a b using assms(5) by (simp add: bind_pair)
      ultimately show ?thesis by simp
    qed
    also have "\<dots> \<longleftrightarrow> ?R" using assms(5) by (auto simp: fun_eq_iff)
    finally show ?thesis .
  qed
  then show "set (assigns (join fresh ord ?r [x] rl)) =
      {f(y := b) | f b. f \<in> set (assigns rl) \<and> (f x, b) \<in> set ps}"
    unfolding set_eq_iff h mem_Collect_eq by blast
  show "rel_wf (join fresh ord ?r [x] rl)"
    by (rule join_assigns(2)[OF assms(1) r(1) assms(2) idx _ sub]) simp
qed

section \<open>Solutions, one triple at a time\<close>

lemma place_val_cong: "(is_variable u \<Longrightarrow> f (uri_string u) = g (uri_string u)) \<Longrightarrow> place_val v f u = place_val v g u"
  by (simp add: place_val_def)

lemma term_holds_cong: "\<forall>x \<in> ends_vars t. f x = g x \<Longrightarrow> term_holds v f t = term_holds v g t"
  unfolding term_holds_def
  using place_val_cong[of "QSubject t" f g v] place_val_cong[of "QObject t" f g v]
  by (auto simp: ends_vars_def)

text \<open>The constants of a triple are in the graph.\<close>

definition consts_known :: "view \<Rightarrow> qtriple \<Rightarrow> bool" where
  "consts_known v t \<longleftrightarrow> (\<forall>u \<in> {QSubject t, QObject t}. \<not> is_variable u \<longrightarrow>
     (\<exists>k. vw_hash v u = Inr k \<and> in_graph v k))"

lemma consts_known_code [code]:
  "consts_known v t = list_all (\<lambda>u. is_variable u \<or>
     (case vw_hash v u of Inl e \<Rightarrow> False | Inr k \<Rightarrow> in_graph v k)) [QSubject t, QObject t]"
  by (auto simp: consts_known_def split: sum.splits)

lemma solutions_restrict:
  assumes "\<And>f. term_holds v f t \<longleftrightarrow> P f"
  shows "solutions v V (ts @ [t]) = {f \<in> solutions v V ts. P f}"
  using assms by (auto simp: solutions_def)

lemma solutions_extend:
  assumes "y \<notin> V" "x \<in> V" "\<forall>u \<in> set ts. ends_vars u \<subseteq> V"
    and R: "\<And>f. term_holds v f t \<longleftrightarrow> R (f x) (f y)"
  shows "solutions v (insert y V) (ts @ [t]) = {f(y := b) | f b. f \<in> solutions v V ts \<and> R (f x) b}"
    (is "?L = ?R")
proof
  have xy: "x \<noteq> y" using assms(1,2) by auto
  show "?L \<subseteq> ?R"
  proof
    fix h assume h: "h \<in> ?L"
    have "h(y := empty_key) \<in> solutions v V ts"
    proof -
      have "term_holds v (h(y := empty_key)) u" if "u \<in> set ts" for u
      proof -
        have "y \<notin> ends_vars u" using assms(1,3) that by auto
        then have "term_holds v (h(y := empty_key)) u = term_holds v h u" by (intro term_holds_cong) auto
        then show ?thesis using h that by (simp add: solutions_def)
      qed
      then show ?thesis using h by (simp add: solutions_def)
    qed
    moreover have "h = (h(y := empty_key))(y := h y)" by simp
    moreover have "R ((h(y := empty_key)) x) (h y)" using h R xy by (auto simp: solutions_def)
    ultimately show "h \<in> ?R" by blast
  qed
  show "?R \<subseteq> ?L"
  proof
    fix h assume "h \<in> ?R"
    then obtain f b where h: "h = f(y := b)" "f \<in> solutions v V ts" "R (f x) b" by auto
    have "term_holds v h u" if "u \<in> set ts" for u
    proof -
      have "y \<notin> ends_vars u" using assms(1,3) that by auto
      then have "term_holds v h u = term_holds v f u" unfolding h(1) by (intro term_holds_cong) auto
      then show ?thesis using h(2) that by (simp add: solutions_def)
    qed
    moreover have "term_holds v h t" using R h(1,3) xy by simp
    ultimately show "h \<in> ?L" using h(1,2) by (auto simp: solutions_def)
  qed
qed

section \<open>The invariant of a tree-shaped plan\<close>

definition defs_ok :: "view \<Rightarrow> string set \<Rightarrow> (string \<Rightarrow> key) set \<Rightarrow> (string, key list) gomap \<Rightarrow> bool" where
  "defs_ok v V S defs \<longleftrightarrow>
     (\<forall>x. if x \<in> V
          then \<exists>D. gm_get defs x = Some D \<and> (\<forall>k \<in> set D. in_graph v k) \<and> (\<forall>f \<in> S. f x \<in> set D)
          else gm_get defs x = None)"

definition ctx_inv :: "view \<Rightarrow> string set \<Rightarrow> qtriple list \<Rightarrow> query_context \<Rightarrow> bool" where
  "ctx_inv v V ts ctx \<longleftrightarrow> ctx_view ctx = v \<and> rel_wf (rel ctx) \<and> (\<forall>t \<in> set ts. ends_vars t \<subseteq> V) \<and>
     set (assigns (rel ctx)) = solutions v V ts \<and> defs_ok v V (solutions v V ts) (definitions ctx)"

lemma defs_ok_put:
  assumes "defs_ok v V S defs" "\<forall>k \<in> set D. in_graph v k" "\<forall>f \<in> S'. f x \<in> set D"
    and "\<And>f. f \<in> S' \<Longrightarrow> \<exists>g \<in> S. \<forall>y \<in> V. y \<noteq> x \<longrightarrow> f y = g y"
  shows "defs_ok v (insert x V) S' (gm_put x D defs)"
  unfolding defs_ok_def
proof
  fix y
  show "if y \<in> insert x V
      then \<exists>D'. gm_get (gm_put x D defs) y = Some D' \<and> (\<forall>k \<in> set D'. in_graph v k) \<and> (\<forall>f \<in> S'. f y \<in> set D')
      else gm_get (gm_put x D defs) y = None"
  proof (cases "y = x")
    case True
    then show ?thesis using assms(2,3) by simp
  next
    case False
    then show ?thesis
      using assms(1)[unfolded defs_ok_def, rule_format, of y] assms(4)
      by (cases "y \<in> V") (auto, metis)
  qed
qed

definition same_frame :: "query_context \<Rightarrow> query_context \<Rightarrow> bool" where
  "same_frame ctx ctx' \<longleftrightarrow> variablePosition ctx' = variablePosition ctx \<and> ctxSelect ctx' = ctxSelect ctx \<and>
     vars (rel ctx') = vars (rel ctx)"

lemma same_frame_trans: "same_frame a b \<Longrightarrow> same_frame b c \<Longrightarrow> same_frame a c"
  by (simp add: same_frame_def)

lemma ctx_inv_bound:
  assumes "ctx_inv v V ts ctx" "x \<in> V"
  obtains D where "gm_get (definitions ctx) x = Some D" "\<forall>k \<in> set D. in_graph v k"
    "\<forall>f \<in> solutions v V ts. f x \<in> set D"
  using assms unfolding ctx_inv_def defs_ok_def by meson

lemma ctx_inv_free: "ctx_inv v V ts ctx \<Longrightarrow> x \<notin> V \<Longrightarrow> gm_get (definitions ctx) x = None"
  unfolding ctx_inv_def defs_ok_def by meson

text \<open>A second constraint on a bound variable.\<close>

lemma bind_or_join_restrict:
  assumes inv: "ctx_inv v V ts ctx" and fine: "fine v rt" and x: "x \<in> V" "gm_has (vars (rel ctx)) x"
    and t: "ends_vars t \<subseteq> V" "\<And>f. term_holds v f t \<longleftrightarrow> f x \<in> set values"
  shows "ctx_inv v V (ts @ [t]) (bind_or_join rt x values ctx)"
    and "same_frame ctx (bind_or_join rt x values ctx)"
proof -
  obtain D where D: "gm_get (definitions ctx) x = Some D" "\<forall>k \<in> set D. in_graph v k"
    "\<forall>f \<in> solutions v V ts. f x \<in> set D" using ctx_inv_bound[OF inv x(1)] .
  let ?vs = "restrict_to_resolved ctx x values"
  have vs: "set ?vs = set values \<inter> set D" by (simp add: set_restrict_to_resolved D(1))
  have eq: "bind_or_join rt x values ctx =
      join_rel rt (add1_value (pool_new rt) x (iter_keys rt ?vs) (new_relation [x])) [x]
        (ctx\<lparr>definitions := gm_put x ?vs (definitions ctx)\<rparr>)"
    using D(1) by (simp add: bind_or_join_def defined_def gm_has_def union_definitions_def Let_def)
  have sol: "solutions v V (ts @ [t]) = {f \<in> solutions v V ts. f x \<in> set values}"
    using solutions_restrict[of v t "\<lambda>f. f x \<in> set values"] t(2) by simp
  have rl: "rel_wf (rel ctx)" "iteration (iter_vars rt)" "set (assigns (rel ctx)) = solutions v V ts"
    using inv fine by (auto simp: ctx_inv_def fine_def)
  note j = join_single[OF rl(1,2) x(2), of "pool_copy rt" "pool_new rt" "iter_keys rt ?vs"]
  have "set (iter_keys rt ?vs) = set values \<inter> set D" using fine vs by (simp add: fine_def)
  then have "set (assigns (rel (bind_or_join rt x values ctx))) = solutions v V (ts @ [t])"
    using j(1) rl(3) D(3) sol by (auto simp: eq join_rel_def)
  moreover have "defs_ok v (insert x V) (solutions v V (ts @ [t])) (gm_put x ?vs (definitions ctx))"
  proof (rule defs_ok_put)
    show "defs_ok v V (solutions v V ts) (definitions ctx)" using inv by (simp add: ctx_inv_def)
    show "\<forall>k \<in> set ?vs. in_graph v k" using vs D(2) by auto
    show "\<forall>f \<in> solutions v V (ts @ [t]). f x \<in> set ?vs" using vs D(3) sol by auto
  qed (auto simp: sol)
  ultimately show "ctx_inv v V (ts @ [t]) (bind_or_join rt x values ctx)"
    using inv j(2) t(1) x(1) by (auto simp: ctx_inv_def eq join_rel_def insert_absorb)
  show "same_frame ctx (bind_or_join rt x values ctx)"
    by (simp add: eq join_rel_def same_frame_def)
qed

text \<open>The first constraint of a plan.\<close>

definition fresh_context :: "view \<Rightarrow> string list \<Rightarrow> query_context \<Rightarrow> bool" where
  "fresh_context v vs ctx \<longleftrightarrow> ctx_view ctx = v \<and> definitions ctx = [] \<and> rel ctx = new_relation vs \<and> distinct vs"

lemma bind_or_join_start:
  assumes new: "fresh_context v vs ctx" and fine: "fine v rt" and x: "x \<in> set vs"
    and t: "ends_vars t \<subseteq> {x}" "\<And>f. term_holds v f t \<longleftrightarrow> f x \<in> set values" "\<forall>k \<in> set values. in_graph v k"
  shows "ctx_inv v {x} [t] (bind_or_join rt x values ctx)"
    and "same_frame ctx (bind_or_join rt x values ctx)"
proof -
  have d: "distinct vs" and rel: "rel ctx = new_relation vs" and defs: "definitions ctx = []"
    using new by (simp_all add: fresh_context_def)
  let ?r = "add1_value (pool_new rt) x (iter_keys rt values) (new_relation vs)"
  have eq: "bind_or_join rt x values ctx = ctx\<lparr>definitions := [(x, values)], rel := ?r\<rparr>"
    by (simp add: bind_or_join_def defined_def gm_has_def defs define_variable_def rel
        get_values_for_variable_def keymap_len_def Let_def)
  have "extends_all [x] (map (\<lambda>k. [k]) (iter_keys rt values)) (new_relation vs) ?r"
    using new_relation_spec(4,5)[OF d] x by (intro add1_value_spec) auto
  moreover have "assigns (new_relation vs) = []" "tuples (new_relation vs) [x] = []"
    by (simp_all add: assigns_def tuples_def new_relation_spec(1)[OF d])
  moreover have "set (iter_keys rt values) = set values" using fine by (simp add: fine_def)
  ultimately have r: "rel_wf ?r" "vars ?r = vars (new_relation vs)"
    "set (assigns ?r) = {bind [x] [k] | k. k \<in> set values}"
    by (auto simp: extends_all_def)
  have "solutions v {x} [t] = {bind [x] [k] | k. k \<in> set values}"
    using t(2) by (auto simp: solutions_def bind_single fun_eq_iff)
  then show "ctx_inv v {x} [t] (bind_or_join rt x values ctx)"
    using r t new by (auto simp: ctx_inv_def defs_ok_def eq fresh_context_def bind_single)
  show "same_frame ctx (bind_or_join rt x values ctx)"
    using r(2) rel by (simp add: eq same_frame_def)
qed

section \<open>A new variable from a bound one\<close>

lemma collect_all:
  "(\<And>k. k \<in> set ks \<Longrightarrow> f k = Done (Inr (g k))) \<Longrightarrow> collect f ks = Done (Inr (concat (map g ks)))"
  by (induction ks) auto

lemma set_fold_keymap_add: "set (fold keymap_add ks m) = set m \<union> set ks"
  by (induction ks arbitrary: m) (auto simp: keymap_add_def)

definition extended :: "runtime \<Rightarrow> string \<Rightarrow> string \<Rightarrow> (key \<times> key) list \<Rightarrow> string \<Rightarrow> string
    \<Rightarrow> query_context \<Rightarrow> query_context" where
  "extended rt x y ps s o' ctx =
     union_definitions y (fold keymap_add (map snd ps) [])
       (mark_joined o' (mark_joined s (join_pairs rt x y ps [x] ctx)))"

lemma extended_inv:
  assumes inv: "ctx_inv v V ts ctx" and fine: "fine v rt"
    and xy: "x \<in> V" "y \<notin> V" "gm_has (vars (rel ctx)) x" "gm_has (vars (rel ctx)) y"
    and ps: "\<And>a b. (a, b) \<in> set ps \<longleftrightarrow> a \<in> set (get_values_for_variable ctx x) \<and> R a b"
    and t: "ends_vars t \<subseteq> insert y V" "\<And>f. term_holds v f t \<longleftrightarrow> R (f x) (f y)"
    and R: "\<And>a b. R a b \<Longrightarrow> in_graph v b"
  shows "ctx_inv v (insert y V) (ts @ [t]) (extended rt x y ps s o' ctx)"
    and "same_frame ctx (extended rt x y ps s o' ctx)"
proof -
  have ne: "x \<noteq> y" using xy by auto
  obtain D where D: "gm_get (definitions ctx) x = Some D" "\<forall>f \<in> solutions v V ts. f x \<in> set D"
    using ctx_inv_bound[OF inv xy(1)] by metis
  have ps: "(a, b) \<in> set ps \<longleftrightarrow> a \<in> set D \<and> R a b" for a b
    using ps D(1) by (simp add: get_values_for_variable_def)
  let ?new = "fold keymap_add (map snd ps) []"
  have defs: "definitions (extended rt x y ps s o' ctx) = gm_put y ?new (definitions ctx)"
    using ctx_inv_free[OF inv xy(2)]
    by (simp add: extended_def union_definitions_def restrict_to_resolved_def mark_joined_def
        join_pairs_def join_rel_def)
  have rl: "rel (extended rt x y ps s o' ctx) =
      join (pool_copy rt) (iter_vars rt) (add2_values (pool_new rt) x y ps (new_relation [x, y])) [x] (rel ctx)"
    by (simp add: extended_def union_definitions_def mark_joined_def join_pairs_def join_rel_def)
  have fr: "ctx_view (extended rt x y ps s o' ctx) = ctx_view ctx"
    "variablePosition (extended rt x y ps s o' ctx) = variablePosition ctx"
    "ctxSelect (extended rt x y ps s o' ctx) = ctxSelect ctx"
    by (simp_all add: extended_def union_definitions_def mark_joined_def join_pairs_def join_rel_def)
  have old: "rel_wf (rel ctx)" "iteration (iter_vars rt)" "set (assigns (rel ctx)) = solutions v V ts"
    "\<forall>u \<in> set ts. ends_vars u \<subseteq> V" "ctx_view ctx = v" "defs_ok v V (solutions v V ts) (definitions ctx)"
    using inv fine by (auto simp: ctx_inv_def fine_def)
  note j = join_pair[OF old(1,2) xy(3,4) ne, of "pool_copy rt" "pool_new rt" ps, folded rl]
  have sol: "solutions v (insert y V) (ts @ [t]) = {f(y := b) | f b. f \<in> solutions v V ts \<and> R (f x) b}"
    by (rule solutions_extend[OF xy(2,1) old(4) t(2)])
  also have "\<dots> = {f(y := b) | f b. f \<in> solutions v V ts \<and> (f x, b) \<in> set ps}"
    using ps D(2) by blast
  finally have sol2: "solutions v (insert y V) (ts @ [t]) = set (assigns (rel (extended rt x y ps s o' ctx)))"
    using j(1) old(3) by simp
  have new: "set ?new = snd ` set ps" by (simp add: set_fold_keymap_add)
  have "defs_ok v (insert y V) (solutions v (insert y V) (ts @ [t])) (gm_put y ?new (definitions ctx))"
  proof (rule defs_ok_put[OF old(6)])
    show "\<forall>k \<in> set ?new. in_graph v k" using new ps R by auto
    show "\<forall>f \<in> solutions v (insert y V) (ts @ [t]). f y \<in> set ?new"
      unfolding sol new using ps D(2) by force
    show "\<exists>g \<in> solutions v V ts. \<forall>z \<in> V. z \<noteq> y \<longrightarrow> f z = g z"
      if "f \<in> solutions v (insert y V) (ts @ [t])" for f
      using that unfolding sol by auto
  qed
  then show "ctx_inv v (insert y V) (ts @ [t]) (extended rt x y ps s o' ctx)"
    using sol2 j(2) old(4,5) t(1) by (auto simp: ctx_inv_def defs fr)
  show "same_frame ctx (extended rt x y ps s o' ctx)"
    by (simp add: same_frame_def fr rl)
qed

lemma run_object_from_var_subject_inv:
  assumes inv: "ctx_inv v V ts ctx" and fine: "fine v rt" and path: "QPredicates t \<noteq> []"
    and vs: "is_variable (QSubject t)" "is_variable (QObject t)"
    and xy: "uri_string (QSubject t) \<in> V" "uri_string (QObject t) \<notin> V"
    and has: "gm_has (vars (rel ctx)) (uri_string (QSubject t))" "gm_has (vars (rel ctx)) (uri_string (QObject t))"
  shows "\<exists>ctx'. run_object_from_var_subject rt t ctx = Done (Inr ctx') \<and>
     ctx_inv v (V \<union> ends_vars t) (ts @ [t]) ctx' \<and> same_frame ctx ctx'"
proof -
  let ?x = "uri_string (QSubject t)" and ?y = "uri_string (QObject t)"
  let ?R = "\<lambda>a b. in_graph v a \<and> in_graph v b \<and> (a, b) \<in> path_rel FromSubject v (QPredicates t)"
  obtain D where D: "gm_get (definitions ctx) ?x = Some D" "\<forall>k \<in> set D. in_graph v k"
    using ctx_inv_bound[OF inv xy(1)] by metis
  have v: "ctx_view ctx = v" using inv by (simp add: ctx_inv_def)
  define objs where "objs = (\<lambda>k. the (get_object_from_subject_pred v (iter_keys rt) k (QPredicates t)))"
  have objs: "get_object_from_subject_pred v (iter_keys rt) k (QPredicates t) = Some (objs k)"
    "set (objs k) = {o'. (k, o') \<in> path_rel FromSubject v (QPredicates t)}" "\<forall>o' \<in> set (objs k). in_graph v o'"
    if "in_graph v k" for k
    using objects_set[OF fine path that] by (auto simp: objs_def)
  let ?g = "\<lambda>k. map (Pair k) (iter_keys rt (objs k))"
  let ?ps = "concat (map ?g (iter_keys rt D))"
  have it: "set (iter_keys rt ks) = set ks" for ks using fine by (simp add: fine_def)
  have one: "objects_of rt ctx (QPredicates t) ?y k = Done (Inr (?g k))" if "k \<in> set (iter_keys rt D)" for k
    using that D(2) objs ctx_inv_free[OF inv xy(2)]
    by (auto simp: objects_of_def v restrict_to_resolved_def it)
  have ps: "all_objects_of rt ctx t = Done (Inr ?ps)"
    unfolding all_objects_of_def using collect_all[of "iter_keys rt D", OF one] D(1)
    by (simp add: get_values_for_variable_def)
  have mem: "(a, b) \<in> set ?ps \<longleftrightarrow> a \<in> set (get_values_for_variable ctx ?x) \<and> ?R a b" for a b
    using D objs by (auto simp: it get_values_for_variable_def)
  have hold: "term_holds v f t \<longleftrightarrow> ?R (f ?x) (f ?y)" for f
    using vs by (auto simp: term_holds_def place_val_def)
  have ends: "V \<union> ends_vars t = insert ?y V" using vs xy(1) by (auto simp: ends_vars_def)
  have "run_object_from_var_subject rt t ctx = Done (Inr (extended rt ?x ?y ?ps ?x ?y ctx))"
    by (simp add: run_object_from_var_subject_def ps exec_res_def extended_def Let_def)
  moreover note extended_inv[OF inv fine xy has mem _ hold, of ?x ?y]
  ultimately show ?thesis unfolding ends using vs xy(1) by (auto simp: ends_vars_def)
qed

lemma run_subject_from_var_object_inv:
  assumes inv: "ctx_inv v V ts ctx" and fine: "fine v rt" and path: "path_fine (QPredicates t)"
    and vs: "is_variable (QSubject t)" "is_variable (QObject t)"
    and xy: "uri_string (QObject t) \<in> V" "uri_string (QSubject t) \<notin> V"
    and has: "gm_has (vars (rel ctx)) (uri_string (QObject t))" "gm_has (vars (rel ctx)) (uri_string (QSubject t))"
  shows "\<exists>ctx'. run_subject_from_var_object rt t ctx = Done (Inr ctx') \<and>
     ctx_inv v (V \<union> ends_vars t) (ts @ [t]) ctx' \<and> same_frame ctx ctx'"
proof -
  let ?x = "uri_string (QObject t)" and ?y = "uri_string (QSubject t)"
  let ?R = "\<lambda>a b. in_graph v a \<and> in_graph v b \<and> (b, a) \<in> path_rel FromSubject v (QPredicates t)"
  obtain D where D: "gm_get (definitions ctx) ?x = Some D" "\<forall>k \<in> set D. in_graph v k"
    using ctx_inv_bound[OF inv xy(1)] by metis
  have v: "ctx_view ctx = v" using inv by (simp add: ctx_inv_def)
  define subs where "subs = (\<lambda>k. projr (the (get_subject_from_pred_object v (iter_keys rt) k (QPredicates t))))"
  have subs: "get_subject_from_pred_object v (iter_keys rt) k (QPredicates t) = Some (Inr (subs k))"
    "set (subs k) = {s. (s, k) \<in> path_rel FromSubject v (QPredicates t)}" "\<forall>s \<in> set (subs k). in_graph v s"
    if "in_graph v k" for k
    using subjects_set[OF fine path that] by (auto simp: subs_def)
  let ?g = "\<lambda>k. map (Pair k) (iter_keys rt (subs k))"
  let ?ps = "concat (map ?g (iter_keys rt D))"
  have it: "set (iter_keys rt ks) = set ks" for ks using fine by (simp add: fine_def)
  have one: "subjects_of rt ctx (QPredicates t) ?y k = Done (Inr (?g k))" if "k \<in> set (iter_keys rt D)" for k
    using that D(2) subs ctx_inv_free[OF inv xy(2)]
    by (auto simp: subjects_of_def v restrict_to_resolved_def it)
  have ps: "all_subjects_of rt ctx t = Done (Inr ?ps)"
    unfolding all_subjects_of_def using collect_all[of "iter_keys rt D", OF one] D(1)
    by (simp add: get_values_for_variable_def)
  have mem: "(a, b) \<in> set ?ps \<longleftrightarrow> a \<in> set (get_values_for_variable ctx ?x) \<and> ?R a b" for a b
    using D subs by (auto simp: it get_values_for_variable_def)
  have hold: "term_holds v f t \<longleftrightarrow> ?R (f ?x) (f ?y)" for f
    using vs by (auto simp: term_holds_def place_val_def)
  have ends: "V \<union> ends_vars t = insert ?y V" using vs xy(1) by (auto simp: ends_vars_def)
  have "run_subject_from_var_object rt t ctx = Done (Inr (extended rt ?x ?y ?ps ?y ?x ctx))"
    by (simp add: run_subject_from_var_object_def ps exec_res_def extended_def Let_def)
  moreover note extended_inv[OF inv fine xy has mem _ hold, of ?y ?x]
  ultimately show ?thesis unfolding ends using vs xy(1) by (auto simp: ends_vars_def)
qed

section \<open>Tree-shaped plans\<close>

fun tree_op :: "string set \<Rightarrow> operation \<Rightarrow> bool" where
  "tree_op V (ResolveSubject t) =
     ((uri_string (QSubject (TTriple t)) \<in> V \<or> V = {}) \<and> path_fine (QPredicates (TTriple t)))"
| "tree_op V (ResolveObject t) =
     ((uri_string (QObject (TTriple t)) \<in> V \<or> V = {}) \<and> QPredicates (TTriple t) \<noteq> [])"
| "tree_op V (ResolveObjectFromVarSubject t) =
     (uri_string (QSubject (TTriple t)) \<in> V \<and> uri_string (QObject (TTriple t)) \<notin> V \<and>
      QPredicates (TTriple t) \<noteq> [])"
| "tree_op V (ResolveSubjectFromVarObject t) =
     (uri_string (QObject (TTriple t)) \<in> V \<and> uri_string (QSubject (TTriple t)) \<notin> V \<and>
      path_fine (QPredicates (TTriple t)))"
| "tree_op V op = False"

fun tree_plan :: "string set \<Rightarrow> operation list \<Rightarrow> bool" where
  "tree_plan V [] = True"
| "tree_plan V (op # ops) =
     (tree_op V op \<and> tree_plan (V \<union> ends_vars (TTriple (op_term op))) ops)"

abbreviation op_triple :: "operation \<Rightarrow> qtriple" where
  "op_triple op \<equiv> TTriple (op_term op)"

lemma run_resolve_subject_one:
  assumes "fine v rt" "ctx_view ctx = v" "path_fine (QPredicates t)" "consts_known v t"
    and "is_variable (QSubject t)" "\<not> is_variable (QObject t)"
  shows "\<exists>vals. run_resolve_subject rt t ctx = Done (Inr (bind_or_join rt (uri_string (QSubject t)) vals ctx)) \<and>
     (\<forall>f. term_holds v f t \<longleftrightarrow> f (uri_string (QSubject t)) \<in> set vals) \<and> (\<forall>k \<in> set vals. in_graph v k)"
proof -
  obtain k where k: "vw_hash v (QObject t) = Inr k" "in_graph v k"
    using assms(4,6) by (auto simp: consts_known_def)
  obtain vals where "get_subject_from_pred_object v (iter_keys rt) k (QPredicates t) = Some (Inr vals)"
    "set vals = {s. (s, k) \<in> path_rel FromSubject v (QPredicates t)}" "\<forall>s \<in> set vals. in_graph v s"
    using subjects_set[OF assms(1,3) k(2)] by auto
  then show ?thesis
    using k assms(2,5,6) by (auto simp: run_resolve_subject_def or_not_found_def term_holds_def place_val_def)
qed

lemma run_resolve_object_one:
  assumes "fine v rt" "ctx_view ctx = v" "QPredicates t \<noteq> []" "consts_known v t"
    and "\<not> is_variable (QSubject t)" "is_variable (QObject t)"
  shows "\<exists>vals. run_resolve_object rt t ctx = Done (Inr (bind_or_join rt (uri_string (QObject t)) vals ctx)) \<and>
     (\<forall>f. term_holds v f t \<longleftrightarrow> f (uri_string (QObject t)) \<in> set vals) \<and> (\<forall>k \<in> set vals. in_graph v k)"
proof -
  obtain k where k: "vw_hash v (QSubject t) = Inr k" "in_graph v k"
    using assms(4,5) by (auto simp: consts_known_def)
  obtain vals where "get_object_from_subject_pred v (iter_keys rt) k (QPredicates t) = Some vals"
    "set vals = {o'. (k, o') \<in> path_rel FromSubject v (QPredicates t)}" "\<forall>o' \<in> set vals. in_graph v o'"
    using objects_set[OF assms(1,3) k(2)] by auto
  then show ?thesis
    using k assms(2,5,6) by (auto simp: run_resolve_object_def or_not_found_def term_holds_def place_val_def)
qed

lemma single_ends:
  "op_fits (ResolveSubject t) \<Longrightarrow> ends_vars (TTriple t) = {uri_string (QSubject (TTriple t))}"
  "op_fits (ResolveObject t) \<Longrightarrow> ends_vars (TTriple t) = {uri_string (QObject (TTriple t))}"
  by (auto simp: op_fits_def term_places_def ends_vars_def)

lemma tree_op_first:
  assumes "fresh_context v vs ctx" "fine v rt" "tree_op {} op" "op_fits op" "consts_known v (op_triple op)"
    and "ends_vars (op_triple op) \<subseteq> set vs"
  shows "\<exists>ctx'. run_operation rt op ctx = Done (Inr ctx') \<and>
     ctx_inv v (ends_vars (op_triple op)) [op_triple op] ctx' \<and> same_frame ctx ctx'"
proof -
  have v: "ctx_view ctx = v" using assms(1) by (simp add: fresh_context_def)
  show ?thesis
  proof (cases op)
    case (ResolveSubject t)
    note ends = single_ends(1)[OF assms(4)[unfolded ResolveSubject]]
    obtain vals where "run_operation rt op ctx =
        Done (Inr (bind_or_join rt (uri_string (QSubject (TTriple t))) vals ctx))"
      "\<And>f. term_holds v f (TTriple t) \<longleftrightarrow> f (uri_string (QSubject (TTriple t))) \<in> set vals"
      "\<forall>k \<in> set vals. in_graph v k"
      using run_resolve_subject_one[OF assms(2) v, of "TTriple t"] assms(3-5) ResolveSubject
      by (auto simp: op_fits_def term_places_def)
    with bind_or_join_start[OF assms(1,2), of "uri_string (QSubject (TTriple t))" "TTriple t" vals]
    show ?thesis using assms(6) ends ResolveSubject by auto
  next
    case (ResolveObject t)
    note ends = single_ends(2)[OF assms(4)[unfolded ResolveObject]]
    obtain vals where "run_operation rt op ctx =
        Done (Inr (bind_or_join rt (uri_string (QObject (TTriple t))) vals ctx))"
      "\<And>f. term_holds v f (TTriple t) \<longleftrightarrow> f (uri_string (QObject (TTriple t))) \<in> set vals"
      "\<forall>k \<in> set vals. in_graph v k"
      using run_resolve_object_one[OF assms(2) v, of "TTriple t"] assms(3-5) ResolveObject
      by (auto simp: op_fits_def term_places_def)
    with bind_or_join_start[OF assms(1,2), of "uri_string (QObject (TTriple t))" "TTriple t" vals]
    show ?thesis using assms(6) ends ResolveObject by auto
  qed (use assms(3) in simp_all)
qed

lemma tree_op_next:
  assumes inv: "ctx_inv v V ts ctx" and fine: "fine v rt" and "V \<noteq> {}"
    and op: "tree_op V op" "op_fits op" "consts_known v (op_triple op)"
    and has: "\<And>x. x \<in> V \<union> ends_vars (op_triple op) \<Longrightarrow> gm_has (vars (rel ctx)) x"
  shows "\<exists>ctx'. run_operation rt op ctx = Done (Inr ctx') \<and>
     ctx_inv v (V \<union> ends_vars (op_triple op)) (ts @ [op_triple op]) ctx' \<and> same_frame ctx ctx'"
proof -
  have v: "ctx_view ctx = v" using inv by (simp add: ctx_inv_def)
  show ?thesis
  proof (cases op)
    case (ResolveSubject t)
    let ?x = "uri_string (QSubject (TTriple t))"
    have ends: "ends_vars (TTriple t) = {?x}" using op(2) unfolding ResolveSubject by (rule single_ends(1))
    have x: "?x \<in> V" using op(1) assms(3) ResolveSubject by auto
    obtain vals where r: "run_operation rt op ctx = Done (Inr (bind_or_join rt ?x vals ctx))"
      "\<And>f. term_holds v f (TTriple t) \<longleftrightarrow> f ?x \<in> set vals"
      using run_resolve_subject_one[OF fine v, of "TTriple t"] op ResolveSubject
      by (auto simp: op_fits_def term_places_def)
    from bind_or_join_restrict[OF inv fine x has _ r(2)] x r(1) show ?thesis
      using ResolveSubject ends by (auto simp: insert_absorb)
  next
    case (ResolveObject t)
    let ?x = "uri_string (QObject (TTriple t))"
    have ends: "ends_vars (TTriple t) = {?x}" using op(2) unfolding ResolveObject by (rule single_ends(2))
    have x: "?x \<in> V" using op(1) assms(3) ResolveObject by auto
    obtain vals where r: "run_operation rt op ctx = Done (Inr (bind_or_join rt ?x vals ctx))"
      "\<And>f. term_holds v f (TTriple t) \<longleftrightarrow> f ?x \<in> set vals"
      using run_resolve_object_one[OF fine v, of "TTriple t"] op ResolveObject
      by (auto simp: op_fits_def term_places_def)
    from bind_or_join_restrict[OF inv fine x has _ r(2)] x r(1) show ?thesis
      using ResolveObject ends by (auto simp: insert_absorb)
  next
    case (ResolveObjectFromVarSubject t)
    with op have vs: "is_variable (QSubject (TTriple t))" "is_variable (QObject (TTriple t))"
      by (auto simp: op_fits_def term_places_def)
    then have "uri_string (QObject (TTriple t)) \<in> ends_vars (TTriple t)" by (auto simp: ends_vars_def)
    with run_object_from_var_subject_inv[OF inv fine _ vs] op(1) has ResolveObjectFromVarSubject
    show ?thesis by simp
  next
    case (ResolveSubjectFromVarObject t)
    with op have vs: "is_variable (QSubject (TTriple t))" "is_variable (QObject (TTriple t))"
      by (auto simp: op_fits_def term_places_def)
    then have "uri_string (QSubject (TTriple t)) \<in> ends_vars (TTriple t)" by (auto simp: ends_vars_def)
    with run_subject_from_var_object_inv[OF inv fine _ vs] op(1) has ResolveSubjectFromVarObject
    show ?thesis by simp
  qed (use op(1) in simp_all)
qed

lemma run_tree_plan:
  assumes "ctx_inv v V ts ctx" "fine v rt" "V \<noteq> {}" "tree_plan V ops"
    and "\<And>op. op \<in> set ops \<Longrightarrow> op_fits op \<and> consts_known v (op_triple op)"
    and "\<And>x. x \<in> V \<union> (\<Union>op \<in> set ops. ends_vars (op_triple op)) \<Longrightarrow> gm_has (vars (rel ctx)) x"
  shows "\<exists>ctx'. run_operations rt ops ctx = Done (Inr ctx') \<and>
     ctx_inv v (V \<union> (\<Union>op \<in> set ops. ends_vars (op_triple op))) (ts @ map op_triple ops) ctx' \<and> same_frame ctx ctx'"
  using assms
proof (induction ops arbitrary: V ts ctx)
  case Nil
  then show ?case by (simp add: same_frame_def)
next
  case (Cons op ops)
  let ?V = "V \<union> ends_vars (op_triple op)"
  obtain ctx1 where c1: "run_operation rt op ctx = Done (Inr ctx1)" "ctx_inv v ?V (ts @ [op_triple op]) ctx1"
    "same_frame ctx ctx1"
    using tree_op_next[OF Cons.prems(1-3), of op] Cons.prems(4-6) by auto
  have "\<And>x. x \<in> ?V \<union> (\<Union>op \<in> set ops. ends_vars (op_triple op)) \<Longrightarrow> gm_has (vars (rel ctx1)) x"
    using Cons.prems(6) c1(3) by (auto simp: same_frame_def)
  with Cons.IH[OF c1(2) Cons.prems(2)] Cons.prems(3-5) obtain ctx2 where
    "run_operations rt ops ctx1 = Done (Inr ctx2)"
    "ctx_inv v (?V \<union> (\<Union>op \<in> set ops. ends_vars (op_triple op))) ((ts @ [op_triple op]) @ map op_triple ops) ctx2"
    "same_frame ctx1 ctx2" by auto
  then show ?case using c1 same_frame_trans by (auto simp: exec_res_def Un_assoc)
qed

section \<open>Result rows\<close>

fun keep :: "('r \<Rightarrow> 'h) \<Rightarrow> 'r list \<Rightarrow> 'h list \<Rightarrow> 'r list" where
  "keep h [] jtest = []"
| "keep h (r # rs) jtest = (if h r \<in> set jtest then keep h rs jtest else r # keep h rs (h r # jtest))"

lemma keep_spec:
  "distinct (map h (keep h rs jtest))" "set (keep h rs jtest) \<subseteq> set rs"
  "h ` set (keep h rs jtest) = h ` set rs - set jtest"
  by (induction rs arbitrary: jtest) auto

definition row_keys :: "nat list \<Rightarrow> row \<Rightarrow> key list" where
  "row_keys ps row = map (\<lambda>p. value_at p row) ps"

definition keys_bytes :: "key list \<Rightarrow> bytes" where
  "keys_bytes ks = concat (map key_bytes ks)"

lemma keys_bytes_inj: "length ks = length ks' \<Longrightarrow> keys_bytes ks = keys_bytes ks' \<Longrightarrow> ks = ks'"
proof (induction ks ks' rule: list_induct2)
  case (Cons k ks k' ks')
  then show ?case by (simp add: keys_bytes_def append_eq_append_conv)
qed simp

lemma filled_slot:
  assumes "value_at p row \<noteq> empty_key"
  shows "p * 8 + 8 \<le> length (content row) \<and> take 8 (drop (p * 8) (content row)) = key_bytes (value_at p row)"
  using assms by (auto simp: value_at_def key_bytes_of_bytes split: if_splits)

lemma row_slices_filled:
  assumes "\<forall>p \<in> set ps. value_at p row \<noteq> empty_key"
  shows "row_slices row ps = Done (keys_bytes (row_keys ps row))"
proof -
  have "map (\<lambda>pos. take 8 (drop (pos * 8) (content row))) ps = map key_bytes (row_keys ps row)"
    using assms filled_slot by (auto simp: row_keys_def)
  moreover have "\<not> (\<exists>pos \<in> set ps. pos * 8 + 8 > length (content row))"
    using assms filled_slot by (meson not_le)
  ultimately show ?thesis unfolding row_slices_def keys_bytes_def by metis
qed

definition name_of :: "view \<Rightarrow> key \<Rightarrow> uri" where
  "name_of v k = projr (vw_uri v k)"

lemma result_row_filled:
  assumes "\<forall>p \<in> set ps. value_at p row \<noteq> empty_key \<and> (\<exists>u. vw_uri v (value_at p row) = Inr u)"
    and "idx + length ps \<le> result_columns"
  shows "result_row v row idx ps = Done (Some (map (name_of v) (row_keys ps row)))"
  using assms
proof (induction ps arbitrary: idx)
  case (Cons p ps)
  then obtain u where "vw_uri v (value_at p row) = Inr u" by auto
  with Cons show ?case by (simp add: name_of_def row_keys_def)
qed (simp add: row_keys_def)

lemma result_rows_filled:
  assumes "\<And>row p. row \<in> set rs \<Longrightarrow> p \<in> set ps \<Longrightarrow>
      value_at p row \<noteq> empty_key \<and> (\<exists>u. vw_uri v (value_at p row) = Inr u)"
    and "length ps \<le> result_columns"
  shows "result_rows hf v ps rs jtest =
     Done (map (\<lambda>row. map (name_of v) (row_keys ps row)) (keep (\<lambda>row. hf (keys_bytes (row_keys ps row))) rs jtest))"
  using assms(1)
proof (induction rs arbitrary: jtest)
  case (Cons row rs)
  have f: "\<forall>p \<in> set ps. value_at p row \<noteq> empty_key \<and> (\<exists>u. vw_uri v (value_at p row) = Inr u)"
    using Cons.prems by simp
  have "hash_row_with_pos hf row ps = Done (hf (keys_bytes (row_keys ps row)))"
    using row_slices_filled[of ps row] f by (simp add: hash_row_with_pos_def)
  moreover have "result_row v row 0 ps = Done (Some (map (name_of v) (row_keys ps row)))"
    using result_row_filled[of ps row v 0] f assms(2) by simp
  ultimately show ?case using Cons by simp
qed simp

lemma variable_positions:
  assumes "distinct vs"
  shows "gm_get (fold (\<lambda>(idx, x). gm_put x idx) (enumerate n vs) m) x =
    (case find_index (\<lambda>y. y = x) vs of None \<Rightarrow> gm_get m x | Some i \<Rightarrow> Some (n + i))"
  using assms
proof (induction vs arbitrary: n m)
  case (Cons v vs)
  show ?case
  proof (cases "v = x")
    case True
    then have "find_index (\<lambda>y. y = x) vs = None" using Cons.prems by (auto simp: find_index_None)
    with Cons True show ?thesis by simp
  next
    case False
    with Cons show ?thesis by (auto split: option.splits)
  qed
qed simp

lemma new_context_fresh:
  assumes "distinct (Variables (plan_query plan))"
  shows "fresh_context v (Variables (plan_query plan)) (new_query_context plan v pidx)"
    and "x \<in> set (Variables (plan_query plan)) \<Longrightarrow>
      var_position (new_query_context plan v pidx) x = var_pos (rel (new_query_context plan v pidx)) x"
proof -
  let ?vs = "Variables (plan_query plan)"
  show "fresh_context v ?vs (new_query_context plan v pidx)"
    using assms by (simp add: fresh_context_def new_query_context_def)
  assume "x \<in> set ?vs"
  then obtain i where i: "find_index (\<lambda>y. y = x) ?vs = Some i"
    by (cases "find_index (\<lambda>y. y = x) ?vs") (auto simp: find_index_None)
  then have "i < length ?vs" "?vs ! i = x" using find_index_Some by force+
  then show "var_position (new_query_context plan v pidx) x = var_pos (rel (new_query_context plan v pidx)) x"
    using variable_positions[OF assms, of 0 "[]" x] i new_relation_spec(3)[OF assms, of i]
    by (simp add: var_position_def new_query_context_def)
qed

section \<open>The answers of a tree-shaped query\<close>

definition query_ends :: "query \<Rightarrow> string set" where
  "query_ends q = (\<Union>t \<in> set (WhereTerms (Where q)). ends_vars t)"

lemma choose_operation_frame:
  "choose_operation t qp = Some (op, qp') \<Longrightarrow> plan_query qp' = plan_query qp \<and> plan_select qp' = plan_select qp"
  by (auto simp: choose_operation_def plan_restrict_def Let_def top_unless_child_def add_top_level_def
      add_link_def split: if_splits)

lemma plan_terms_frame:
  "plan_terms ts qp = Inr qp' \<Longrightarrow> plan_query qp' = plan_query qp \<and> plan_select qp' = plan_select qp"
proof (induction ts arbitrary: qp)
  case (Cons t ts)
  then show ?case by (fastforce split: option.splits dest: choose_operation_frame)
qed simp

text \<open>What the assumptions of the theorem say of the query, the view and the hash of rows.\<close>

definition answerable :: "view \<Rightarrow> query \<Rightarrow> bool" where
  "answerable v q \<longleftrightarrow>
     (\<forall>t \<in> set (WhereTerms (Where q)). consts_known v t) \<and> (\<forall>k. in_graph v k \<longrightarrow> (\<exists>u. vw_uri v k = Inr u)) \<and>
     distinct (Variables q) \<and> query_ends q \<subseteq> set (Variables q) \<and>
     set (SelectVars (Select q)) \<subseteq> query_ends q \<and> length (SelectVars (Select q)) \<le> result_columns"

text \<open>The solutions of a query, as the keys of the selected variables, and the hash of such a row.\<close>

definition solution_rows :: "view \<Rightarrow> query \<Rightarrow> key list set" where
  "solution_rows v q =
     (\<lambda>f. map f (SelectVars (Select q))) ` solutions v (query_ends q) (WhereTerms (Where q))"

abbreviation (input) row_hash :: "(bytes \<Rightarrow> u32) \<Rightarrow> key list \<Rightarrow> u32" where
  "row_hash hf ks \<equiv> hf (keys_bytes ks)"

lemma solution_in_graph:
  assumes "f \<in> solutions v V ts" "t \<in> set ts" "x \<in> ends_vars t"
  shows "in_graph v (f x)"
  using assms by (auto simp: solutions_def ends_vars_def term_holds_def place_val_def split: if_splits)

lemma execute_tree_plan:
  assumes plan: "make_dependency_graph q = Some (Done dg)" "form_query_plan dg q = Inr qp"
    and tree: "tree_plan {} (operations qp)" and fine: "fine v rt" and ans: "answerable v q"
  shows "\<exists>ctx. execute_query_plan rt v pidx qp = Done (Inr ctx) \<and>
     ctx_inv v (query_ends q) (map op_triple (operations qp)) ctx \<and>
     same_frame (new_query_context qp v pidx) ctx \<and> plan_query qp = q \<and> plan_select qp = SelectVars (Select q) \<and>
     set (map op_triple (operations qp)) = set (WhereTerms (Where q))"
proof -
  note wf = dependency_graph_mset[OF plan(1)]
  from plan_terms_Inr[OF plan(2)[unfolded form_query_plan_def] wf(2)]
  have ops: "map op_term (operations qp) = DgPlan dg" "list_all op_fits (operations qp)"
    by (auto simp: new_query_plan_def)
  have sets: "op_triple ` set (operations qp) = set (WhereTerms (Where q))"
    using mset_eq_setD[OF wf(1)] ops(1) by (metis image_image list.set_map)
  obtain qts i order where dgp: "DgPlan dg = qts ! i # order" "DgSelect dg = SelectVars (Select q)"
    using make_dependency_graph_Done[OF plan(1)] by metis
  have q: "plan_query qp = q" "plan_select qp = SelectVars (Select q)"
    using plan_terms_frame[OF plan(2)[unfolded form_query_plan_def]] dgp(2)
    by (simp_all add: new_query_plan_def)
  obtain op0 rest where cons: "operations qp = op0 # rest" using dgp(1) ops(1) by auto
  let ?ctx = "new_query_context qp v pidx"
  have d: "distinct (Variables (plan_query qp))" using ans q by (simp add: answerable_def)
  note fresh = new_context_fresh(1)[OF d, of v pidx]
  have fits: "op_fits op \<and> consts_known v (op_triple op) \<and> ends_vars (op_triple op) \<subseteq> set (Variables q)"
    if "op \<in> set (operations qp)" for op
  proof -
    have "op_triple op \<in> set (WhereTerms (Where q))" using sets that by blast
    then show ?thesis using ops(2) ans that by (auto simp: list_all_iff answerable_def query_ends_def)
  qed
  obtain ctx1 where c1: "run_operation rt op0 ?ctx = Done (Inr ctx1)"
    "ctx_inv v (ends_vars (op_triple op0)) [op_triple op0] ctx1" "same_frame ?ctx ctx1"
    using tree_op_first[OF fresh fine, of op0] tree fits[of op0] cons q by auto
  have "ends_vars (op_triple op0) \<noteq> {}"
    using tree cons fits[of op0] single_ends by (cases op0) auto
  moreover have "gm_has (vars (rel ctx1)) x"
    if "x \<in> ends_vars (op_triple op0) \<union> (\<Union>op \<in> set rest. ends_vars (op_triple op))" for x
    using that fits c1(3) new_relation_spec(2)[OF d] cons q
    by (fastforce simp: same_frame_def new_query_context_def)
  ultimately obtain ctx2 where c2: "run_operations rt rest ctx1 = Done (Inr ctx2)"
    "ctx_inv v (ends_vars (op_triple op0) \<union> (\<Union>op \<in> set rest. ends_vars (op_triple op)))
       ([op_triple op0] @ map op_triple rest) ctx2" "same_frame ctx1 ctx2"
    using run_tree_plan[OF c1(2) fine, of rest] tree cons fits by auto
  have "ends_vars (op_triple op0) \<union> (\<Union>op \<in> set rest. ends_vars (op_triple op)) = query_ends q"
    unfolding query_ends_def sets[symmetric] cons by simp
  with c1 c2 q sets show ?thesis
    using same_frame_trans[OF c1(3) c2(3)] by (auto simp: execute_query_plan_def cons exec_res_def)
qed

section \<open>All answers and no others\<close>

lemma tree_query_answers:
  assumes "make_dependency_graph q = Some (Done dg)" "form_query_plan dg q = Inr qp"
    and "tree_plan {} (operations qp)" "fine v rt" "answerable v q"
  shows "\<exists>kss. get_query_results hf rt v pidx q = Some (Done (Inr (map (map (name_of v)) kss))) \<and>
     set kss \<subseteq> solution_rows v q \<and> distinct (map (row_hash hf) kss) \<and>
     row_hash hf ` set kss = row_hash hf ` solution_rows v q"
proof -
  obtain ctx where c: "execute_query_plan rt v pidx qp = Done (Inr ctx)"
    "ctx_inv v (query_ends q) (map op_triple (operations qp)) ctx" "same_frame (new_query_context qp v pidx) ctx"
    "plan_query qp = q" "plan_select qp = SelectVars (Select q)"
    "set (map op_triple (operations qp)) = set (WhereTerms (Where q))"
    using execute_tree_plan[OF assms] by blast
  let ?sel = "SelectVars (Select q)" and ?ps = "map (var_position ctx) (ctxSelect ctx)"
  have sel: "ctxSelect ctx = ?sel" using c(3,5) by (simp add: same_frame_def new_query_context_def)
  have d: "distinct (Variables (plan_query qp))" and known: "\<forall>k. in_graph v k \<longrightarrow> (\<exists>u. vw_uri v k = Inr u)"
    and sub: "query_ends q \<subseteq> set (Variables q)" "set ?sel \<subseteq> query_ends q" and len: "length ?sel \<le> result_columns"
    using assms(5) c(4) by (auto simp: answerable_def)
  have sol: "solutions v V (map op_triple (operations qp)) = solutions v V (WhereTerms (Where q))" for V
    unfolding solutions_def c(6) ..
  have pos: "value_at (var_position ctx x) row = row_val (rel ctx) row x" if "x \<in> set ?sel" for x row
  proof -
    let ?c0 = "new_query_context qp v pidx"
    have x: "x \<in> set (Variables (plan_query qp))" using that sub c(4) by auto
    have "var_position ctx x = var_pos (rel ctx) x"
      using new_context_fresh(2)[OF d x, of v pidx] c(3) by (simp add: same_frame_def var_position_def var_pos_def)
    moreover have "gm_has (vars (rel ctx)) x"
      using new_relation_spec(2)[OF d, of x] x c(3) by (simp add: same_frame_def new_query_context_def)
    ultimately show ?thesis by (simp add: row_val_def)
  qed
  have keys: "row_keys ?ps row = map (row_val (rel ctx) row) ?sel" for row
    using pos sel by (auto simp: row_keys_def)
  let ?S = "solutions v (query_ends q) (WhereTerms (Where q))"
  have rows: "row_val (rel ctx) ` set (rows (rel ctx)) = ?S"
    using c(2) sol by (simp add: ctx_inv_def assigns_def)
  have filled: "value_at p row \<noteq> empty_key \<and> (\<exists>u. vw_uri v (value_at p row) = Inr u)"
    if "row \<in> set (rows (rel ctx))" "p \<in> set ?ps" for row p
  proof -
    from that(2) sel obtain x where x: "x \<in> set ?sel" "p = var_position ctx x" by auto
    have "row_val (rel ctx) row \<in> ?S" using that(1) rows by blast
    moreover obtain t where "t \<in> set (WhereTerms (Where q))" "x \<in> ends_vars t"
      using x(1) sub(2) by (auto simp: query_ends_def)
    ultimately have "in_graph v (value_at p row)" using solution_in_graph pos[OF x(1)] x(2) by metis
    then show ?thesis using known assms(4) by (auto simp: fine_def)
  qed
  let ?val = "\<lambda>row. row_keys ?ps row"
  have vals: "?val ` set (rows (rel ctx)) = (\<lambda>f. map f ?sel) ` ?S"
    unfolding rows[symmetric] by (simp add: keys image_image)
  define kss where "kss = map ?val (keep (\<lambda>row. hf (keys_bytes (?val row))) (rows (rel ctx)) [])"
  note k = keep_spec[of "\<lambda>row. hf (keys_bytes (?val row))" "rows (rel ctx)" "[]"]
  have "set kss \<subseteq> solution_rows v q" "distinct (map (row_hash hf) kss)"
    using k(1,2) vals by (auto simp: kss_def solution_rows_def comp_def)
  moreover have "row_hash hf ` set kss = row_hash hf ` solution_rows v q"
    using k(3) unfolding solution_rows_def vals[symmetric] by (simp add: kss_def image_image)
  moreover have "get_results hf ctx = Done (map (map (name_of v)) kss)"
    using result_rows_filled[OF filled, of "rows (rel ctx)" ?ps hf "[]"] len sel c(2)
    by (simp add: get_results_def ctx_inv_def comp_def kss_def)
  then have "get_query_results hf rt v pidx q = Some (Done (Inr (map (map (name_of v)) kss)))"
    using assms(1,2) c(1) by (simp add: get_query_results_def)
  ultimately show ?thesis by blast
qed

text \<open>
  C1: The answers of a query with a tree-shaped plan are its solutions, projected to the selected
  variables, whatever the order in which maps are iterated and whichever rows the pool hands out: no
  answer is wrong and, up to the hash of their rows, none is missing or repeated; when no two answers
  have the same hash they are exactly the solutions. (Of rows with the same 32-bit hash the code keeps
  one.) This needs a database (\<open>fine\<close>) whose edges end at stored entities, whose incoming edges are the
  converse of the outgoing ones and whose extended index is exact, which a load does not always give
  (theory RollupExample), and a query (\<open>answerable\<close>) whose constants are stored entities and which selects
  at most sixteen of the variables of its triples; every stored entity has a name.
\<close>

theorem tree_query_correct:
  assumes "make_dependency_graph q = Some (Done dg)" "form_query_plan dg q = Inr qp"
    and "tree_plan {} (operations qp)" "fine v rt" "answerable v q"
  shows "\<exists>kss. get_query_results hf rt v pidx q = Some (Done (Inr (map (map (name_of v)) kss))) \<and>
     set kss \<subseteq> solution_rows v q \<and> distinct (map (row_hash hf) kss) \<and>
     row_hash hf ` set kss = row_hash hf ` solution_rows v q \<and>
     (inj_on (row_hash hf) (solution_rows v q) \<longrightarrow> set kss = solution_rows v q)"
proof -
  obtain kss where k: "get_query_results hf rt v pidx q = Some (Done (Inr (map (map (name_of v)) kss)))"
    "set kss \<subseteq> solution_rows v q" "distinct (map (row_hash hf) kss)"
    "row_hash hf ` set kss = row_hash hf ` solution_rows v q"
    using tree_query_answers[OF assms] by blast
  then show ?thesis using inj_on_image_eq_iff[of "row_hash hf" "solution_rows v q"] by blast
qed

section \<open>An example\<close>

text \<open>The sample graph with names: \<open>1 -p-> 2 -p-> 3\<close>.\<close>

definition named_view :: view where
  "named_view = sample_view\<lparr>
     vw_hash := (\<lambda>u. if Namespace u = ''n'' \<and> length (Value u) = 1 then Inr (sample_key (hd (Value u)))
                     else Inl (Wrapped LdbNotFound)),
     vw_uri := (\<lambda>k. Inr (const_uri [hd (key_bytes k)]))\<rparr>"

definition plain_runtime :: runtime where
  "plain_runtime = \<lparr>iter_keys = id, iter_vars = id, iter_edges = id, pool_new = (\<lambda>_. True),
     pool_copy = (\<lambda>_ _. False)\<rparr>"

lemma named_fine: "fine named_view plain_runtime"
proof -
  have e: "edge_rel d named_view p = edge_rel d sample_view p" for d p
    by (simp add: edge_rel_def named_view_def)
  have "view_ok FromSubject named_view" "view_ok FromObject named_view" "edges_converse named_view"
    using sample_view_ok sample_converse
    by (simp_all add: view_ok_def graph_closed_def index_exact_def edges_converse_def e)
       (simp_all add: named_view_def)
  then show ?thesis
    by (simp add: fine_def plain_runtime_def iteration_def)
       (simp add: in_graph_def named_view_def sample_view_def sample_graph_def empty_key_def Let_def)
qed

definition before_three :: query where
  "before_three = select_where [''?x''] [step_triple (var_uri ''y'') ''p'' (const_uri ''3''),
     step_triple (var_uri ''x'') ''p'' (var_uri ''y'')]"

definition before_graph :: dependency_graph where
  "before_graph = (case make_dependency_graph before_three of Some (Done dg) \<Rightarrow> dg | _ \<Rightarrow> undefined)"

definition before_plan :: query_plan where
  "before_plan = projr (form_query_plan before_graph before_three)"

definition key_hash :: "bytes \<Rightarrow> u32" where
  "key_hash b = of_char (hd b)"

lemma before_plans:
  "make_dependency_graph before_three = Some (Done before_graph)"
  "form_query_plan before_graph before_three = Inr before_plan"
  "tree_plan {} (operations before_plan)"
  by code_simp+

lemma before_answerable: "answerable named_view before_three"
  unfolding answerable_def
proof (intro conjI)
  show "\<forall>k. in_graph named_view k \<longrightarrow> (\<exists>u. vw_uri named_view k = Inr u)" by (simp add: named_view_def)
  have q: "SelectVars (Select before_three) = [''?x'']" "Variables before_three = [''?y'', ''?x'']"
    "query_ends before_three = {''?y'', ''?x''}"
    by code_simp+
  show "distinct (Variables before_three)" "query_ends before_three \<subseteq> set (Variables before_three)"
    "set (SelectVars (Select before_three)) \<subseteq> query_ends before_three"
    "length (SelectVars (Select before_three)) \<le> result_columns"
    by (simp_all add: q result_columns_def)
  show "\<forall>t \<in> set (WhereTerms (Where before_three)). consts_known named_view t" by code_simp
qed

lemma before_hashes: "inj_on (row_hash key_hash) (solution_rows named_view before_three)"
proof (rule inj_on_subset)
  let ?keys = "{sample_key CHR ''1'', sample_key CHR ''2'', sample_key CHR ''3''}"
  show "inj_on (row_hash key_hash) ((\<lambda>k. [k]) ` ?keys)"
    by (simp add: inj_on_def key_hash_def keys_bytes_def)
  have "f ''?x'' \<in> ?keys"
    if "f \<in> solutions named_view (query_ends before_three) (WhereTerms (Where before_three))" for f
  proof -
    have "in_graph named_view (f ''?x'')"
      by (rule solution_in_graph[OF that, of "step_triple (var_uri ''x'') ''p'' (var_uri ''y'')"]) code_simp+
    then show ?thesis
      by (auto simp: in_graph_def named_view_def sample_view_def sample_graph_def Let_def split: if_splits)
  qed
  moreover have "SelectVars (Select before_three) = [''?x'']" by code_simp
  ultimately show "solution_rows named_view before_three \<subseteq> (\<lambda>k. [k]) ` ?keys"
    by (auto simp: solution_rows_def)
qed

theorem tree_query_correct_witness:
  "\<exists>kss. get_query_results key_hash plain_runtime named_view [] before_three =
       Some (Done (Inr (map (map (name_of named_view)) kss))) \<and> distinct kss \<and>
     set kss = solution_rows named_view before_three"
  using tree_query_correct[OF before_plans named_fine before_answerable, of key_hash "[]"] before_hashes
  by (auto simp: distinct_map)

end
