(* ===== verification/EngineFlaws.thy ===== *)
theory EngineFlaws
  imports EngineCorrect
begin

text \<open>
  Queries whose answers are not their solutions: what the operators of plans without a tree shape do.
\<close>

section \<open>A shared variable that is overwritten\<close>

text \<open>A graph with the edges \<open>1 p 2\<close>, \<open>1 p 3\<close>, \<open>2 q 4\<close>, \<open>3 q 5\<close> and \<open>1 r 5\<close>.\<close>

definition ends_by :: "(char \<times> char \<times> char) list \<Rightarrow> edge_map" where
  "ends_by es = map (\<lambda>p. (key_string (sample_key p),
      map (\<lambda>(_, _, c). sample_key c) (filter (\<lambda>(_, p', _). p' = p) es)))
    (remdups (map (\<lambda>(_, p, _). p) es))"

definition char_graph :: "char list \<Rightarrow> (char \<times> char \<times> char) list \<Rightarrow> (key, entity) gomap" where
  "char_graph ns ts = map (\<lambda>n. (sample_key n, \<lparr>PK = sample_key n,
      InEdges = ends_by (map (\<lambda>(s, p, o'). (o', p, s)) (filter (\<lambda>(s, p, o'). o' = n) ts)),
      OutEdges = ends_by (filter (\<lambda>(s, p, o'). s = n) ts)\<rparr>)) ns"

definition triangle_view :: view where
  "triangle_view = named_view\<lparr>vw_graph := char_graph ''12345''
     [(CHR ''1'', CHR ''p'', CHR ''2''), (CHR ''1'', CHR ''p'', CHR ''3''), (CHR ''2'', CHR ''q'', CHR ''4''),
      (CHR ''3'', CHR ''q'', CHR ''5''), (CHR ''1'', CHR ''r'', CHR ''5'')]\<rparr>"

definition triangle_query :: query where
  "triangle_query = select_where [''?a'', ''?b'', ''?c'']
     [step_triple (var_uri ''a'') ''r'' (const_uri ''5''), step_triple (var_uri ''a'') ''p'' (var_uri ''b''),
      step_triple (var_uri ''b'') ''q'' (var_uri ''c''), step_triple (var_uri ''a'') ''r'' (var_uri ''c'')]"

definition second_hash :: "bytes \<Rightarrow> u32" where
  "second_hash b = of_char (b ! 8)"

lemma triangle_answers:
  "get_query_results second_hash plain_runtime triangle_view [] triangle_query =
     Some (Done (Inr [[const_uri ''1'', const_uri ''2'', const_uri ''5''],
                      [const_uri ''1'', const_uri ''3'', const_uri ''5'']]))"
  by code_simp

text \<open>
  On a triangle query the engine returns a wrong answer besides the right one: the last operator
  joins on \<open>?a\<close> alone and overwrites \<open>?c\<close>, so the row with \<open>?b = 2\<close>, whose only \<open>q\<close>-neighbour is \<open>4\<close>, is
  reported with \<open>?c = 5\<close>, and the triple \<open>2 q 5\<close> is not in the graph.
\<close>

lemma triangle_wrong_answer:
  "get_query_results second_hash plain_runtime triangle_view [] triangle_query =
     Some (Done (Inr [[const_uri ''1'', const_uri ''2'', const_uri ''5''],
                      [const_uri ''1'', const_uri ''3'', const_uri ''5'']])) \<and>
   (sample_key CHR ''2'', sample_key CHR ''5'') \<notin>
     path_rel FromSubject triangle_view [\<lparr>PathPredicate = const_uri ''q'', PathMod = PATTERN_SINGLE\<rparr>]"
proof
  have "gm_get (vw_graph triangle_view) (sample_key CHR ''2'') =
      Some \<lparr>PK = sample_key CHR ''2'', InEdges = [(key_string (sample_key CHR ''p''), [sample_key CHR ''1''])],
            OutEdges = [(key_string (sample_key CHR ''q''), [sample_key CHR ''4''])]\<rparr>"
    by code_simp
  moreover have "vw_hash triangle_view (const_uri ''q'') = Inr (sample_key CHR ''q'')" by code_simp
  ultimately show "(sample_key CHR ''2'', sample_key CHR ''5'') \<notin>
     path_rel FromSubject triangle_view [\<lparr>PathPredicate = const_uri ''q'', PathMod = PATTERN_SINGLE\<rparr>]"
    by (auto simp: segment_rel_def edge_rel_def edges_def edge_list_def)
qed (rule triangle_answers)

text \<open>The plan of a query that has one.\<close>

definition graph_of :: "query \<Rightarrow> dependency_graph" where
  "graph_of q = (case make_dependency_graph q of Some (Done dg) \<Rightarrow> dg | _ \<Rightarrow> undefined)"

definition plan_for :: "query \<Rightarrow> query_plan" where
  "plan_for q = projr (form_query_plan (graph_of q) q)"




section \<open>Two variables and no constant\<close>

definition open_triple :: "qtriple" where
  "open_triple = step_triple (var_uri ''a'') ''p'' (var_uri ''b'')"


definition open_fork :: query where
  "open_fork = select_where [''?a'', ''?c''] [open_triple,
     \<lparr>QSubject = var_uri ''a'', QPredicates = [\<lparr>PathPredicate = var_uri ''q'', PathMod = PATTERN_SINGLE\<rparr>],
      QObject = var_uri ''c''\<rparr>]"

definition both_ends :: "qtriple \<Rightarrow> query_term" where
  "both_ends t = \<lparr>TTriple = t, TVars = [uri_string (QSubject t), uri_string (QObject t)]\<rparr>"


lemma open_names: "uri_string (QSubject open_triple) = ''?a''" "uri_string (QObject open_triple) = ''?b''"
  "QPredicates open_triple = [\<lparr>PathPredicate = const_uri ''p'', PathMod = PATTERN_SINGLE\<rparr>]"
  "uri_string (QSubject (step_triple (var_uri x) p (var_uri y))) = CHR ''?'' # x"
  "uri_string (QObject (step_triple (var_uri x) p (var_uri y))) = CHR ''?'' # y"
  by (simp_all add: open_triple_def step_triple_def var_uri_def uri_string_def)



lemma open_fork_plan:
  "make_dependency_graph open_fork = Some (Done (graph_of open_fork))"
  "form_query_plan (graph_of open_fork) open_fork = Inr (plan_for open_fork)"
  "operations (plan_for open_fork) = [ResolveSubjectObjectFromPred (both_ends open_triple),
     ResolveVarTripleAll \<lparr>TTriple = WhereTerms (Where open_fork) ! 1, TVars = [''?a'', ''?q'', ''?c'']\<rparr>]"
  "Variables (plan_query (plan_for open_fork)) = [''?a'', ''?b'', ''?c'', ''?q'']"
  by code_simp+

text \<open>
  C35: The query \<open>?a p ?b . ?a ?q ?c\<close> ends the program whenever \<open>p\<close> relates anything: the second triple
  is evaluated as if no variable were bound yet, and the operator for that case panics when the
  relation has rows.
\<close>

theorem open_fork_panics:
  assumes "get_predicate_by_uri v (const_uri ''p'') = Inr pe" "pair_list (Subjects pe) \<noteq> []"
  shows "get_query_results hf rt v pidx open_fork = Some Panic"
proof -
  let ?vs = "[''?a'', ''?b'', ''?c'', ''?q'']" and ?ps = "pair_list (Subjects pe)"
  let ?r = "add2_values (pool_new rt) ''?a'' ''?b'' ?ps (new_relation ?vs)"
  have d: "distinct ?vs" by simp
  have "extends_all [''?a'', ''?b''] (map (\<lambda>(a, b). [a, b]) ?ps) (new_relation ?vs) ?r"
    using new_relation_spec(4,5)[OF d] by (intro add2_values_spec) auto
  moreover have "assigns (new_relation ?vs) = []" "tuples (new_relation ?vs) xs = []" for xs
    by (simp_all add: assigns_def tuples_def new_relation_spec(1)[OF d])
  ultimately have "assigns ?r \<noteq> []" using assms(2) by (auto simp: extends_all_def)
  then have rows: "rows ?r \<noteq> []" by (simp add: assigns_def)
  let ?c0 = "new_query_context (plan_for open_fork) v pidx"
  obtain ctx1 where c1: "run_subject_object_from_pred rt open_triple ?c0 = Done (Inr ctx1)" "rel ctx1 = ?r"
    using assms(1)
    by (simp add: run_subject_object_from_pred_def open_names get_subject_object_from_pred_def Let_def
        defined_def has_joined_def gm_has_def new_query_context_def mark_joined_def open_fork_plan(4))
  have "execute_query_plan rt v pidx (plan_for open_fork) = Panic"
    using c1 rows
    by (simp add: execute_query_plan_def open_fork_plan(3) both_ends_def exec_res_def run_var_triple_all_def Let_def)
  then show ?thesis
    using open_fork_plan(1,2) by (simp add: get_query_results_def)
qed

section \<open>Positions\<close>

text \<open>A view in which \<open>p\<close> relates \<open>1\<close> to \<open>2\<close>, with the predicate index.\<close>

definition one_edge_view :: view where
  "one_edge_view = named_view\<lparr>vw_graph := char_graph ''12'' [(CHR ''1'', CHR ''p'', CHR ''2'')],
     vw_all := char_graph ''12'' [(CHR ''1'', CHR ''p'', CHR ''2'')],
     vw_pred := (\<lambda>k. Inr \<lparr>PredPK = sample_key CHR ''p'',
        Subjects = [(key_string (sample_key CHR ''1''), [(key_string (sample_key CHR ''2''), 0)])],
        Objects = [(key_string (sample_key CHR ''2''), [(key_string (sample_key CHR ''1''), 0)])]\<rparr>)\<rparr>"


theorem open_fork_panics_witness:
  "get_query_results second_hash plain_runtime one_edge_view [] open_fork = Some Panic"
  by (rule open_fork_panics[of one_edge_view
        "projr (get_predicate_by_uri one_edge_view (const_uri ''p''))"]) code_simp+

text \<open>
  A variable used twice in one triple is not treated as one variable: with the single edge \<open>1 p 2\<close>,
  \<open>SELECT ?x WHERE { ?x p ?x }\<close> answers \<open>2\<close>, the object of the edge. And the columns of
  \<open>SELECT ?s ?p ?o WHERE { ?s ?p ?o }\<close> are read at the positions of the query's variables although the
  operator has laid out its rows differently: the answer is \<open>1 2 p\<close> for the edge \<open>1 p 2\<close>.
\<close>

lemma variable_positions_confused:
  "get_query_results key_hash plain_runtime one_edge_view []
     (select_where [''?x''] [step_triple (var_uri ''x'') ''p'' (var_uri ''x'')]) =
       Some (Done (Inr [[const_uri ''2'']])) \<and>
   get_query_results key_hash plain_runtime one_edge_view []
     (select_where [''?s'', ''?p'', ''?o'']
       [\<lparr>QSubject = var_uri ''s'', QPredicates = [\<lparr>PathPredicate = var_uri ''p'', PathMod = PATTERN_SINGLE\<rparr>],
         QObject = var_uri ''o''\<rparr>]) =
       Some (Done (Inr [[const_uri ''1'', const_uri ''2'', const_uri ''p'']]))"
  by (intro conjI) code_simp+

end
