(* ===== verification/Msgpack.thy ===== *)
theory Msgpack
  imports Entities
begin

unbundle bit_operations_syntax

text \<open>
  The MessagePack library that HodDB's generated codecs call (vendor/github.com/tinylib/msgp/msgp):
  the byte prefixes, the \<open>Append\<close> functions that write to a byte slice and the \<open>Read...Bytes\<close>
  functions that read from one and return what is left. Lengths and values are machine words, so
  the conversion of a length to \<open>uint32\<close> truncates as it does in the code.
\<close>

type_synonym u8 = "8 word"
type_synonym u16 = "16 word"

definition u8_of_byte :: "char \<Rightarrow> u8" where
  "u8_of_byte c = of_char c"

definition byte_of_u8 :: "u8 \<Rightarrow> char" where
  "byte_of_u8 w = char_of (unat w)"

lemma u8_of_byte_of_u8 [simp]: "u8_of_byte (byte_of_u8 w) = w"
proof -
  have "of_char (char_of (unat w)) = (of_nat (of_char (char_of (unat w) :: char)) :: u8)"
    by (rule of_nat_of_char[symmetric])
  also have "\<dots> = w"
    using unsigned_less[of w, where ?'a = nat] by simp
  finally show ?thesis by (simp add: u8_of_byte_def byte_of_u8_def)
qed

section \<open>Prefixes\<close>

abbreviation (input) last4 :: u8 where "last4 \<equiv> 0x0f"
abbreviation (input) first4 :: u8 where "first4 \<equiv> 0xf0"
abbreviation (input) last5 :: u8 where "last5 \<equiv> 0x1f"
abbreviation (input) first3 :: u8 where "first3 \<equiv> 0xe0"
abbreviation (input) last7 :: u8 where "last7 \<equiv> 0x7f"
abbreviation (input) mfixint :: u8 where "mfixint \<equiv> 0x00"
abbreviation (input) mnfixint :: u8 where "mnfixint \<equiv> 0xe0"
abbreviation (input) mfixmap :: u8 where "mfixmap \<equiv> 0x80"
abbreviation (input) mfixarray :: u8 where "mfixarray \<equiv> 0x90"
abbreviation (input) mfixstr :: u8 where "mfixstr \<equiv> 0xa0"
abbreviation (input) mnil :: u8 where "mnil \<equiv> 0xc0"
abbreviation (input) mbin8 :: u8 where "mbin8 \<equiv> 0xc4"
abbreviation (input) mbin16 :: u8 where "mbin16 \<equiv> 0xc5"
abbreviation (input) mbin32 :: u8 where "mbin32 \<equiv> 0xc6"
abbreviation (input) muint8 :: u8 where "muint8 \<equiv> 0xcc"
abbreviation (input) muint16 :: u8 where "muint16 \<equiv> 0xcd"
abbreviation (input) muint32 :: u8 where "muint32 \<equiv> 0xce"
abbreviation (input) muint64 :: u8 where "muint64 \<equiv> 0xcf"
abbreviation (input) mint8 :: u8 where "mint8 \<equiv> 0xd0"
abbreviation (input) mint16 :: u8 where "mint16 \<equiv> 0xd1"
abbreviation (input) mint32 :: u8 where "mint32 \<equiv> 0xd2"
abbreviation (input) mint64 :: u8 where "mint64 \<equiv> 0xd3"
abbreviation (input) mstr8 :: u8 where "mstr8 \<equiv> 0xd9"
abbreviation (input) mstr16 :: u8 where "mstr16 \<equiv> 0xda"
abbreviation (input) mstr32 :: u8 where "mstr32 \<equiv> 0xdb"
abbreviation (input) marray16 :: u8 where "marray16 \<equiv> 0xdc"
abbreviation (input) marray32 :: u8 where "marray32 \<equiv> 0xdd"
abbreviation (input) mmap16 :: u8 where "mmap16 \<equiv> 0xde"
abbreviation (input) mmap32 :: u8 where "mmap32 \<equiv> 0xdf"

definition isfixint :: "u8 \<Rightarrow> bool" where "isfixint b = (drop_bit 7 b = 0)"
definition isnfixint :: "u8 \<Rightarrow> bool" where "isnfixint b = (b AND first3 = mnfixint)"
definition isfixmap :: "u8 \<Rightarrow> bool" where "isfixmap b = (b AND first4 = mfixmap)"
definition isfixarray :: "u8 \<Rightarrow> bool" where "isfixarray b = (b AND first4 = mfixarray)"
definition isfixstr :: "u8 \<Rightarrow> bool" where "isfixstr b = (b AND first3 = mfixstr)"

definition wfixint :: "u8 \<Rightarrow> u8" where "wfixint u = u AND last7"
definition wnfixint :: "u8 \<Rightarrow> u8" where "wnfixint i = i OR mnfixint"
definition wfixmap :: "u8 \<Rightarrow> u8" where "wfixmap u = mfixmap OR (u AND last4)"
definition rfixmap :: "u8 \<Rightarrow> u8" where "rfixmap b = b AND last4"
definition wfixarray :: "u8 \<Rightarrow> u8" where "wfixarray u = (u AND last4) OR mfixarray"
definition rfixarray :: "u8 \<Rightarrow> u8" where "rfixarray b = b AND last4"
definition wfixstr :: "u8 \<Rightarrow> u8" where "wfixstr u = (u AND last5) OR mfixstr"
definition rfixstr :: "u8 \<Rightarrow> u8" where "rfixstr b = b AND last5"

lemma bits_u8:
  fixes a b :: u8
  shows "a = b \<longleftrightarrow> bit a 0 = bit b 0 \<and> bit a 1 = bit b 1 \<and> bit a 2 = bit b 2 \<and> bit a 3 = bit b 3 \<and>
    bit a 4 = bit b 4 \<and> bit a 5 = bit b 5 \<and> bit a 6 = bit b 6 \<and> bit a 7 = bit b 7"
proof -
  have "{..<8::nat} = {0, 1, 2, 3, 4, 5, 6, 7}" by auto
  then have "(\<forall>n < 8. bit a n = bit b n) \<longleftrightarrow> (\<forall>n \<in> {0, 1, 2, 3, 4, 5, 6, 7::nat}. bit a n = bit b n)"
    by (metis lessThan_iff)
  moreover have "a = b \<longleftrightarrow> (\<forall>n < 8. bit a n = bit b n)"
    by (auto intro: bit_word_eqI)
  ultimately show ?thesis by simp
qed

lemma fix_prefixes [simp]:
  "isfixmap (wfixmap u)" "isfixarray (wfixarray u)" "isfixstr (wfixstr u)" "isfixint (wfixint u)"
  "isnfixint (wnfixint u)"
  "\<not> isfixint (wnfixint u)"
  by (simp_all add: isfixmap_def wfixmap_def isfixarray_def wfixarray_def isfixstr_def wfixstr_def
      isfixint_def wfixint_def isnfixint_def wnfixint_def bits_u8 bit_simps)

lemma take_bit_small:
  fixes w :: "'a::len word"
  assumes "unat w < 2 ^ n"
  shows "take_bit n w = w"
  using assms by (simp add: word_unat_eq_iff unsigned_take_bit_eq take_bit_nat_eq_self_iff)

lemma bit_small:
  fixes w :: "'a::len word"
  assumes "unat w < 2 ^ n" and "n \<le> m"
  shows "\<not> bit w m"
  using take_bit_small[OF assms(1)] assms(2) by (metis bit_take_bit_iff leD)

lemma fix_values:
  "unat u < 16 \<Longrightarrow> rfixmap (wfixmap u) = u"
  "unat u < 16 \<Longrightarrow> rfixarray (wfixarray u) = u"
  "unat u < 32 \<Longrightarrow> rfixstr (wfixstr u) = u"
  "unat u < 128 \<Longrightarrow> wfixint u = u"
  using bit_small[of u 4] bit_small[of u 5] bit_small[of u 7]
  by (simp_all add: rfixmap_def wfixmap_def rfixarray_def wfixarray_def rfixstr_def wfixstr_def
      wfixint_def bits_u8 bit_simps)

lemma isfixint_small: "unat u < 128 \<Longrightarrow> isfixint u"
  by (metis fix_prefixes(4) fix_values(4))

section \<open>Big-endian integers\<close>

definition put_u8 :: "u8 \<Rightarrow> bytes" where
  "put_u8 w = [byte_of_u8 w]"

definition put_u16 :: "u16 \<Rightarrow> bytes" where
  "put_u16 w = map byte_of_u8 [ucast (drop_bit 8 w), ucast w]"

definition put_u32 :: "u32 \<Rightarrow> bytes" where
  "put_u32 w = map byte_of_u8 [ucast (drop_bit 24 w), ucast (drop_bit 16 w), ucast (drop_bit 8 w), ucast w]"

definition put_u64 :: "u64 \<Rightarrow> bytes" where
  "put_u64 w = map byte_of_u8
     [ucast (drop_bit 56 w), ucast (drop_bit 48 w), ucast (drop_bit 40 w), ucast (drop_bit 32 w),
      ucast (drop_bit 24 w), ucast (drop_bit 16 w), ucast (drop_bit 8 w), ucast w]"

definition get_u8 :: "bytes \<Rightarrow> u8" where
  "get_u8 b = u8_of_byte (b ! 0)"

definition get_u16 :: "bytes \<Rightarrow> u16" where
  "get_u16 b = (push_bit 8 (ucast (u8_of_byte (b ! 0))) OR ucast (u8_of_byte (b ! 1)))"

definition get_u32 :: "bytes \<Rightarrow> u32" where
  "get_u32 b =
     (push_bit 24 (ucast (u8_of_byte (b ! 0))) OR push_bit 16 (ucast (u8_of_byte (b ! 1))) OR
      push_bit 8 (ucast (u8_of_byte (b ! 2))) OR ucast (u8_of_byte (b ! 3)))"

definition get_u64 :: "bytes \<Rightarrow> u64" where
  "get_u64 b =
     (push_bit 56 (ucast (u8_of_byte (b ! 0))) OR push_bit 48 (ucast (u8_of_byte (b ! 1))) OR
      push_bit 40 (ucast (u8_of_byte (b ! 2))) OR push_bit 32 (ucast (u8_of_byte (b ! 3))) OR
      push_bit 24 (ucast (u8_of_byte (b ! 4))) OR push_bit 16 (ucast (u8_of_byte (b ! 5))) OR
      push_bit 8 (ucast (u8_of_byte (b ! 6))) OR ucast (u8_of_byte (b ! 7)))"

lemma length_put [simp]:
  "length (put_u8 x) = 1" "length (put_u16 h) = 2" "length (put_u32 w) = 4" "length (put_u64 q) = 8"
  by (simp_all add: put_u8_def put_u16_def put_u32_def put_u64_def)

lemma get_put_u8 [simp]: "get_u8 (put_u8 w @ rest) = w"
  by (simp add: get_u8_def put_u8_def)

lemma get_put_u16 [simp]: "get_u16 (put_u16 w @ rest) = w"
  by (rule bit_word_eqI) (auto simp: get_u16_def put_u16_def bit_simps not_le)

lemma get_put_u32 [simp]: "get_u32 (put_u32 w @ rest) = w"
proof (rule bit_word_eqI)
  fix n :: nat
  assume "n < LENGTH(32)"
  then consider "n < 8" | "8 \<le> n \<and> n < 16" | "16 \<le> n \<and> n < 24" | "24 \<le> n \<and> n < 32"
    by fastforce
  then show "bit (get_u32 (put_u32 w @ rest)) n = bit w n"
    by cases (simp_all add: get_u32_def put_u32_def bit_simps, (cases "bit w n", simp_all, presburger)+)
qed

lemma get_put_u64 [simp]: "get_u64 (put_u64 w @ rest) = w"
proof (rule bit_word_eqI)
  fix n :: nat
  assume "n < LENGTH(64)"
  then consider "n < 8" | "8 \<le> n \<and> n < 16" | "16 \<le> n \<and> n < 24" | "24 \<le> n \<and> n < 32" |
    "32 \<le> n \<and> n < 40" | "40 \<le> n \<and> n < 48" | "48 \<le> n \<and> n < 56" | "56 \<le> n \<and> n < 64"
    by fastforce
  then show "bit (get_u64 (put_u64 w @ rest)) n = bit w n"
    by cases (simp_all add: get_u64_def put_u64_def bit_simps, (cases "bit w n", simp_all, presburger)+)
qed

section \<open>Types and sizes of encoded values\<close>

datatype msgp_type =
    InvalidType | StrType | BinType | MapType | ArrayType | Float64Type | Float32Type
  | BoolType | IntType | UintType | NilType | ExtensionType

datatype merr =
    ErrShortBytes
  | TypeError msgp_type msgp_type
  | InvalidPrefixError u8
  | ArrayError u32 u32
  | UintOverflow u64 nat
  | UintBelowZero "64 word"
  | StreamError

text \<open>
  The table \<open>sizes\<close> (elsize.go): length of the prefix, mode and type of the value a byte introduces.
  A mode of zero or more is the number of values that follow; the negative modes say where the
  length or the number is stored.
\<close>

abbreviation (input) constsize :: int where "constsize \<equiv> 0"
abbreviation (input) extra8 :: int where "extra8 \<equiv> - 1"
abbreviation (input) extra16 :: int where "extra16 \<equiv> - 2"
abbreviation (input) extra32 :: int where "extra32 \<equiv> - 3"
abbreviation (input) map16v :: int where "map16v \<equiv> - 4"
abbreviation (input) map32v :: int where "map32v \<equiv> - 5"
abbreviation (input) array16v :: int where "array16v \<equiv> - 6"
abbreviation (input) array32v :: int where "array32v \<equiv> - 7"

definition sizes_fixed :: "(u8 \<times> nat \<times> int \<times> msgp_type) list" where
  "sizes_fixed =
    [(mnil, 1, constsize, NilType), (0xc2, 1, constsize, BoolType), (0xc3, 1, constsize, BoolType),
     (mbin8, 2, extra8, BinType), (mbin16, 3, extra16, BinType), (mbin32, 5, extra32, BinType),
     (0xc7, 3, extra8, ExtensionType), (0xc8, 4, extra16, ExtensionType),
     (0xc9, 6, extra32, ExtensionType),
     (0xca, 5, constsize, Float32Type), (0xcb, 9, constsize, Float64Type),
     (muint8, 2, constsize, UintType), (muint16, 3, constsize, UintType),
     (muint32, 5, constsize, UintType), (muint64, 9, constsize, UintType),
     (mint8, 2, constsize, IntType), (mint16, 3, constsize, IntType),
     (mint32, 5, constsize, IntType), (mint64, 9, constsize, IntType),
     (0xd4, 3, constsize, ExtensionType), (0xd5, 4, constsize, ExtensionType),
     (0xd6, 6, constsize, ExtensionType), (0xd7, 10, constsize, ExtensionType),
     (0xd8, 18, constsize, ExtensionType),
     (mstr8, 2, extra8, StrType), (mstr16, 3, extra16, StrType), (mstr32, 5, extra32, StrType),
     (marray16, 3, array16v, ArrayType), (marray32, 5, array32v, ArrayType),
     (mmap16, 3, map16v, MapType), (mmap32, 5, map32v, MapType)]"

definition sizes :: "u8 \<Rightarrow> nat \<times> int \<times> msgp_type" where
  "sizes i =
     (if i < 0x80 then (1, constsize, IntType)
      else if 0xe0 \<le> i then (1, constsize, IntType)
      else if 0xa0 \<le> i \<and> i < 0xc0 then (1 + unat (rfixstr i), constsize, StrType)
      else if 0x80 \<le> i \<and> i < 0x90 then (1, int (2 * unat (rfixmap i)), MapType)
      else if 0x90 \<le> i \<and> i < 0xa0 then (1, int (unat (rfixarray i)), ArrayType)
      else case map_of sizes_fixed i of Some spec \<Rightarrow> spec | None \<Rightarrow> (0, 0, InvalidType))"

definition getType :: "u8 \<Rightarrow> msgp_type" where
  "getType v = snd (snd (sizes v))"

definition bad_prefix :: "msgp_type \<Rightarrow> u8 \<Rightarrow> merr" where
  "bad_prefix want lead =
     (if getType lead = InvalidType then InvalidPrefixError lead else TypeError want (getType lead))"

section \<open>Appending\<close>

definition append_map_header :: "bytes \<Rightarrow> u32 \<Rightarrow> bytes" where
  "append_map_header b sz =
     (if sz \<le> 15 then b @ [byte_of_u8 (wfixmap (ucast sz))]
      else if sz \<le> 0xffff then b @ [byte_of_u8 mmap16] @ put_u16 (ucast sz)
      else b @ [byte_of_u8 mmap32] @ put_u32 sz)"

definition append_array_header :: "bytes \<Rightarrow> u32 \<Rightarrow> bytes" where
  "append_array_header b sz =
     (if sz \<le> 15 then b @ [byte_of_u8 (wfixarray (ucast sz))]
      else if sz \<le> 0xffff then b @ [byte_of_u8 marray16] @ put_u16 (ucast sz)
      else b @ [byte_of_u8 marray32] @ put_u32 sz)"

definition append_nil :: "bytes \<Rightarrow> bytes" where
  "append_nil b = b @ [byte_of_u8 mnil]"

definition append_bytes :: "bytes \<Rightarrow> bytes \<Rightarrow> bytes" where
  "append_bytes b bts =
     (let sz = length bts in
      (if sz \<le> 0xff then b @ [byte_of_u8 mbin8] @ put_u8 (word_of_nat sz)
       else if sz \<le> 0xffff then b @ [byte_of_u8 mbin16] @ put_u16 (word_of_nat sz)
       else b @ [byte_of_u8 mbin32] @ put_u32 (word_of_nat sz)) @ bts)"

definition append_string :: "bytes \<Rightarrow> string \<Rightarrow> bytes" where
  "append_string b s =
     (let sz = length s in
      (if sz \<le> 31 then b @ [byte_of_u8 (wfixstr (word_of_nat sz))]
       else if sz \<le> 0xff then b @ [byte_of_u8 mstr8] @ put_u8 (word_of_nat sz)
       else if sz \<le> 0xffff then b @ [byte_of_u8 mstr16] @ put_u16 (word_of_nat sz)
       else b @ [byte_of_u8 mstr32] @ put_u32 (word_of_nat sz)) @ s)"

definition append_uint64 :: "bytes \<Rightarrow> u64 \<Rightarrow> bytes" where
  "append_uint64 b u =
     (if u \<le> 0x7f then b @ [byte_of_u8 (wfixint (ucast u))]
      else if u \<le> 0xff then b @ [byte_of_u8 muint8] @ put_u8 (ucast u)
      else if u \<le> 0xffff then b @ [byte_of_u8 muint16] @ put_u16 (ucast u)
      else if u \<le> 0xffffffff then b @ [byte_of_u8 muint32] @ put_u32 (ucast u)
      else b @ [byte_of_u8 muint64] @ put_u64 u)"

definition append_uint32 :: "bytes \<Rightarrow> u32 \<Rightarrow> bytes" where
  "append_uint32 b u = append_uint64 b (ucast u)"

text \<open>An \<open>int64\<close> is a 64-bit word read with its sign.\<close>

definition append_int64 :: "bytes \<Rightarrow> 64 word \<Rightarrow> bytes" where
  "append_int64 b i =
     (if 0 \<le>s i then
        (if i \<le>s 0x7f then b @ [byte_of_u8 (wfixint (ucast i))]
         else if i \<le>s 0x7fff then b @ [byte_of_u8 mint16] @ put_u16 (ucast i)
         else if i \<le>s 0x7fffffff then b @ [byte_of_u8 mint32] @ put_u32 (ucast i)
         else b @ [byte_of_u8 mint64] @ put_u64 i)
      else if - 32 \<le>s i then b @ [byte_of_u8 (wnfixint (ucast i))]
      else if - 128 \<le>s i then b @ [byte_of_u8 mint8] @ put_u8 (ucast i)
      else if - 32768 \<le>s i then b @ [byte_of_u8 mint16] @ put_u16 (ucast i)
      else if - 2147483648 \<le>s i then b @ [byte_of_u8 mint32] @ put_u32 (ucast i)
      else b @ [byte_of_u8 mint64] @ put_u64 i)"

section \<open>Reading from a byte slice\<close>

text \<open>
  Every function returns the value and the bytes after it.
\<close>

definition is_nil :: "bytes \<Rightarrow> bool" where
  "is_nil b = (b \<noteq> [] \<and> u8_of_byte (b ! 0) = mnil)"

definition read_map_header_bytes :: "bytes \<Rightarrow> merr + u32 \<times> bytes" where
  "read_map_header_bytes b =
     (if length b < 1 then Inl ErrShortBytes
      else let lead = u8_of_byte (b ! 0) in
        if isfixmap lead then Inr (ucast (rfixmap lead), drop 1 b)
        else if lead = mmap16 then
          (if length b < 3 then Inl ErrShortBytes else Inr (ucast (get_u16 (drop 1 b)), drop 3 b))
        else if lead = mmap32 then
          (if length b < 5 then Inl ErrShortBytes else Inr (get_u32 (drop 1 b), drop 5 b))
        else Inl (bad_prefix MapType lead))"

definition read_array_header_bytes :: "bytes \<Rightarrow> merr + u32 \<times> bytes" where
  "read_array_header_bytes b =
     (if length b < 1 then Inl ErrShortBytes
      else let lead = u8_of_byte (b ! 0) in
        if isfixarray lead then Inr (ucast (rfixarray lead), drop 1 b)
        else if lead = marray16 then
          (if length b < 3 then Inl ErrShortBytes else Inr (ucast (get_u16 (drop 1 b)), drop 3 b))
        else if lead = marray32 then
          (if length b < 5 then Inl ErrShortBytes else Inr (get_u32 (drop 1 b), drop 5 b))
        else Inl (bad_prefix ArrayType lead))"

definition read_nil_bytes :: "bytes \<Rightarrow> merr + bytes" where
  "read_nil_bytes b =
     (if length b < 1 then Inl ErrShortBytes
      else if u8_of_byte (b ! 0) \<noteq> mnil then Inl (bad_prefix NilType (u8_of_byte (b ! 0)))
      else Inr (drop 1 b))"

definition take_bytes :: "nat \<Rightarrow> bytes \<Rightarrow> merr + bytes \<times> bytes" where
  "take_bytes n b = (if length b < n then Inl ErrShortBytes else Inr (take n b, drop n b))"

definition read_bytes_zc :: "bytes \<Rightarrow> merr + bytes \<times> bytes" where
  "read_bytes_zc b =
     (if length b < 1 then Inl ErrShortBytes
      else let lead = u8_of_byte (b ! 0) in
        if lead = mbin8 then
          (if length b < 2 then Inl ErrShortBytes else take_bytes (unat (get_u8 (drop 1 b))) (drop 2 b))
        else if lead = mbin16 then
          (if length b < 3 then Inl ErrShortBytes else take_bytes (unat (get_u16 (drop 1 b))) (drop 3 b))
        else if lead = mbin32 then
          (if length b < 5 then Inl ErrShortBytes else take_bytes (unat (get_u32 (drop 1 b))) (drop 5 b))
        else Inl (bad_prefix BinType lead))"

definition read_string_zc :: "bytes \<Rightarrow> merr + bytes \<times> bytes" where
  "read_string_zc b =
     (if length b < 1 then Inl ErrShortBytes
      else let lead = u8_of_byte (b ! 0) in
        if isfixstr lead then take_bytes (unat (rfixstr lead)) (drop 1 b)
        else if lead = mstr8 then
          (if length b < 2 then Inl ErrShortBytes else take_bytes (unat (get_u8 (drop 1 b))) (drop 2 b))
        else if lead = mstr16 then
          (if length b < 3 then Inl ErrShortBytes else take_bytes (unat (get_u16 (drop 1 b))) (drop 3 b))
        else if lead = mstr32 then
          (if length b < 5 then Inl ErrShortBytes else take_bytes (unat (get_u32 (drop 1 b))) (drop 5 b))
        else Inl (TypeError StrType (getType lead)))"

definition read_string_bytes :: "bytes \<Rightarrow> merr + string \<times> bytes" where
  "read_string_bytes b = read_string_zc b"

definition read_map_key_zc :: "bytes \<Rightarrow> merr + bytes \<times> bytes" where
  "read_map_key_zc b =
     (case read_string_zc b of
        Inl (TypeError m BinType) \<Rightarrow> read_bytes_zc b
      | Inl e \<Rightarrow> Inl e
      | Inr r \<Rightarrow> Inr r)"

text \<open>
  \<open>ReadExactBytes(b, into)\<close>: the length must be that of \<open>into\<close>, but the bytes are only copied: when
  fewer are left, the rest of \<open>into\<close> keeps its old content and there is no error. The result is the
  new content of \<open>into\<close> and the bytes left. (On a \<open>bin\<close> with a slice that ends in its length field
  the code stops with \<open>ErrShortBytes\<close>.)
\<close>

definition copy_into :: "bytes \<Rightarrow> bytes \<Rightarrow> bytes" where
  "copy_into dst src = take (length dst) src @ drop (length src) dst"

definition read_exact_bytes :: "bytes \<Rightarrow> bytes \<Rightarrow> merr + bytes \<times> bytes" where
  "read_exact_bytes b into =
     (if length b < 1 then Inl ErrShortBytes
      else let lead = u8_of_byte (b ! 0);
               finish = (\<lambda>(rd :: u32) skip.
                 if rd \<noteq> word_of_nat (length into) then Inl (ArrayError (word_of_nat (length into)) rd)
                 else Inr (copy_into into (drop skip b),
                           drop (skip + min (length into) (length b - skip)) b))
           in
        if lead = mbin8 then
          (if length b < 2 then Inl ErrShortBytes else finish (ucast (get_u8 (drop 1 b))) 2)
        else if lead = mbin16 then
          (if length b < 3 then Inl ErrShortBytes else finish (ucast (get_u16 (drop 1 b))) 3)
        else if lead = mbin32 then
          (if length b < 5 then Inl ErrShortBytes else finish (get_u32 (drop 1 b)) 5)
        else Inl (bad_prefix BinType lead))"

definition nonneg :: "64 word \<Rightarrow> bytes \<Rightarrow> merr + u64 \<times> bytes" where
  "nonneg v o' = (if v <s 0 then Inl (UintBelowZero v) else Inr (v, o'))"

definition read_uint64_bytes :: "bytes \<Rightarrow> merr + u64 \<times> bytes" where
  "read_uint64_bytes b =
     (let l = length b in
      if l < 1 then Inl ErrShortBytes
      else let lead = u8_of_byte (b ! 0); p = drop 1 b in
        if isfixint lead then Inr (ucast lead, p)
        else if lead = mint8 then
          (if l < 2 then Inl ErrShortBytes else nonneg (scast (get_u8 p)) (drop 2 b))
        else if lead = muint8 then
          (if l < 2 then Inl ErrShortBytes else Inr (ucast (get_u8 p), drop 2 b))
        else if lead = mint16 then
          (if l < 3 then Inl ErrShortBytes else nonneg (scast (get_u16 p)) (drop 3 b))
        else if lead = muint16 then
          (if l < 3 then Inl ErrShortBytes else Inr (ucast (get_u16 p), drop 3 b))
        else if lead = mint32 then
          (if l < 5 then Inl ErrShortBytes else nonneg (scast (get_u32 p)) (drop 5 b))
        else if lead = muint32 then
          (if l < 5 then Inl ErrShortBytes else Inr (ucast (get_u32 p), drop 5 b))
        else if lead = mint64 then
          (if l < 9 then Inl ErrShortBytes else nonneg (get_u64 p) (drop 9 b))
        else if lead = muint64 then
          (if l < 9 then Inl ErrShortBytes else Inr (get_u64 p, drop 9 b))
        else if isnfixint lead then Inl (UintBelowZero (scast lead))
        else Inl (bad_prefix UintType lead))"

definition read_uint32_bytes :: "bytes \<Rightarrow> merr + u32 \<times> bytes" where
  "read_uint32_bytes b =
     bind_res (read_uint64_bytes b)
       (\<lambda>(v, o'). if 0xffffffff < v then Inl (UintOverflow v 32) else Inr (ucast v, o'))"

definition read_int64_bytes :: "bytes \<Rightarrow> merr + 64 word \<times> bytes" where
  "read_int64_bytes b =
     (let l = length b in
      if l < 1 then Inl ErrShortBytes
      else let lead = u8_of_byte (b ! 0); p = drop 1 b in
        if isfixint lead then Inr (ucast lead, p)
        else if isnfixint lead then Inr (scast lead, p)
        else if lead = mint8 then
          (if l < 2 then Inl ErrShortBytes else Inr (scast (get_u8 p), drop 2 b))
        else if lead = muint8 then
          (if l < 2 then Inl ErrShortBytes else Inr (ucast (get_u8 p), drop 2 b))
        else if lead = mint16 then
          (if l < 3 then Inl ErrShortBytes else Inr (scast (get_u16 p), drop 3 b))
        else if lead = muint16 then
          (if l < 3 then Inl ErrShortBytes else Inr (ucast (get_u16 p), drop 3 b))
        else if lead = mint32 then
          (if l < 5 then Inl ErrShortBytes else Inr (scast (get_u32 p), drop 5 b))
        else if lead = muint32 then
          (if l < 5 then Inl ErrShortBytes else Inr (ucast (get_u32 p), drop 5 b))
        else if lead = mint64 then
          (if l < 9 then Inl ErrShortBytes else Inr (get_u64 p, drop 9 b))
        else if lead = muint64 then
          (if l < 9 then Inl ErrShortBytes
           else if 0x7fffffffffffffff < get_u64 p then Inl (UintOverflow (get_u64 p) 64)
           else Inr (get_u64 p, drop 9 b))
        else Inl (bad_prefix IntType lead))"

section \<open>Appended values are read back\<close>

lemma ucast_ucast_small:
  fixes w :: "'a::len word"
  assumes "unat w < 2 ^ LENGTH('b::len)"
  shows "ucast (ucast w :: 'b word) = w"
  using assms
  by (simp add: word_unat_eq_iff unsigned_ucast_eq unsigned_take_bit_eq take_bit_nat_eq_self_iff take_bit_small)

lemma unat_ucast_small:
  fixes w :: "'a::len word"
  assumes "unat w < 2 ^ LENGTH('b::len)"
  shows "unat (ucast w :: 'b word) = unat w"
  using assms by (simp add: unsigned_ucast_eq unsigned_take_bit_eq take_bit_nat_eq_self_iff)

lemma unat_word_of_nat_small:
  "n < 2 ^ LENGTH('a::len) \<Longrightarrow> unat (word_of_nat n :: 'a word) = n"
  by (simp add: unsigned_of_nat take_bit_nat_eq_self_iff)

lemma drop_prefixed [simp]:
  "drop 2 (c # put_u8 x @ rest) = rest"
  "drop 3 (c # put_u16 h @ rest) = rest"
  "drop 5 (c # put_u32 w @ rest) = rest"
  "drop 9 (c # put_u64 q @ rest) = rest"
  by (simp_all add: drop_Cons numeral_eq_Suc split: nat.splits)

lemma append_map_header_append: "append_map_header b n = b @ append_map_header [] n"
  by (simp add: append_map_header_def)

lemma append_array_header_append: "append_array_header b n = b @ append_array_header [] n"
  by (simp add: append_array_header_def)

lemma append_string_append: "append_string b s = b @ append_string [] s"
  by (simp add: append_string_def Let_def)

lemma append_bytes_append: "append_bytes b s = b @ append_bytes [] s"
  by (simp add: append_bytes_def Let_def)

lemma append_uint32_append: "append_uint32 b n = b @ append_uint32 [] n"
  by (simp add: append_uint32_def append_uint64_def)

lemma append_int64_append: "append_int64 b n = b @ append_int64 [] n"
  by (simp add: append_int64_def)

lemma read_map_header_bytes_append:
  "read_map_header_bytes (append_map_header [] n @ rest) = Inr (n, rest)"
proof -
  consider (tiny) "unat n < 16" | (h) "16 \<le> unat n" "unat n < 65536" | (w) "65536 \<le> unat n"
    by linarith
  then show ?thesis
  proof cases
    case tiny
    then have "unat (ucast n :: u8) < 16" "ucast (ucast n :: u8) = n"
      by (simp_all add: unat_ucast_small ucast_ucast_small)
    with tiny show ?thesis
      by (simp add: append_map_header_def read_map_header_bytes_def word_le_nat_alt fix_values)
  next
    case h
    then have "ucast (ucast n :: u16) = n" by (simp add: ucast_ucast_small)
    with h show ?thesis
      by (simp add: append_map_header_def read_map_header_bytes_def word_le_nat_alt isfixmap_def)
  next
    case w
    then show ?thesis
      by (simp add: append_map_header_def read_map_header_bytes_def word_le_nat_alt isfixmap_def)
  qed
qed

lemma read_array_header_bytes_append:
  "read_array_header_bytes (append_array_header [] n @ rest) = Inr (n, rest)"
proof -
  consider (tiny) "unat n < 16" | (h) "16 \<le> unat n" "unat n < 65536" | (w) "65536 \<le> unat n"
    by linarith
  then show ?thesis
  proof cases
    case tiny
    then have "unat (ucast n :: u8) < 16" "ucast (ucast n :: u8) = n"
      by (simp_all add: unat_ucast_small ucast_ucast_small)
    with tiny show ?thesis
      by (simp add: append_array_header_def read_array_header_bytes_def word_le_nat_alt fix_values)
  next
    case h
    then have "ucast (ucast n :: u16) = n" by (simp add: ucast_ucast_small)
    with h show ?thesis
      by (simp add: append_array_header_def read_array_header_bytes_def word_le_nat_alt isfixarray_def)
  next
    case w
    then show ?thesis
      by (simp add: append_array_header_def read_array_header_bytes_def word_le_nat_alt isfixarray_def)
  qed
qed

lemma take_bytes_append [simp]: "n = length s \<Longrightarrow> take_bytes n (s @ rest) = Inr (s, rest)"
  by (simp add: take_bytes_def)

lemma read_string_zc_append:
  assumes "length s < 2 ^ 32"
  shows "read_string_zc (append_string [] s @ rest) = Inr (s, rest)"
proof -
  consider (tiny) "length s < 32" | (b) "32 \<le> length s" "length s < 256"
    | (h) "256 \<le> length s" "length s < 65536" | (w) "65536 \<le> length s" "length s < 2 ^ 32"
    using assms by linarith
  then show ?thesis
  proof cases
    case tiny
    then have "unat (word_of_nat (length s) :: u8) = length s"
      by (simp add: unat_word_of_nat_small)
    with tiny show ?thesis
      by (simp add: append_string_def read_string_zc_def fix_values)
  next
    case b
    then have "unat (word_of_nat (length s) :: u8) = length s"
      by (simp add: unat_word_of_nat_small)
    with b show ?thesis
      by (simp add: append_string_def read_string_zc_def isfixstr_def)
  next
    case h
    then have "unat (word_of_nat (length s) :: u16) = length s"
      by (simp add: unat_word_of_nat_small)
    with h show ?thesis
      by (simp add: append_string_def read_string_zc_def isfixstr_def)
  next
    case w
    then have "unat (word_of_nat (length s) :: u32) = length s"
      by (simp add: unat_word_of_nat_small)
    with w show ?thesis
      by (simp add: append_string_def read_string_zc_def isfixstr_def)
  qed
qed

lemma read_string_bytes_append:
  "length s < 2 ^ 32 \<Longrightarrow> read_string_bytes (append_string [] s @ rest) = Inr (s, rest)"
  by (simp add: read_string_bytes_def read_string_zc_append)

text \<open>The field names of the codecs are strings of fewer than 32 bytes, written as literal bytes.\<close>

lemma append_string_short:
  "length s < 32 \<Longrightarrow> append_string [] s = byte_of_u8 (wfixstr (word_of_nat (length s))) # s"
  by (simp add: append_string_def)

lemma read_map_key_zc_append:
  "length s < 2 ^ 32 \<Longrightarrow> read_map_key_zc (append_string [] s @ rest) = Inr (s, rest)"
  by (simp add: read_map_key_zc_def read_string_zc_append)

lemma copy_into_full [simp]: "length src = length dst \<Longrightarrow> copy_into dst (src @ rest) = src"
  by (simp add: copy_into_def)

lemma read_exact_bytes_append:
  assumes "length s = length into" and "length s < 256"
  shows "read_exact_bytes (append_bytes [] s @ rest) into = Inr (s, rest)"
proof -
  have "unat (word_of_nat (length s) :: u8) = length s"
    using assms by (simp add: unat_word_of_nat_small)
  then have "unat (ucast (word_of_nat (length s) :: u8) :: u32) = length s"
    using assms by (subst unat_ucast_small) simp_all
  then have "ucast (word_of_nat (length s) :: u8) = (word_of_nat (length into) :: u32)"
    using assms by (simp add: word_unat_eq_iff unat_word_of_nat_small)
  then show ?thesis
    using assms
    by (simp add: append_bytes_def read_exact_bytes_def Let_def drop_append)
qed

lemma read_uint64_bytes_append:
  "read_uint64_bytes (append_uint64 [] u @ rest) = Inr (u, rest)"
proof -
  consider (t) "unat u < 128" | (b) "128 \<le> unat u" "unat u < 256" | (h) "256 \<le> unat u" "unat u < 65536"
    | (w) "65536 \<le> unat u" "unat u < 4294967296" | (q) "4294967296 \<le> unat u"
    by linarith
  then show ?thesis
  proof cases
    case t
    then have "unat (ucast u :: u8) < 128" "ucast (ucast u :: u8) = u"
      by (simp_all add: unat_ucast_small ucast_ucast_small)
    with t show ?thesis
      by (simp add: append_uint64_def read_uint64_bytes_def word_le_nat_alt fix_values isfixint_small)
  next
    case b
    then have "ucast (ucast u :: u8) = u" by (simp add: ucast_ucast_small)
    with b show ?thesis
      by (simp add: append_uint64_def read_uint64_bytes_def word_le_nat_alt isfixint_def)
  next
    case h
    then have "ucast (ucast u :: u16) = u" by (simp add: ucast_ucast_small)
    with h show ?thesis
      by (simp add: append_uint64_def read_uint64_bytes_def word_le_nat_alt isfixint_def)
  next
    case w
    then have "ucast (ucast u :: u32) = u" by (simp add: ucast_ucast_small)
    with w show ?thesis
      by (simp add: append_uint64_def read_uint64_bytes_def word_le_nat_alt isfixint_def)
  next
    case q
    then show ?thesis
      by (simp add: append_uint64_def read_uint64_bytes_def word_le_nat_alt isfixint_def)
  qed
qed

lemma read_uint32_bytes_append:
  "read_uint32_bytes (append_uint32 [] n @ rest) = Inr (n, rest)"
proof -
  have "unat n < 2 ^ 32" using unsigned_less[of n, where ?'a = nat] by simp
  then have "unat (ucast n :: u64) < 4294967296" "ucast (ucast n :: u64) = n"
    by (simp_all add: unat_ucast_small ucast_ucast_small)
  then show ?thesis
    by (simp add: append_uint32_def read_uint32_bytes_def read_uint64_bytes_append word_less_nat_alt)
qed

lemma sint_ucast_small:
  fixes i :: "64 word"
  assumes "- (2 ^ (LENGTH('b::len) - 1)) \<le> sint i" "sint i < 2 ^ (LENGTH('b) - 1)" "LENGTH('b) \<le> 64"
  shows "sint (ucast i :: 'b word) = sint i"
proof -
  have "signed_take_bit (LENGTH('b) - 1) (uint i) = signed_take_bit (LENGTH('b) - 1) (sint i)"
    using assms(3) by (simp add: sint_uint)
  also have "\<dots> = sint i"
    using assms(1,2) by (simp add: signed_take_bit_int_eq_self)
  finally show ?thesis
    by (simp add: signed_ucast_eq signed_take_bit_eq_take_bit_shift)
qed

lemma scast_ucast_small:
  fixes i :: "64 word"
  assumes "- (2 ^ (LENGTH('b::len) - 1)) \<le> sint i" "sint i < 2 ^ (LENGTH('b) - 1)" "LENGTH('b) \<le> 64"
  shows "scast (ucast i :: 'b word) = i"
  using sint_ucast_small[OF assms] by (simp add: scast_eq)

lemma sint_nonneg_unat:
  fixes x :: "'a::len word"
  assumes "0 \<le> sint x"
  shows "int (unat x) = sint x"
proof -
  have "sint x < 2 ^ LENGTH('a)"
    by (rule less_le_trans[OF sint_less]) simp
  then have "uint x = sint x"
    using assms by (simp add: uint_sint take_bit_int_eq_self)
  then show ?thesis by simp
qed

lemma wnfixint_small:
  fixes x :: u8
  assumes "- 32 \<le> sint x" "sint x < 0"
  shows "wnfixint x = x"
proof -
  have "sint (NOT x) = signed_take_bit 8 (- sint x - 1)"
    by (simp add: signed_not_eq not_int_def)
  then have "sint (NOT x) = - sint x - 1"
    using assms by (simp add: signed_take_bit_int_eq_self)
  moreover have "int (unat (NOT x)) = sint (NOT x)"
    using assms calculation by (intro sint_nonneg_unat) simp
  ultimately have "unat (NOT x) < 32"
    using assms by linarith
  then have "unat (NOT x) < 2 ^ 5" by simp
  from bit_small[OF this] have "\<forall>m < 8. 5 \<le> m \<longrightarrow> bit x m"
    by (auto simp: bit_simps)
  then show ?thesis
    by (simp add: wnfixint_def bits_u8 bit_simps)
qed

lemma read_int64_bytes_append:
  "read_int64_bytes (append_int64 [] i @ rest) = Inr (i, rest)"
proof (cases "0 \<le> sint i")
  case True
  have u: "int (unat i) = sint i" by (rule sint_nonneg_unat[OF True])
  consider "sint i \<le> 127" | "127 < sint i" "sint i \<le> 32767"
    | "32767 < sint i" "sint i \<le> 2147483647" | "2147483647 < sint i"
    by linarith
  then show ?thesis
  proof cases
    case 1
    with u have "unat i < 128" by linarith
    then have "unat (ucast i :: u8) < 128" "ucast (ucast i :: u8) = i"
      by (simp_all add: unat_ucast_small ucast_ucast_small)
    with 1 True show ?thesis
      by (simp add: append_int64_def read_int64_bytes_def word_sle_eq fix_values isfixint_small)
  next
    case 2
    then have "scast (ucast i :: u16) = i" using True by (simp add: scast_ucast_small)
    with 2 True show ?thesis
      by (simp add: append_int64_def read_int64_bytes_def word_sle_eq isfixint_def isnfixint_def)
  next
    case 3
    then have "scast (ucast i :: u32) = i" using True by (simp add: scast_ucast_small)
    with 3 True show ?thesis
      by (simp add: append_int64_def read_int64_bytes_def word_sle_eq isfixint_def isnfixint_def)
  next
    case 4
    with True show ?thesis
      by (simp add: append_int64_def read_int64_bytes_def word_sle_eq isfixint_def isnfixint_def)
  qed
next
  case False
  then consider "- 32 \<le> sint i" | "sint i < - 32" "- 128 \<le> sint i"
    | "sint i < - 128" "- 32768 \<le> sint i" | "sint i < - 32768" "- 2147483648 \<le> sint i"
    | "sint i < - 2147483648"
    by linarith
  then show ?thesis
  proof cases
    case 1
    then have "sint (ucast i :: u8) = sint i" "scast (ucast i :: u8) = i"
      using False by (simp_all add: sint_ucast_small scast_ucast_small)
    then have "wnfixint (ucast i) = ucast i" "scast (ucast i :: u8) = i"
      using 1 False wnfixint_small[of "ucast i"] by simp_all
    moreover have "\<not> isfixint (ucast i)" "isnfixint (ucast i)"
      using calculation(1) fix_prefixes(5,6)[of "ucast i"] by simp_all
    ultimately show ?thesis
      using 1 False by (simp add: append_int64_def read_int64_bytes_def word_sle_eq)
  next
    case 2
    then have "scast (ucast i :: u8) = i" using False by (simp add: scast_ucast_small)
    with 2 False show ?thesis
      by (simp add: append_int64_def read_int64_bytes_def word_sle_eq isfixint_def isnfixint_def)
  next
    case 3
    then have "scast (ucast i :: u16) = i" using False by (simp add: scast_ucast_small)
    with 3 False show ?thesis
      by (simp add: append_int64_def read_int64_bytes_def word_sle_eq isfixint_def isnfixint_def)
  next
    case 4
    then have "scast (ucast i :: u32) = i" using False by (simp add: scast_ucast_small)
    with 4 False show ?thesis
      by (simp add: append_int64_def read_int64_bytes_def word_sle_eq isfixint_def isnfixint_def)
  next
    case 5
    with False show ?thesis
      by (simp add: append_int64_def read_int64_bytes_def word_sle_eq isfixint_def isnfixint_def)
  qed
qed

section \<open>Skipping a value\<close>

text \<open>
  \<open>getSize\<close>: how many bytes the value at the front has before its parts, and how many parts follow.
\<close>

definition get_size :: "bytes \<Rightarrow> merr + nat \<times> nat" where
  "get_size b =
     (if length b = 0 then Inl ErrShortBytes
      else let lead = u8_of_byte (b ! 0); (size, mode, _) = sizes lead; p = drop 1 b in
        if size = 0 then Inl (InvalidPrefixError lead)
        else if 0 \<le> mode then Inr (size, nat mode)
        else if length b < size then Inl ErrShortBytes
        else if mode = extra8 then Inr (size + unat (get_u8 p), 0)
        else if mode = extra16 then Inr (size + unat (get_u16 p), 0)
        else if mode = extra32 then Inr (size + unat (get_u32 p), 0)
        else if mode = map16v then Inr (size, 2 * unat (get_u16 p))
        else if mode = map32v then Inr (size, 2 * unat (get_u32 p))
        else if mode = array16v then Inr (size, unat (get_u16 p))
        else Inr (size, unat (get_u32 p)))"

lemma get_size_pos: "get_size b = Inr (sz, n) \<Longrightarrow> 0 < sz \<and> b \<noteq> []"
  by (auto simp: get_size_def Let_def split: if_splits prod.splits)

text \<open>
  \<open>Skip\<close> calls itself for the parts of a composite value. \<open>skip_values n b\<close> skips \<open>n\<close> values one after the
  other: the parts of the value at the front are further values to skip before the rest. The lemmas
  below give back the recursion of the code.
\<close>

function skip_values :: "nat \<Rightarrow> bytes \<Rightarrow> merr + bytes" where
  "skip_values n b =
     (if n = 0 then Inr b
      else case get_size b of
          Inl e \<Rightarrow> Inl e
        | Inr (sz, asz) \<Rightarrow>
            if length b < sz then Inl ErrShortBytes else skip_values (asz + (n - 1)) (drop sz b))"
  by pat_completeness auto

termination
  by (relation "measure (\<lambda>(n, b). length b)") (auto dest!: get_size_pos)

declare skip_values.simps [simp del]

definition skip :: "bytes \<Rightarrow> merr + bytes" where
  "skip b = skip_values 1 b"

lemma skip_values_0 [simp]: "skip_values 0 b = Inr b"
  by (simp add: skip_values.simps)

lemma skip_values_add:
  "skip_values (m + n) b = bind_res (skip_values m b) (skip_values n)"
proof (induction m b rule: skip_values.induct)
  case (1 m b)
  show ?case
  proof (cases m)
    case (Suc k)
    show ?thesis
    proof (cases "get_size b")
      case (Inr r)
      obtain sz asz where r: "r = (sz, asz)" by (cases r)
      show ?thesis
      proof (cases "length b < sz")
        case False
        have "skip_values (asz + k + n) (drop sz b) =
          bind_res (skip_values (asz + k) (drop sz b)) (skip_values n)"
          using 1[OF _ Inr r[symmetric] False] Suc by simp
        then show ?thesis
          using Suc Inr r False
          by (simp add: skip_values.simps[of "Suc (k + n)"] skip_values.simps[of "Suc k"] add.assoc)
      qed (simp add: Suc Inr r skip_values.simps[of "Suc (k + n)"] skip_values.simps[of "Suc k"])
    qed (simp add: Suc skip_values.simps[of "Suc (k + n)"] skip_values.simps[of "Suc k"])
  qed simp
qed

lemma skip_values_Suc: "skip_values (Suc n) b = bind_res (skip b) (skip_values n)"
  using skip_values_add[of 1 n b] by (simp add: skip_def)

lemma skip_unfold:
  "skip b = bind_res (get_size b)
     (\<lambda>(sz, asz). if length b < sz then Inl ErrShortBytes else skip_values asz (drop sz b))"
  by (simp add: skip_def skip_values.simps[of "Suc 0"] bind_res_def split: sum.splits prod.splits)

end
