(* ===== verification/MsgStream.thy ===== *)
theory MsgStream
  imports Msgpack
begin

text \<open>
  The streaming side of the MessagePack library (vendor/github.com/tinylib/msgp/msgp/read.go and
  write.go): a reader is the bytes its source still delivers, a writer is a buffer in front of a
  sink that may fail. The combinators for the generated codecs are here too, with the locale of a
  codec: what is written is read back.
\<close>

named_theorems codec_simps \<open>written values are read back\<close>
named_theorems write_simps \<open>appending to a slice is appending to the empty slice\<close>

section \<open>Loops of the generated decoders\<close>

text \<open>\<open>for n > 0 { n--; ... }\<close> over the bytes left; a map entry is assigned, an array element appended.\<close>

fun read_n :: "nat \<Rightarrow> ('s \<Rightarrow> bytes \<Rightarrow> merr + 's \<times> bytes) \<Rightarrow> 's \<Rightarrow> bytes \<Rightarrow> merr + 's \<times> bytes" where
  "read_n 0 f s b = Inr (s, b)"
| "read_n (Suc n) f s b = bind_res (f s b) (\<lambda>(s', b'). read_n n f s' b')"

definition read_map ::
    "(bytes \<Rightarrow> merr + u32 \<times> bytes) \<Rightarrow> (bytes \<Rightarrow> merr + 'k \<times> bytes) \<Rightarrow> (bytes \<Rightarrow> merr + 'v \<times> bytes) \<Rightarrow>
     bytes \<Rightarrow> merr + ('k, 'v) gomap \<times> bytes" where
  "read_map header rk rv b =
     bind_res (header b) (\<lambda>(n, b1).
       read_n (unat n)
         (\<lambda>m b2. bind_res (rk b2) (\<lambda>(k, b3). bind_res (rv b3) (\<lambda>(v, b4). Inr (gm_put k v m, b4)))) [] b1)"

definition read_array ::
    "(bytes \<Rightarrow> merr + u32 \<times> bytes) \<Rightarrow> (bytes \<Rightarrow> merr + 'v \<times> bytes) \<Rightarrow> bytes \<Rightarrow> merr + 'v list \<times> bytes" where
  "read_array header rv b =
     bind_res (header b) (\<lambda>(n, b1).
       read_n (unat n) (\<lambda>xs b2. bind_res (rv b2) (\<lambda>(v, b3). Inr (xs @ [v], b3))) [] b1)"

definition put_map ::
    "(bytes \<Rightarrow> 'k \<Rightarrow> bytes) \<Rightarrow> (bytes \<Rightarrow> 'v \<Rightarrow> bytes) \<Rightarrow> bytes \<Rightarrow> ('k, 'v) gomap \<Rightarrow> bytes" where
  "put_map pk pv o' m =
     fold (\<lambda>(k, v) b. pv (pk b k) v) m (append_map_header o' (word_of_nat (length m)))"

definition put_array :: "(bytes \<Rightarrow> 'v \<Rightarrow> bytes) \<Rightarrow> bytes \<Rightarrow> 'v list \<Rightarrow> bytes" where
  "put_array pv o' xs = fold (\<lambda>x b. pv b x) xs (append_array_header o' (word_of_nat (length xs)))"

section \<open>A codec\<close>

text \<open>
  \<open>put\<close> appends the encoding of a value to a slice, \<open>get\<close> reads one from the front of the bytes left;
  the values \<open>ok\<close> holds of are read back, and what follows them is left alone.
\<close>

locale codec =
  fixes put :: "bytes \<Rightarrow> 'a \<Rightarrow> bytes" and get :: "bytes \<Rightarrow> merr + 'a \<times> bytes" and ok :: "'a \<Rightarrow> bool"
  assumes put_append: "put b x = b @ put [] x"
    and get_put: "ok x \<Longrightarrow> get (put [] x @ rest) = Inr (x, rest)"
begin

lemma fold_put: "fold (\<lambda>x b. put b x) xs b = b @ concat (map (put []) xs)"
proof (induction xs arbitrary: b)
  case (Cons x xs)
  then show ?case using put_append[of b x] by simp
qed simp

lemma read_n_put:
  assumes "list_all ok xs"
  shows "read_n (length xs) (\<lambda>ys b2. bind_res (get b2) (\<lambda>(v, b3). Inr (ys @ [v], b3))) ys
    (concat (map (put []) xs) @ rest) = Inr (ys @ xs, rest)"
  using assms by (induction xs arbitrary: ys) (auto simp: get_put)

lemma put_array_append: "put_array put b xs = b @ put_array put [] xs"
  using append_array_header_append[of b] by (simp add: put_array_def fold_put)

lemma read_array_put:
  assumes "list_all ok xs" and "length xs < 2 ^ 32"
    and "\<And>n rest. header (append_array_header [] n @ rest) = Inr (n, rest)"
  shows "read_array header get (put_array put [] xs @ rest) = Inr (xs, rest)"
  using assms read_n_put[of xs "[]" rest]
  by (simp add: read_array_def put_array_def fold_put unat_word_of_nat_small)

lemma injective:
  assumes "ok x" "ok y" "put [] x = put [] y"
  shows "x = y"
  using assms get_put[of x "[]"] get_put[of y "[]"] by simp

end

locale map_codec =
  K: codec putk getk okk + V: codec putv getv okv
  for putk :: "bytes \<Rightarrow> 'k \<Rightarrow> bytes" and getk and okk and putv :: "bytes \<Rightarrow> 'v \<Rightarrow> bytes" and getv and okv
begin

lemma fold_put_entries:
  "fold (\<lambda>(k, v) b. putv (putk b k) v) m b = b @ concat (map (\<lambda>(k, v). putk [] k @ putv [] v) m)"
proof (induction m arbitrary: b)
  case (Cons kv m)
  obtain k v where kv: "kv = (k, v)" by (cases kv)
  have "putv (putk b k) v = b @ putk [] k @ putv [] v"
    using K.put_append[of b k] V.put_append[of "putk b k" v] by simp
  then show ?case using Cons[of "putv (putk b k) v"] by (simp add: kv)
qed simp

lemma put_map_append: "put_map putk putv b m = b @ put_map putk putv [] m"
  using append_map_header_append[of b] by (simp add: put_map_def fold_put_entries)

lemma read_n_entries:
  assumes "list_all (\<lambda>(k, v). okk k \<and> okv v) m" and "gm_wf (m0 @ m)"
  shows "read_n (length m)
      (\<lambda>m b2. bind_res (getk b2) (\<lambda>(k, b3). bind_res (getv b3) (\<lambda>(v, b4). Inr (gm_put k v m, b4)))) m0
      (concat (map (\<lambda>(k, v). putk [] k @ putv [] v) m) @ rest) = Inr (m0 @ m, rest)"
  using assms
proof (induction m arbitrary: m0)
  case (Cons kv m)
  obtain k v where kv: "kv = (k, v)" by (cases kv)
  have "gm_put k v m0 = m0 @ [(k, v)]"
    using Cons.prems(2) by (induction m0) (auto simp: kv)
  moreover have "gm_wf ((m0 @ [(k, v)]) @ m)" using Cons.prems(2) by (simp add: kv)
  ultimately show ?case
    using Cons.prems(1) Cons.IH[of "m0 @ [(k, v)]"]
    by (simp add: kv K.get_put V.get_put)
qed simp

lemma read_map_put:
  assumes "list_all (\<lambda>(k, v). okk k \<and> okv v) m" and "gm_wf m" and "length m < 2 ^ 32"
    and "\<And>n rest. header (append_map_header [] n @ rest) = Inr (n, rest)"
  shows "read_map header getk getv (put_map putk putv [] m @ rest) = Inr (m, rest)"
  using assms read_n_entries[of m "[]" rest]
  by (simp add: read_map_def put_map_def fold_put_entries unat_word_of_nat_small)

end

section \<open>The reader\<close>

text \<open>
  The functions of the reader have the branches of their \<open>Bytes\<close> counterparts; where bytes are
  missing they return the error of the source. \<open>ReadString\<close>, \<open>ReadMapKeyPtr\<close> and \<open>ReadExactBytes\<close>
  differ in more than that.
\<close>

definition from_stream :: "merr + 'a \<Rightarrow> merr + 'a" where
  "from_stream m = (case m of Inl ErrShortBytes \<Rightarrow> Inl StreamError | r \<Rightarrow> r)"

lemma from_stream_Inr [simp]: "from_stream m = Inr r \<longleftrightarrow> m = Inr r"
  by (auto simp: from_stream_def split: sum.splits merr.splits)

definition rd_map_header :: "bytes \<Rightarrow> merr + u32 \<times> bytes" where
  "rd_map_header b = from_stream (read_map_header_bytes b)"

definition rd_array_header :: "bytes \<Rightarrow> merr + u32 \<times> bytes" where
  "rd_array_header b = from_stream (read_array_header_bytes b)"

definition rd_uint32 :: "bytes \<Rightarrow> merr + u32 \<times> bytes" where
  "rd_uint32 b = from_stream (read_uint32_bytes b)"

definition rd_int64 :: "bytes \<Rightarrow> merr + 64 word \<times> bytes" where
  "rd_int64 b = from_stream (read_int64_bytes b)"

definition rd_nil :: "bytes \<Rightarrow> merr + bytes" where
  "rd_nil b = from_stream (read_nil_bytes b)"

definition next_bytes :: "nat \<Rightarrow> bytes \<Rightarrow> merr + bytes \<times> bytes" where
  "next_bytes n b = (if length b < n then Inl StreamError else Inr (take n b, drop n b))"

definition rd_string :: "bytes \<Rightarrow> merr + string \<times> bytes" where
  "rd_string b =
     (if b = [] then Inl StreamError
      else let lead = u8_of_byte (b ! 0) in
        if isfixstr lead then next_bytes (unat (rfixstr lead)) (drop 1 b)
        else if lead = mstr8 then
          bind_res (next_bytes 2 b) (\<lambda>(p, b1). next_bytes (unat (get_u8 (drop 1 p))) b1)
        else if lead = mstr16 then
          bind_res (next_bytes 3 b) (\<lambda>(p, b1). next_bytes (unat (get_u16 (drop 1 p))) b1)
        else if lead = mstr32 then
          bind_res (next_bytes 5 b) (\<lambda>(p, b1). next_bytes (unat (get_u32 (drop 1 p))) b1)
        else Inl (bad_prefix StrType lead))"

definition rd_map_key :: "bytes \<Rightarrow> merr + bytes \<times> bytes" where
  "rd_map_key b =
     (let fill = (\<lambda>n b1. if n = 0 then Inl ErrShortBytes else next_bytes n b1) in
      if b = [] then Inl StreamError
      else let lead = u8_of_byte (b ! 0) in
        if isfixstr lead then fill (unat (rfixstr lead)) (drop 1 b)
        else if lead = mstr8 \<or> lead = mbin8 then
          bind_res (next_bytes 2 b) (\<lambda>(p, b1). fill (unat (get_u8 (drop 1 p))) b1)
        else if lead = mstr16 \<or> lead = mbin16 then
          bind_res (next_bytes 3 b) (\<lambda>(p, b1). fill (unat (get_u16 (drop 1 p))) b1)
        else if lead = mstr32 \<or> lead = mbin32 then
          bind_res (next_bytes 5 b) (\<lambda>(p, b1). fill (unat (get_u32 (drop 1 p))) b1)
        else Inl (bad_prefix StrType lead))"

definition rd_exact_bytes :: "bytes \<Rightarrow> bytes \<Rightarrow> merr + bytes \<times> bytes" where
  "rd_exact_bytes b into =
     (let finish = (\<lambda>n skp.
            if n \<noteq> length into then Inl (ArrayError (word_of_nat (length into)) (word_of_nat n))
            else next_bytes n (drop skp b)) in
      if length b < 2 then Inl StreamError
      else let lead = u8_of_byte (b ! 0) in
        if lead = mbin8 then finish (unat (get_u8 (drop 1 b))) 2
        else if lead = mbin16 then
          (if length b < 3 then Inl StreamError else finish (unat (get_u16 (drop 1 b))) 3)
        else if lead = mbin32 then
          (if length b < 5 then Inl StreamError else finish (unat (get_u32 (drop 1 b))) 5)
        else Inl (bad_prefix BinType lead))"

text \<open>
  \<open>Skip\<close> looks at five bytes when the reader has buffered that many, and at as many as it needs
  otherwise; only for the six-byte prefix of a long extension value the first way fails where the
  second does not. \<open>buffered\<close> tells for the bytes left whether five are in the buffer.
\<close>

definition rd_get_size :: "(bytes \<Rightarrow> bool) \<Rightarrow> bytes \<Rightarrow> merr + nat \<times> nat" where
  "rd_get_size buffered b =
     (if buffered b \<and> 5 \<le> length b then get_size (take 5 b) else from_stream (get_size b))"

lemma rd_get_size_pos: "rd_get_size buffered b = Inr (sz, n) \<Longrightarrow> 0 < sz \<and> b \<noteq> []"
  using get_size_pos by (fastforce simp: rd_get_size_def split: if_splits)

function rd_skip_values :: "(bytes \<Rightarrow> bool) \<Rightarrow> nat \<Rightarrow> bytes \<Rightarrow> merr + bytes" where
  "rd_skip_values buffered n b =
     (if n = 0 then Inr b
      else case rd_get_size buffered b of
          Inl e \<Rightarrow> Inl e
        | Inr (sz, asz) \<Rightarrow>
            if length b < sz then Inl StreamError
            else rd_skip_values buffered (asz + (n - 1)) (drop sz b))"
  by pat_completeness auto

termination
  by (relation "measure (\<lambda>(_, n, b). length b)") (auto dest!: rd_get_size_pos)

declare rd_skip_values.simps [simp del]

definition rd_skip :: "(bytes \<Rightarrow> bool) \<Rightarrow> bytes \<Rightarrow> merr + bytes" where
  "rd_skip buffered b = rd_skip_values buffered 1 b"

text \<open>Where the slice functions succeed on what was appended, so do those of the reader.\<close>

lemma rd_header_append:
  "rd_map_header (append_map_header [] n @ rest) = Inr (n, rest)"
  "rd_array_header (append_array_header [] n @ rest) = Inr (n, rest)"
  by (simp_all add: rd_map_header_def rd_array_header_def read_map_header_bytes_append
      read_array_header_bytes_append)

lemma rd_number_append:
  "rd_uint32 (append_uint32 [] u @ rest) = Inr (u, rest)"
  "rd_int64 (append_int64 [] i @ rest) = Inr (i, rest)"
  by (simp_all add: rd_uint32_def rd_int64_def read_uint32_bytes_append read_int64_bytes_append)

lemma get_take [simp]:
  "2 \<le> length b \<Longrightarrow> get_u8 (drop 1 (take 2 b)) = get_u8 (drop 1 b)"
  "3 \<le> length b \<Longrightarrow> get_u16 (drop 1 (take 3 b)) = get_u16 (drop 1 b)"
  "5 \<le> length b \<Longrightarrow> get_u32 (drop 1 (take 5 b)) = get_u32 (drop 1 b)"
  by (simp_all add: get_u8_def get_u16_def get_u32_def)

lemmas get_take_Suc [simp] = get_take[unfolded One_nat_def]

lemma next_bytes_take: "take_bytes n b = Inr r \<longleftrightarrow> next_bytes n b = Inr r"
  by (auto simp: take_bytes_def next_bytes_def)

lemma next_bytes_enough: "n \<le> length b \<Longrightarrow> next_bytes n b = Inr (take n b, drop n b)"
  by (simp add: next_bytes_def)

lemma if_short_Inr:
  "(if l < (n::nat) then Inl e else m) = Inr r \<longleftrightarrow> n \<le> l \<and> m = Inr r"
  by auto

lemma long_strings_not_fix [simp]:
  "\<not> isfixstr mstr8" "\<not> isfixstr mstr16" "\<not> isfixstr mstr32"
  by (simp_all add: isfixstr_def)

lemma rd_string_zc:
  assumes "read_string_zc b = Inr r"
  shows "rd_string b = Inr r"
proof -
  define lead where "lead = u8_of_byte (b ! 0)"
  have b: "b \<noteq> []" using assms by (auto simp: read_string_zc_def)
  show ?thesis
    using assms b
    unfolding read_string_zc_def rd_string_def Let_def lead_def[symmetric]
    by (cases "isfixstr lead"; simp add: if_short_Inr next_bytes_take split: if_split_asm)
      (simp_all add: next_bytes_enough)
qed

lemma rd_string_append:
  "length s < 2 ^ 32 \<Longrightarrow> rd_string (append_string [] s @ rest) = Inr (s, rest)"
  by (rule rd_string_zc[OF read_string_zc_append])

lemma rd_map_key_zc:
  assumes "read_string_zc b = Inr (s, rest)" and "s \<noteq> []"
  shows "rd_map_key b = Inr (s, rest)"
proof -
  define lead where "lead = u8_of_byte (b ! 0)"
  have b: "b \<noteq> []" using assms by (auto simp: read_string_zc_def)
  have nz: "0 < n" if "next_bytes n b' = Inr (s, rest)" for n b'
    using that assms(2) by (auto simp: next_bytes_def split: if_splits)
  show ?thesis
    using assms(1) b
    unfolding read_string_zc_def rd_map_key_def Let_def lead_def[symmetric]
    by (cases "isfixstr lead"; simp add: if_short_Inr next_bytes_take split: if_split_asm)
      (auto simp: next_bytes_enough simp del: neq0_conv dest: nz)
qed

lemma rd_map_key_append:
  "length s < 2 ^ 32 \<Longrightarrow> s \<noteq> [] \<Longrightarrow> rd_map_key (append_string [] s @ rest) = Inr (s, rest)"
  by (rule rd_map_key_zc[OF read_string_zc_append])

lemma rd_exact_bytes_append:
  assumes "length s = length into" and "length s < 256"
  shows "rd_exact_bytes (append_bytes [] s @ rest) into = Inr (s, rest)"
proof -
  have "unat (word_of_nat (length s) :: u8) = length s"
    using assms by (simp add: unat_word_of_nat_small)
  then show ?thesis
    using assms by (simp add: append_bytes_def rd_exact_bytes_def Let_def next_bytes_def)
qed

section \<open>The writer\<close>

text \<open>
  \<open>w_sink\<close> decides what the \<open>io.Writer\<close> behind the buffer does with a \<open>Write\<close>, given what it has taken so
  far: \<open>None\<close> takes everything, \<open>Some n\<close> takes \<open>n\<close> bytes and fails. \<open>Inl\<close> is an error, with the writer as
  it is left.
\<close>

record writer =
  w_buf :: bytes
  w_size :: nat
  w_out :: bytes
  w_sink :: "bytes \<Rightarrow> bytes \<Rightarrow> nat option"

type_synonym encoder = "writer \<Rightarrow> writer + writer"

definition new_writer :: "(bytes \<Rightarrow> bytes \<Rightarrow> nat option) \<Rightarrow> writer" where
  "new_writer sink = \<lparr>w_buf = [], w_size = 2048, w_out = [], w_sink = sink\<rparr>"

definition sink_write :: "bytes \<Rightarrow> encoder" where
  "sink_write p w =
     (case w_sink w (w_out w) p of
        None \<Rightarrow> Inr (w\<lparr>w_out := w_out w @ p\<rparr>)
      | Some n \<Rightarrow> Inl (w\<lparr>w_out := w_out w @ take n p\<rparr>))"

definition flush :: encoder where
  "flush w =
     (if w_buf w = [] then Inr w
      else case w_sink w (w_out w) (w_buf w) of
          None \<Rightarrow> Inr (w\<lparr>w_out := w_out w @ w_buf w, w_buf := []\<rparr>)
        | Some n \<Rightarrow> Inl (w\<lparr>w_out := w_out w @ take n (w_buf w), w_buf := drop n (w_buf w)\<rparr>))"

definition make_room :: "nat \<Rightarrow> encoder" where
  "make_room need w = (if w_size w - length (w_buf w) < need then flush w else Inr w)"

text \<open>\<open>Append\<close> and \<open>push\<close>; \<open>prefix8\<close> to \<open>prefix64\<close> make room for the prefix and store it.\<close>

definition w_append :: "bytes \<Rightarrow> encoder" where
  "w_append b w =
     bind_res (make_room (length b) w)
       (\<lambda>w1. Inr (w1\<lparr>w_buf := w_buf w1 @ take (w_size w1 - length (w_buf w1)) b\<rparr>))"

definition w_prefix :: "bytes \<Rightarrow> encoder" where
  "w_prefix b w = bind_res (make_room (length b) w) (\<lambda>w1. Inr (w1\<lparr>w_buf := w_buf w1 @ b\<rparr>))"

definition w_write :: "bytes \<Rightarrow> encoder" where
  "w_write p w =
     (if w_size w - length (w_buf w) < length p then
        bind_res (flush w) (\<lambda>w1.
          if w_size w1 < length p then sink_write p w1
          else Inr (w1\<lparr>w_buf := w_buf w1 @ p\<rparr>))
      else Inr (w\<lparr>w_buf := w_buf w @ p\<rparr>))"

definition write_map_header :: "u32 \<Rightarrow> encoder" where
  "write_map_header sz =
     (if sz \<le> 15 then w_prefix [byte_of_u8 (wfixmap (ucast sz))]
      else if sz \<le> 0xffff then w_prefix (byte_of_u8 mmap16 # put_u16 (ucast sz))
      else w_prefix (byte_of_u8 mmap32 # put_u32 sz))"

definition write_array_header :: "u32 \<Rightarrow> encoder" where
  "write_array_header sz =
     (if sz \<le> 15 then w_prefix [byte_of_u8 (wfixarray (ucast sz))]
      else if sz \<le> 0xffff then w_prefix (byte_of_u8 marray16 # put_u16 (ucast sz))
      else w_prefix (byte_of_u8 marray32 # put_u32 sz))"

definition write_nil :: encoder where
  "write_nil = w_prefix [byte_of_u8 mnil]"

definition write_bytes :: "bytes \<Rightarrow> encoder" where
  "write_bytes b w =
     (let sz = word_of_nat (length b) :: u32 in
      bind_res
        ((if sz \<le> 0xff then w_prefix (byte_of_u8 mbin8 # put_u8 (ucast sz))
          else if sz \<le> 0xffff then w_prefix (byte_of_u8 mbin16 # put_u16 (ucast sz))
          else w_prefix (byte_of_u8 mbin32 # put_u32 sz)) w)
        (w_write b))"

definition write_string :: "string \<Rightarrow> encoder" where
  "write_string s w =
     (let sz = word_of_nat (length s) :: u32 in
      bind_res
        ((if sz \<le> 31 then w_prefix [byte_of_u8 (wfixstr (ucast sz))]
          else if sz \<le> 0xff then w_prefix (byte_of_u8 mstr8 # put_u8 (ucast sz))
          else if sz \<le> 0xffff then w_prefix (byte_of_u8 mstr16 # put_u16 (ucast sz))
          else w_prefix (byte_of_u8 mstr32 # put_u32 sz)) w)
        (w_write s))"

definition write_uint64 :: "u64 \<Rightarrow> encoder" where
  "write_uint64 u =
     (if u \<le> 0x7f then w_prefix [byte_of_u8 (wfixint (ucast u))]
      else if u \<le> 0xff then w_prefix (byte_of_u8 muint8 # put_u8 (ucast u))
      else if u \<le> 0xffff then w_prefix (byte_of_u8 muint16 # put_u16 (ucast u))
      else if u \<le> 0xffffffff then w_prefix (byte_of_u8 muint32 # put_u32 (ucast u))
      else w_prefix (byte_of_u8 muint64 # put_u64 u))"

definition write_uint32 :: "u32 \<Rightarrow> encoder" where
  "write_uint32 u = write_uint64 (ucast u)"

definition write_int64 :: "64 word \<Rightarrow> encoder" where
  "write_int64 i =
     (if 0 \<le>s i then
        (if i \<le>s 0x7f then w_prefix [byte_of_u8 (wfixint (ucast i))]
         else if i \<le>s 0x7fff then w_prefix (byte_of_u8 mint16 # put_u16 (ucast i))
         else if i \<le>s 0x7fffffff then w_prefix (byte_of_u8 mint32 # put_u32 (ucast i))
         else w_prefix (byte_of_u8 mint64 # put_u64 i))
      else if - 32 \<le>s i then w_prefix [byte_of_u8 (wnfixint (ucast i))]
      else if - 128 \<le>s i then w_prefix (byte_of_u8 mint8 # put_u8 (ucast i))
      else if - 32768 \<le>s i then w_prefix (byte_of_u8 mint16 # put_u16 (ucast i))
      else if - 2147483648 \<le>s i then w_prefix (byte_of_u8 mint32 # put_u32 (ucast i))
      else w_prefix (byte_of_u8 mint64 # put_u64 i))"

text \<open>\<open>msgp.Encode\<close>: a writer in front of the sink, the value, and a flush when that went well.\<close>

definition encode :: "encoder \<Rightarrow> (bytes \<Rightarrow> bytes \<Rightarrow> nat option) \<Rightarrow> writer + writer" where
  "encode f sink = bind_res (f (new_writer sink)) flush"

section \<open>What an encoder writes\<close>

text \<open>
  \<open>writes f bs\<close>: the encoder \<open>f\<close> puts the bytes \<open>bs\<close> behind everything written so far, whatever the buffer
  holds; when the sink fails, what the sink has taken is a prefix of that, and it only stops on a
  failure of the sink.
\<close>

definition written :: "writer \<Rightarrow> bytes" where
  "written w = w_out w @ w_buf w"

definition writer_ok :: "writer \<Rightarrow> bool" where
  "writer_ok w \<longleftrightarrow> 18 \<le> w_size w \<and> length (w_buf w) \<le> w_size w"

definition writes :: "encoder \<Rightarrow> bytes \<Rightarrow> bool" where
  "writes f bs \<longleftrightarrow>
     (\<forall>w. writer_ok w \<longrightarrow>
        (case f w of
           Inr w' \<Rightarrow> writer_ok w' \<and> w_sink w' = w_sink w \<and>
             written w' = written w @ bs
         | Inl w' \<Rightarrow> prefix (w_out w') (written w @ bs) \<and> w_sink w \<noteq> (\<lambda>_ _. None)))"

lemma writesI:
  assumes "\<And>w. writer_ok w \<Longrightarrow>
      (case f w of
           Inr w' \<Rightarrow> writer_ok w' \<and> w_sink w' = w_sink w \<and>
             written w' = written w @ bs
         | Inl w' \<Rightarrow> prefix (w_out w') (written w @ bs) \<and> w_sink w \<noteq> (\<lambda>_ _. None))"
  shows "writes f bs"
  using assms by (simp add: writes_def)

lemma writesD_Inr:
  "writes f bs \<Longrightarrow> writer_ok w \<Longrightarrow> f w = Inr w' \<Longrightarrow>
     writer_ok w' \<and> w_sink w' = w_sink w \<and> written w' = written w @ bs"
  by (fastforce simp: writes_def)

lemma writesD_Inl:
  "writes f bs \<Longrightarrow> writer_ok w \<Longrightarrow> f w = Inl w' \<Longrightarrow>
     prefix (w_out w') (written w @ bs) \<and> w_sink w \<noteq> (\<lambda>_ _. None)"
  by (fastforce simp: writes_def)

lemma writes_skip: "writes Inr []"
  by (simp add: writes_def)

lemma writes_seq:
  assumes "writes f as" "writes g bs"
  shows "writes (\<lambda>w. bind_res (f w) g) (as @ bs)"
proof (rule writesI)
  fix w assume w: "writer_ok w"
  show "case bind_res (f w) g of
           Inr w' \<Rightarrow> writer_ok w' \<and> w_sink w' = w_sink w \<and>
             written w' = written w @ as @ bs
         | Inl w' \<Rightarrow> prefix (w_out w') (written w @ as @ bs) \<and> w_sink w \<noteq> (\<lambda>_ _. None)"
  proof (cases "f w")
    case (Inl w1)
    with writesD_Inl[OF assms(1) w this] show ?thesis
      using prefix_prefix[of "w_out w1" "written w @ as" bs] by simp
  next
    case (Inr w1)
    note one = writesD_Inr[OF assms(1) w Inr]
    show ?thesis
    proof (cases "g w1")
      case (Inl w2)
      with writesD_Inl[OF assms(2) _ this] one Inr show ?thesis
        by auto
    next
      case (Inr w2)
      with writesD_Inr[OF assms(2) _ this] one \<open>f w = Inr w1\<close> show ?thesis
        by auto
    qed
  qed
qed

lemma prefix_take_append: "prefix (xs @ take n ys) (xs @ ys @ zs)"
  by (metis append_take_drop_id append.assoc prefixI same_prefix_prefix)

lemma writes_make_room: "writes (make_room n) []"
proof (rule writesI)
  fix w assume "writer_ok w"
  then show "case make_room n w of
           Inr w' \<Rightarrow> writer_ok w' \<and> w_sink w' = w_sink w \<and> written w' = written w @ []
         | Inl w' \<Rightarrow> prefix (w_out w') (written w @ []) \<and> w_sink w \<noteq> (\<lambda>_ _. None)"
    by (auto simp: make_room_def flush_def writer_ok_def written_def take_is_prefix split: option.split)
qed

lemma make_room_Inr:
  "make_room n w = Inr w' \<Longrightarrow> n \<le> 18 \<Longrightarrow> writer_ok w \<Longrightarrow> length (w_buf w') + n \<le> w_size w'"
  by (auto simp: make_room_def flush_def writer_ok_def split: if_splits option.splits)

lemma writes_after_room:
  assumes "length b \<le> 18"
    and "\<And>w. length (w_buf w) + length b \<le> w_size w \<Longrightarrow> f w = Inr (w\<lparr>w_buf := w_buf w @ b\<rparr>)"
  shows "writes (\<lambda>w. bind_res (make_room (length b) w) f) b"
proof (rule writesI)
  fix w assume w: "writer_ok w"
  show "case bind_res (make_room (length b) w) f of
           Inr w' \<Rightarrow> writer_ok w' \<and> w_sink w' = w_sink w \<and> written w' = written w @ b
         | Inl w' \<Rightarrow> prefix (w_out w') (written w @ b) \<and> w_sink w \<noteq> (\<lambda>_ _. None)"
  proof (cases "make_room (length b) w")
    case (Inl w1)
    with writesD_Inl[OF writes_make_room w this] show ?thesis
      using prefix_prefix[of "w_out w1" "written w" b] by simp
  next
    case (Inr w1)
    have room: "length (w_buf w1) + length b \<le> w_size w1"
      by (rule make_room_Inr[OF Inr assms(1) w])
    with writesD_Inr[OF writes_make_room w Inr] Inr assms(2)[OF room] show ?thesis
      by (auto simp: writer_ok_def written_def)
  qed
qed

lemma writes_prefix: "length b \<le> 18 \<Longrightarrow> writes (w_prefix b) b"
  unfolding w_prefix_def[abs_def] by (rule writes_after_room) simp_all

lemma writes_append: "length b \<le> 18 \<Longrightarrow> writes (w_append b) b"
  unfolding w_append_def[abs_def] by (rule writes_after_room) simp_all

lemma writes_write: "writes (w_write p) p"
proof (rule writesI)
  fix w assume "writer_ok w"
  then show "case w_write p w of
           Inr w' \<Rightarrow> writer_ok w' \<and> w_sink w' = w_sink w \<and> written w' = written w @ p
         | Inl w' \<Rightarrow> prefix (w_out w') (written w @ p) \<and> w_sink w \<noteq> (\<lambda>_ _. None)"
    by (auto simp: w_write_def flush_def sink_write_def writer_ok_def written_def prefix_take_append take_is_prefix
        split: option.split)
qed

lemma encode_writes:
  assumes "writes f bs"
  shows "case encode f sink of
      Inr w \<Rightarrow> w_out w = bs \<and> w_buf w = []
    | Inl w \<Rightarrow> prefix (w_out w) bs \<and> sink \<noteq> (\<lambda>_ _. None)"
proof -
  have ok: "writer_ok (new_writer sink)" by (simp add: writer_ok_def new_writer_def)
  show ?thesis
  proof (cases "f (new_writer sink)")
    case (Inl w)
    with writesD_Inl[OF assms ok Inl] show ?thesis by (simp add: encode_def new_writer_def written_def)
  next
    case (Inr w)
    with writesD_Inr[OF assms ok Inr] show ?thesis
      by (auto simp: encode_def new_writer_def flush_def written_def split: option.split)
        (metis append_take_drop_id append.assoc prefixI)
  qed
qed

section \<open>The writer writes what the slice functions append\<close>

lemma writes_map_header: "writes (write_map_header n) (append_map_header [] n)"
  by (simp add: write_map_header_def append_map_header_def writes_prefix)

lemma writes_array_header: "writes (write_array_header n) (append_array_header [] n)"
  by (simp add: write_array_header_def append_array_header_def writes_prefix)

lemma writes_nil: "writes write_nil (append_nil [])"
  by (simp add: write_nil_def append_nil_def writes_prefix)

lemma writes_uint32: "writes (write_uint32 u) (append_uint32 [] u)"
  by (simp add: write_uint32_def write_uint64_def append_uint32_def append_uint64_def writes_prefix)

lemma writes_int64: "writes (write_int64 i) (append_int64 [] i)"
  by (simp add: write_int64_def append_int64_def writes_prefix)

lemma length_word32:
  "n < 2 ^ 32 \<Longrightarrow> n \<le> unat m \<or> unat m < n \<Longrightarrow> (word_of_nat n \<le> (m :: u32)) = (n \<le> unat m)"
  by (simp add: word_le_nat_alt unat_word_of_nat_small)

lemma ucast_word_of_nat:
  "LENGTH('b::len) \<le> LENGTH('a::len) \<Longrightarrow> ucast (word_of_nat n :: 'a word) = (word_of_nat n :: 'b word)"
  by (rule bit_word_eqI) (simp add: bit_simps)

lemma writes_with_header:
  "length h \<le> 18 \<Longrightarrow> writes (\<lambda>w. bind_res (w_prefix h w) (w_write s)) (h @ s)"
  by (intro writes_seq writes_prefix writes_write)

lemma writes_string:
  assumes "length s < 2 ^ 32"
  shows "writes (write_string s) (append_string [] s)"
  using assms
  by (simp add: write_string_def[abs_def] append_string_def Let_def length_word32 ucast_word_of_nat
      writes_with_header[of "[_]", simplified] writes_with_header[of "_ # _", simplified])

lemma writes_bytes:
  assumes "length s < 2 ^ 32"
  shows "writes (write_bytes s) (append_bytes [] s)"
  using assms
  by (simp add: write_bytes_def[abs_def] append_bytes_def Let_def length_word32 ucast_word_of_nat
      writes_with_header[of "_ # _", simplified])

lemma writes_fold:
  assumes "\<And>x. x \<in> set xs \<Longrightarrow> writes (f x) (g x)"
  shows "writes (fold_res f xs) (concat (map g xs))"
  using assms
proof (induction xs)
  case Nil
  have "fold_res f [] = Inr" by (rule ext) simp
  then show ?case by (simp add: writes_skip)
next
  case (Cons x xs)
  have "fold_res f (x # xs) = (\<lambda>w. bind_res (f x w) (fold_res f xs))" by (rule ext) simp
  with Cons show ?case by (auto intro: writes_seq)
qed

definition w_map ::
    "('k \<Rightarrow> encoder) \<Rightarrow> ('v \<Rightarrow> encoder) \<Rightarrow> ('k, 'v) gomap \<Rightarrow> encoder" where
  "w_map wk wv m w =
     bind_res (write_map_header (word_of_nat (length m)) w)
       (fold_res (\<lambda>(k, v) w1. bind_res (wk k w1) (wv v)) m)"

definition w_array :: "('v \<Rightarrow> encoder) \<Rightarrow> 'v list \<Rightarrow> encoder" where
  "w_array wv xs w =
     bind_res (write_array_header (word_of_nat (length xs)) w) (fold_res wv xs)"

context codec
begin

lemma writes_array:
  assumes "\<And>x. x \<in> set xs \<Longrightarrow> writes (wv x) (put [] x)"
  shows "writes (w_array wv xs) (put_array put [] xs)"
  using writes_seq[OF writes_array_header writes_fold, of xs wv "put []" "word_of_nat (length xs)"] assms
  by (simp add: w_array_def[abs_def] put_array_def fold_put)

end

context map_codec
begin

lemma writes_map:
  assumes "\<And>k v. (k, v) \<in> set m \<Longrightarrow> writes (wk k) (putk [] k) \<and> writes (wv v) (putv [] v)"
  shows "writes (w_map wk wv m) (put_map putk putv [] m)"
proof -
  have "writes (fold_res (\<lambda>(k, v) w1. bind_res (wk k w1) (wv v)) m)
      (concat (map (\<lambda>(k, v). putk [] k @ putv [] v) m))"
    using assms by (intro writes_fold) (auto intro: writes_seq)
  from writes_seq[OF writes_map_header this] show ?thesis
    by (simp add: w_map_def[abs_def] put_map_def fold_put_entries)
qed

end

section \<open>Sizes\<close>

lemma length_header: "length (append_map_header [] n) \<le> 5" "length (append_array_header [] n) \<le> 5"
  by (simp_all add: append_map_header_def append_array_header_def)

lemma length_append_string: "length (append_string [] s) \<le> 5 + length s"
  by (simp add: append_string_def Let_def)

lemma length_append_uint32: "length (append_uint32 [] u) \<le> 5"
proof -
  have "unat u < 2 ^ 32" using unsigned_less[of u, where ?'a = nat] by simp
  then have "unat (ucast u :: u64) < 4294967296" by (simp add: unat_ucast_small)
  then show ?thesis by (simp add: append_uint32_def append_uint64_def word_le_nat_alt)
qed

lemma length_append_int64: "length (append_int64 [] i) \<le> 9"
  by (simp add: append_int64_def)

lemma length_concat_bound:
  assumes "\<And>x. x \<in> set xs \<Longrightarrow> length (f x) \<le> (g x :: nat)"
  shows "length (concat (map f xs)) \<le> sum_list (map g xs)"
  using assms by (induction xs) (auto intro: add_mono)

context codec
begin

lemma length_put_array:
  assumes "\<And>x. x \<in> set xs \<Longrightarrow> length (put [] x) \<le> size_of x"
  shows "length (put_array put [] xs) \<le> 5 + sum_list (map size_of xs)"
  using length_concat_bound[of xs "put []" size_of, OF assms] length_header(2)[of "word_of_nat (length xs)"]
  by (simp add: put_array_def fold_put)

end

context map_codec
begin

lemma length_put_map:
  assumes "\<And>k v. (k, v) \<in> set m \<Longrightarrow> length (putk [] k) + length (putv [] v) \<le> size_of k v"
  shows "length (put_map putk putv [] m) \<le> 5 + (\<Sum>(k, v) \<leftarrow> m. size_of k v)"
proof -
  have "length (concat (map (\<lambda>(k, v). putk [] k @ putv [] v) m)) \<le>
      sum_list (map (\<lambda>(k, v). size_of k v) m)"
    using assms by (intro length_concat_bound) auto
  then show ?thesis
    using length_header(1)[of "word_of_nat (length m)"]
    by (simp add: put_map_def fold_put_entries)
qed

end

end
