(* ===== verification/EntityCodec.thy ===== *)
theory EntityCodec
  imports MsgStream
begin

text \<open>
  The generated codecs of the values the database stores (db/key_gen.go, db/entity_gen.go): keys,
  entities, extended indexes, predicate entities and the three index files. For each type
  \<open>MarshalMsg\<close>/\<open>UnmarshalMsg\<close> work on byte slices, \<open>EncodeMsg\<close>/\<open>DecodeMsg\<close> on a writer and a reader,
  \<open>Msgsize\<close> is the room reserved. A decoder takes the value it decodes into; what a failed decoding
  leaves there is not modelled, no caller uses it.
\<close>

definition lit :: "u8 list \<Rightarrow> bytes" where
  "lit ws = map byte_of_u8 ws"

section \<open>Keys\<close>

definition key_marshal :: "bytes \<Rightarrow> key \<Rightarrow> bytes" where
  "key_marshal b z = append_bytes b (key_bytes z)"

definition key_unmarshal :: "key \<Rightarrow> bytes \<Rightarrow> merr + key \<times> bytes" where
  "key_unmarshal z bts =
     bind_res (read_exact_bytes bts (key_bytes z)) (\<lambda>(into, o'). Inr (key_of_bytes into, o'))"

definition key_encode :: "key \<Rightarrow> encoder" where
  "key_encode z = write_bytes (key_bytes z)"

definition key_decode :: "key \<Rightarrow> bytes \<Rightarrow> merr + key \<times> bytes" where
  "key_decode z bts =
     bind_res (rd_exact_bytes bts (key_bytes z)) (\<lambda>(into, o'). Inr (key_of_bytes into, o'))"

definition key_msgsize :: nat where
  "key_msgsize = 5 + 8 * 2"

section \<open>Edge maps\<close>

text \<open>
  The loops over a \<open>map[string][]Key\<close>, the same for the four maps of entities and extended indexes. The
  map decoded into is emptied or made new first.
\<close>

definition marshal_edges :: "bytes \<Rightarrow> edge_map \<Rightarrow> bytes" where
  "marshal_edges o' m = put_map append_string (put_array key_marshal) o' m"

definition unmarshal_edges :: "bytes \<Rightarrow> merr + edge_map \<times> bytes" where
  "unmarshal_edges bts =
     read_map read_map_header_bytes read_string_bytes
       (read_array read_array_header_bytes (key_unmarshal empty_key)) bts"

definition encode_edges :: "edge_map \<Rightarrow> encoder" where
  "encode_edges m = w_map write_string (w_array key_encode) m"

definition decode_edges :: "bytes \<Rightarrow> merr + edge_map \<times> bytes" where
  "decode_edges bts =
     read_map rd_map_header rd_string (read_array rd_array_header (key_decode empty_key)) bts"

definition edges_msgsize :: "edge_map \<Rightarrow> nat" where
  "edges_msgsize m = (\<Sum>(s, ks) \<leftarrow> m. 5 + length s + 5 + (\<Sum>_ \<leftarrow> ks. key_msgsize))"

section \<open>Entities\<close>

definition entity_marshal :: "bytes \<Rightarrow> entity \<Rightarrow> bytes" where
  "entity_marshal b z =
     (let o1 = b @ lit [0x83, 0xa1, 0x70];
          o2 = key_marshal o1 (PK z);
          o3 = o2 @ lit [0xa1, 0x69];
          o4 = marshal_edges o3 (InEdges z);
          o5 = o4 @ lit [0xa1, 0x6f]
      in marshal_edges o5 (OutEdges z))"

definition entity_unmarshal :: "entity \<Rightarrow> bytes \<Rightarrow> merr + entity \<times> bytes" where
  "entity_unmarshal z bts =
     bind_res (read_map_header_bytes bts) (\<lambda>(n, b0).
       read_n (unat n) (\<lambda>z b1.
         bind_res (read_map_key_zc b1) (\<lambda>(field, b2).
           if field = ''p'' then
             bind_res (key_unmarshal (PK z) b2) (\<lambda>(k, b3). Inr (z\<lparr>PK := k\<rparr>, b3))
           else if field = ''i'' then
             bind_res (unmarshal_edges b2) (\<lambda>(m, b3). Inr (z\<lparr>InEdges := m\<rparr>, b3))
           else if field = ''o'' then
             bind_res (unmarshal_edges b2) (\<lambda>(m, b3). Inr (z\<lparr>OutEdges := m\<rparr>, b3))
           else bind_res (skip b2) (\<lambda>b3. Inr (z, b3)))) z b0)"

definition entity_encode :: "entity \<Rightarrow> encoder" where
  "entity_encode z w0 =
     bind_res (w_append (lit [0x83, 0xa1, 0x70]) w0) (\<lambda>w1.
     bind_res (key_encode (PK z) w1) (\<lambda>w2.
     bind_res (w_append (lit [0xa1, 0x69]) w2) (\<lambda>w3.
     bind_res (encode_edges (InEdges z) w3) (\<lambda>w4.
     bind_res (w_append (lit [0xa1, 0x6f]) w4) (encode_edges (OutEdges z))))))"

definition entity_decode :: "(bytes \<Rightarrow> bool) \<Rightarrow> entity \<Rightarrow> bytes \<Rightarrow> merr + entity \<times> bytes" where
  "entity_decode buffered z bts =
     bind_res (rd_map_header bts) (\<lambda>(n, b0).
       read_n (unat n) (\<lambda>z b1.
         bind_res (rd_map_key b1) (\<lambda>(field, b2).
           if field = ''p'' then
             bind_res (key_decode (PK z) b2) (\<lambda>(k, b3). Inr (z\<lparr>PK := k\<rparr>, b3))
           else if field = ''i'' then
             bind_res (decode_edges b2) (\<lambda>(m, b3). Inr (z\<lparr>InEdges := m\<rparr>, b3))
           else if field = ''o'' then
             bind_res (decode_edges b2) (\<lambda>(m, b3). Inr (z\<lparr>OutEdges := m\<rparr>, b3))
           else bind_res (rd_skip buffered b2) (\<lambda>b3. Inr (z, b3)))) z b0)"

definition entity_msgsize :: "entity \<Rightarrow> nat" where
  "entity_msgsize z =
     1 + 2 + key_msgsize + 2 + 5 + edges_msgsize (InEdges z) + (2 + 5) + edges_msgsize (OutEdges z)"

section \<open>Extended indexes\<close>

definition ext_marshal :: "bytes \<Rightarrow> extended_index \<Rightarrow> bytes" where
  "ext_marshal b z =
     (let o1 = b @ lit [0x83, 0xa1, 0x70];
          o2 = key_marshal o1 (ExtPK z);
          o3 = o2 @ lit [0xa2, 0x69, 0x2b];
          o4 = marshal_edges o3 (InPlusEdges z);
          o5 = o4 @ lit [0xa2, 0x6f, 0x2b]
      in marshal_edges o5 (OutPlusEdges z))"

definition ext_unmarshal :: "extended_index \<Rightarrow> bytes \<Rightarrow> merr + extended_index \<times> bytes" where
  "ext_unmarshal z bts =
     bind_res (read_map_header_bytes bts) (\<lambda>(n, b0).
       read_n (unat n) (\<lambda>z b1.
         bind_res (read_map_key_zc b1) (\<lambda>(field, b2).
           if field = ''p'' then
             bind_res (key_unmarshal (ExtPK z) b2) (\<lambda>(k, b3). Inr (z\<lparr>ExtPK := k\<rparr>, b3))
           else if field = ''i+'' then
             bind_res (unmarshal_edges b2) (\<lambda>(m, b3). Inr (z\<lparr>InPlusEdges := m\<rparr>, b3))
           else if field = ''o+'' then
             bind_res (unmarshal_edges b2) (\<lambda>(m, b3). Inr (z\<lparr>OutPlusEdges := m\<rparr>, b3))
           else bind_res (skip b2) (\<lambda>b3. Inr (z, b3)))) z b0)"

definition ext_encode :: "extended_index \<Rightarrow> encoder" where
  "ext_encode z w0 =
     bind_res (w_append (lit [0x83, 0xa1, 0x70]) w0) (\<lambda>w1.
     bind_res (key_encode (ExtPK z) w1) (\<lambda>w2.
     bind_res (w_append (lit [0xa2, 0x69, 0x2b]) w2) (\<lambda>w3.
     bind_res (encode_edges (InPlusEdges z) w3) (\<lambda>w4.
     bind_res (w_append (lit [0xa2, 0x6f, 0x2b]) w4) (encode_edges (OutPlusEdges z))))))"

definition ext_decode :: "(bytes \<Rightarrow> bool) \<Rightarrow> extended_index \<Rightarrow> bytes \<Rightarrow> merr + extended_index \<times> bytes" where
  "ext_decode buffered z bts =
     bind_res (rd_map_header bts) (\<lambda>(n, b0).
       read_n (unat n) (\<lambda>z b1.
         bind_res (rd_map_key b1) (\<lambda>(field, b2).
           if field = ''p'' then
             bind_res (key_decode (ExtPK z) b2) (\<lambda>(k, b3). Inr (z\<lparr>ExtPK := k\<rparr>, b3))
           else if field = ''i+'' then
             bind_res (decode_edges b2) (\<lambda>(m, b3). Inr (z\<lparr>InPlusEdges := m\<rparr>, b3))
           else if field = ''o+'' then
             bind_res (decode_edges b2) (\<lambda>(m, b3). Inr (z\<lparr>OutPlusEdges := m\<rparr>, b3))
           else bind_res (rd_skip buffered b2) (\<lambda>b3. Inr (z, b3)))) z b0)"

definition ext_msgsize :: "extended_index \<Rightarrow> nat" where
  "ext_msgsize z =
     1 + 2 + key_msgsize + 3 + 5 + edges_msgsize (InPlusEdges z) + (3 + 5) + edges_msgsize (OutPlusEdges z)"

section \<open>Predicate entities\<close>

text \<open>The loops over a \<open>map[string]map[string]uint32\<close>.\<close>

definition marshal_pairs :: "bytes \<Rightarrow> pair_map \<Rightarrow> bytes" where
  "marshal_pairs o' m = put_map append_string (put_map append_string append_uint32) o' m"

definition unmarshal_pairs :: "bytes \<Rightarrow> merr + pair_map \<times> bytes" where
  "unmarshal_pairs bts =
     read_map read_map_header_bytes read_string_bytes
       (read_map read_map_header_bytes read_string_bytes read_uint32_bytes) bts"

definition encode_pairs :: "pair_map \<Rightarrow> encoder" where
  "encode_pairs m = w_map write_string (w_map write_string write_uint32) m"

definition decode_pairs :: "bytes \<Rightarrow> merr + pair_map \<times> bytes" where
  "decode_pairs bts =
     read_map rd_map_header rd_string (read_map rd_map_header rd_string rd_uint32) bts"

definition pairs_msgsize :: "pair_map \<Rightarrow> nat" where
  "pairs_msgsize m = (\<Sum>(s, sub) \<leftarrow> m. 5 + length s + 5 + (\<Sum>(t, _) \<leftarrow> sub. 5 + length t + 5))"

definition pred_marshal :: "bytes \<Rightarrow> predicate_entity \<Rightarrow> bytes" where
  "pred_marshal b z =
     (let o1 = b @ lit [0x83, 0xa1, 0x70];
          o2 = key_marshal o1 (PredPK z);
          o3 = o2 @ lit [0xa1, 0x73];
          o4 = marshal_pairs o3 (Subjects z);
          o5 = o4 @ lit [0xa1, 0x6f]
      in marshal_pairs o5 (Objects z))"

definition pred_unmarshal :: "predicate_entity \<Rightarrow> bytes \<Rightarrow> merr + predicate_entity \<times> bytes" where
  "pred_unmarshal z bts =
     bind_res (read_map_header_bytes bts) (\<lambda>(n, b0).
       read_n (unat n) (\<lambda>z b1.
         bind_res (read_map_key_zc b1) (\<lambda>(field, b2).
           if field = ''p'' then
             bind_res (key_unmarshal (PredPK z) b2) (\<lambda>(k, b3). Inr (z\<lparr>PredPK := k\<rparr>, b3))
           else if field = ''s'' then
             bind_res (unmarshal_pairs b2) (\<lambda>(m, b3). Inr (z\<lparr>Subjects := m\<rparr>, b3))
           else if field = ''o'' then
             bind_res (unmarshal_pairs b2) (\<lambda>(m, b3). Inr (z\<lparr>Objects := m\<rparr>, b3))
           else bind_res (skip b2) (\<lambda>b3. Inr (z, b3)))) z b0)"

definition pred_encode :: "predicate_entity \<Rightarrow> encoder" where
  "pred_encode z w0 =
     bind_res (w_append (lit [0x83, 0xa1, 0x70]) w0) (\<lambda>w1.
     bind_res (key_encode (PredPK z) w1) (\<lambda>w2.
     bind_res (w_append (lit [0xa1, 0x73]) w2) (\<lambda>w3.
     bind_res (encode_pairs (Subjects z) w3) (\<lambda>w4.
     bind_res (w_append (lit [0xa1, 0x6f]) w4) (encode_pairs (Objects z))))))"

definition pred_decode :: "(bytes \<Rightarrow> bool) \<Rightarrow> predicate_entity \<Rightarrow> bytes \<Rightarrow> merr + predicate_entity \<times> bytes" where
  "pred_decode buffered z bts =
     bind_res (rd_map_header bts) (\<lambda>(n, b0).
       read_n (unat n) (\<lambda>z b1.
         bind_res (rd_map_key b1) (\<lambda>(field, b2).
           if field = ''p'' then
             bind_res (key_decode (PredPK z) b2) (\<lambda>(k, b3). Inr (z\<lparr>PredPK := k\<rparr>, b3))
           else if field = ''s'' then
             bind_res (decode_pairs b2) (\<lambda>(m, b3). Inr (z\<lparr>Subjects := m\<rparr>, b3))
           else if field = ''o'' then
             bind_res (decode_pairs b2) (\<lambda>(m, b3). Inr (z\<lparr>Objects := m\<rparr>, b3))
           else bind_res (rd_skip buffered b2) (\<lambda>b3. Inr (z, b3)))) z b0)"

definition pred_msgsize :: "predicate_entity \<Rightarrow> nat" where
  "pred_msgsize z =
     1 + 2 + key_msgsize + 2 + 5 + pairs_msgsize (Subjects z) + (2 + 5) + pairs_msgsize (Objects z)"

section \<open>Index files\<close>

type_synonym pred_index = "(string, predicate_entity option) gomap"
type_synonym relship_index = "(string, string) gomap"
type_synonym namespace_index = "(string, string) gomap"

text \<open>A nil entry of a \<open>PredIndex\<close> is \<open>None\<close>; an entry is decoded into a new predicate entity.\<close>

definition zero_pred :: predicate_entity where
  "zero_pred = \<lparr>PredPK = empty_key, Subjects = [], Objects = []\<rparr>"

definition pred_entry_marshal :: "bytes \<Rightarrow> predicate_entity option \<Rightarrow> bytes" where
  "pred_entry_marshal b v = (case v of None \<Rightarrow> append_nil b | Some z \<Rightarrow> pred_marshal b z)"

definition pred_entry_unmarshal :: "bytes \<Rightarrow> merr + predicate_entity option \<times> bytes" where
  "pred_entry_unmarshal b =
     (if is_nil b then bind_res (read_nil_bytes b) (\<lambda>b1. Inr (None, b1))
      else bind_res (pred_unmarshal zero_pred b) (\<lambda>(z, b1). Inr (Some z, b1)))"

definition pred_entry_encode :: "predicate_entity option \<Rightarrow> encoder" where
  "pred_entry_encode v = (case v of None \<Rightarrow> write_nil | Some z \<Rightarrow> pred_encode z)"

definition pred_entry_decode :: "(bytes \<Rightarrow> bool) \<Rightarrow> bytes \<Rightarrow> merr + predicate_entity option \<times> bytes" where
  "pred_entry_decode buffered b =
     (if is_nil b then bind_res (rd_nil b) (\<lambda>b1. Inr (None, b1))
      else bind_res (pred_decode buffered zero_pred b) (\<lambda>(z, b1). Inr (Some z, b1)))"

definition pred_index_marshal :: "bytes \<Rightarrow> pred_index \<Rightarrow> bytes" where
  "pred_index_marshal b z = put_map append_string pred_entry_marshal b z"

definition pred_index_unmarshal :: "bytes \<Rightarrow> merr + pred_index \<times> bytes" where
  "pred_index_unmarshal bts = read_map read_map_header_bytes read_string_bytes pred_entry_unmarshal bts"

definition pred_index_encode :: "pred_index \<Rightarrow> encoder" where
  "pred_index_encode z = w_map write_string pred_entry_encode z"

definition pred_index_decode :: "(bytes \<Rightarrow> bool) \<Rightarrow> bytes \<Rightarrow> merr + pred_index \<times> bytes" where
  "pred_index_decode buffered bts = read_map rd_map_header rd_string (pred_entry_decode buffered) bts"

definition pred_index_msgsize :: "pred_index \<Rightarrow> nat" where
  "pred_index_msgsize z =
     5 + (\<Sum>(s, v) \<leftarrow> z. 5 + length s + (case v of None \<Rightarrow> 1 | Some p \<Rightarrow> pred_msgsize p))"

text \<open>\<open>RelshipIndex\<close> and \<open>NamespaceIndex\<close> are both \<open>map[string]string\<close>, with the same generated code.\<close>

definition relship_marshal :: "bytes \<Rightarrow> relship_index \<Rightarrow> bytes" where
  "relship_marshal b z = put_map append_string append_string b z"

definition relship_unmarshal :: "bytes \<Rightarrow> merr + relship_index \<times> bytes" where
  "relship_unmarshal bts = read_map read_map_header_bytes read_string_bytes read_string_bytes bts"

definition relship_encode :: "relship_index \<Rightarrow> encoder" where
  "relship_encode z = w_map write_string write_string z"

definition relship_decode :: "bytes \<Rightarrow> merr + relship_index \<times> bytes" where
  "relship_decode bts = read_map rd_map_header rd_string rd_string bts"

definition relship_msgsize :: "relship_index \<Rightarrow> nat" where
  "relship_msgsize z = 5 + (\<Sum>(s, t) \<leftarrow> z. 5 + length s + 5 + length t)"

definition namespace_marshal :: "bytes \<Rightarrow> namespace_index \<Rightarrow> bytes" where
  "namespace_marshal b z = put_map append_string append_string b z"

definition namespace_unmarshal :: "bytes \<Rightarrow> merr + namespace_index \<times> bytes" where
  "namespace_unmarshal bts = read_map read_map_header_bytes read_string_bytes read_string_bytes bts"

definition namespace_encode :: "namespace_index \<Rightarrow> encoder" where
  "namespace_encode z = w_map write_string write_string z"

definition namespace_decode :: "bytes \<Rightarrow> merr + namespace_index \<times> bytes" where
  "namespace_decode bts = read_map rd_map_header rd_string rd_string bts"

definition namespace_msgsize :: "namespace_index \<Rightarrow> nat" where
  "namespace_msgsize z = 5 + (\<Sum>(s, t) \<leftarrow> z. 5 + length s + 5 + length t)"

section \<open>The codecs as instances\<close>

text \<open>Strings and maps of fewer than 2^32 bytes or entries, the lengths a prefix can hold.\<close>

definition fits :: "'a list \<Rightarrow> bool" where
  "fits xs \<longleftrightarrow> length xs < 2 ^ 32"

definition edges_fit :: "edge_map \<Rightarrow> bool" where
  "edges_fit m \<longleftrightarrow> gm_wf m \<and> fits m \<and> list_all (\<lambda>(s, ks). fits s \<and> fits ks) m"

definition subs_fit :: "(string, u32) gomap \<Rightarrow> bool" where
  "subs_fit sub \<longleftrightarrow> gm_wf sub \<and> fits sub \<and> list_all (\<lambda>(t, v). fits t \<and> True) sub"

definition pairs_fit :: "pair_map \<Rightarrow> bool" where
  "pairs_fit m \<longleftrightarrow> gm_wf m \<and> fits m \<and> list_all (\<lambda>(s, sub). fits s \<and> subs_fit sub) m"

interpretation string_msg: codec append_string read_string_bytes fits
  by unfold_locales (rule append_string_append, simp add: fits_def read_string_bytes_append)

interpretation string_stream: codec append_string rd_string fits
  by unfold_locales (rule append_string_append, simp add: fits_def rd_string_append)

interpretation u32_msg: codec append_uint32 read_uint32_bytes "\<lambda>_. True"
  by unfold_locales (rule append_uint32_append, rule read_uint32_bytes_append)

interpretation u32_stream: codec append_uint32 rd_uint32 "\<lambda>_. True"
  by unfold_locales (rule append_uint32_append, rule rd_number_append)

interpretation key_msg: codec key_marshal "key_unmarshal z" "\<lambda>_. True" for z
  by unfold_locales
    (unfold key_marshal_def, rule append_bytes_append, simp add: key_unmarshal_def read_exact_bytes_append)

interpretation key_stream: codec key_marshal "key_decode z" "\<lambda>_. True" for z
  by unfold_locales (rule key_msg.put_append, simp add: key_marshal_def key_decode_def rd_exact_bytes_append)

interpretation keys_msg: codec "put_array key_marshal"
    "read_array read_array_header_bytes (key_unmarshal empty_key)" fits
  by unfold_locales (rule key_msg.put_array_append, rule key_msg.read_array_put,
      simp_all add: fits_def list_all_iff read_array_header_bytes_append)

interpretation keys_stream: codec "put_array key_marshal"
    "read_array rd_array_header (key_decode empty_key)" fits
  by unfold_locales (rule key_msg.put_array_append, rule key_stream.read_array_put,
      simp_all add: fits_def list_all_iff rd_header_append)

interpretation edges_map: map_codec append_string read_string_bytes fits "put_array key_marshal"
    "read_array read_array_header_bytes (key_unmarshal empty_key)" fits
  by unfold_locales

interpretation edges_map_stream: map_codec append_string rd_string fits "put_array key_marshal"
    "read_array rd_array_header (key_decode empty_key)" fits
  by unfold_locales

interpretation edges_msg: codec marshal_edges unmarshal_edges edges_fit
  unfolding marshal_edges_def[abs_def] unmarshal_edges_def[abs_def]
  by unfold_locales (rule edges_map.put_map_append, rule edges_map.read_map_put,
      simp_all add: edges_fit_def fits_def read_map_header_bytes_append)

interpretation edges_stream: codec marshal_edges decode_edges edges_fit
  unfolding marshal_edges_def[abs_def] decode_edges_def[abs_def]
  by unfold_locales (rule edges_map.put_map_append, rule edges_map_stream.read_map_put,
      simp_all add: edges_fit_def fits_def rd_header_append)

interpretation subs_map: map_codec append_string read_string_bytes fits append_uint32 read_uint32_bytes "\<lambda>_. True"
  by unfold_locales

interpretation subs_map_stream: map_codec append_string rd_string fits append_uint32 rd_uint32 "\<lambda>_. True"
  by unfold_locales

interpretation subs_msg: codec "put_map append_string append_uint32"
    "read_map read_map_header_bytes read_string_bytes read_uint32_bytes" subs_fit
  by unfold_locales (rule subs_map.put_map_append, rule subs_map.read_map_put,
      simp_all add: subs_fit_def fits_def read_map_header_bytes_append)

interpretation subs_stream: codec "put_map append_string append_uint32"
    "read_map rd_map_header rd_string rd_uint32" subs_fit
  by unfold_locales (rule subs_map.put_map_append, rule subs_map_stream.read_map_put,
      simp_all add: subs_fit_def fits_def rd_header_append)

interpretation pairs_map: map_codec append_string read_string_bytes fits
    "put_map append_string append_uint32"
    "read_map read_map_header_bytes read_string_bytes read_uint32_bytes" subs_fit
  by unfold_locales

interpretation pairs_map_stream: map_codec append_string rd_string fits
    "put_map append_string append_uint32" "read_map rd_map_header rd_string rd_uint32" subs_fit
  by unfold_locales

interpretation pairs_msg: codec marshal_pairs unmarshal_pairs pairs_fit
  unfolding marshal_pairs_def[abs_def] unmarshal_pairs_def[abs_def]
  by unfold_locales (rule pairs_map.put_map_append, rule pairs_map.read_map_put,
      simp_all add: pairs_fit_def fits_def read_map_header_bytes_append)

interpretation pairs_stream: codec marshal_pairs decode_pairs pairs_fit
  unfolding marshal_pairs_def[abs_def] decode_pairs_def[abs_def]
  by unfold_locales (rule pairs_map.put_map_append, rule pairs_map_stream.read_map_put,
      simp_all add: pairs_fit_def fits_def rd_header_append)

text \<open>A record of three fields is a map header of three and, before each field, its name.\<close>

lemma lit_fields:
  "lit [0x83, 0xa1, 0x70] = append_map_header [] 3 @ append_string [] ''p''"
  "lit [0xa1, 0x69] = append_string [] ''i''"
  "lit [0xa1, 0x6f] = append_string [] ''o''"
  "lit [0xa1, 0x73] = append_string [] ''s''"
  "lit [0xa2, 0x69, 0x2b] = append_string [] ''i+''"
  "lit [0xa2, 0x6f, 0x2b] = append_string [] ''o+''"
  by (simp_all add: lit_def append_map_header_def append_string_def wfixmap_def wfixstr_def
      byte_of_u8_def char_of_def bit_Suc_0_iff)

lemma read_n_3: "read_n 3 f s b =
    bind_res (f s b) (\<lambda>(s1, b1). bind_res (f s1 b1) (\<lambda>(s2, b2). bind_res (f s2 b2) (\<lambda>(s3, b3). Inr (s3, b3))))"
  unfolding numeral_3_eq_3 by (simp add: case_prod_unfold)

lemmas slice_appends =
  key_msg.put_append[of _ _] edges_msg.put_append pairs_msg.put_append

definition entity_fits :: "entity \<Rightarrow> bool" where
  "entity_fits e \<longleftrightarrow> edges_fit (InEdges e) \<and> edges_fit (OutEdges e)"

definition ext_fits :: "extended_index \<Rightarrow> bool" where
  "ext_fits e \<longleftrightarrow> edges_fit (InPlusEdges e) \<and> edges_fit (OutPlusEdges e)"

definition pred_fits :: "predicate_entity \<Rightarrow> bool" where
  "pred_fits e \<longleftrightarrow> pairs_fit (Subjects e) \<and> pairs_fit (Objects e)"

lemma entity_marshal_parts:
  "entity_marshal b e = b @ append_map_header [] 3 @ append_string [] ''p'' @ key_marshal [] (PK e) @
     append_string [] ''i'' @ marshal_edges [] (InEdges e) @
     append_string [] ''o'' @ marshal_edges [] (OutEdges e)"
  unfolding entity_marshal_def Let_def lit_fields
  by (subst edges_msg.put_append, subst edges_msg.put_append, subst key_msg.put_append) simp

lemma ext_marshal_parts:
  "ext_marshal b e = b @ append_map_header [] 3 @ append_string [] ''p'' @ key_marshal [] (ExtPK e) @
     append_string [] ''i+'' @ marshal_edges [] (InPlusEdges e) @
     append_string [] ''o+'' @ marshal_edges [] (OutPlusEdges e)"
  unfolding ext_marshal_def Let_def lit_fields
  by (subst edges_msg.put_append, subst edges_msg.put_append, subst key_msg.put_append) simp

lemma pred_marshal_parts:
  "pred_marshal b e = b @ append_map_header [] 3 @ append_string [] ''p'' @ key_marshal [] (PredPK e) @
     append_string [] ''s'' @ marshal_pairs [] (Subjects e) @
     append_string [] ''o'' @ marshal_pairs [] (Objects e)"
  unfolding pred_marshal_def Let_def lit_fields
  by (subst pairs_msg.put_append, subst pairs_msg.put_append, subst key_msg.put_append) simp

lemmas read_fields = read_map_header_bytes_append read_map_key_zc_append read_n_3
  key_msg.get_put edges_msg.get_put pairs_msg.get_put

lemmas stream_fields = rd_header_append rd_map_key_append read_n_3
  key_stream.get_put edges_stream.get_put pairs_stream.get_put

lemma entity_round_trip:
  "entity_fits e \<Longrightarrow> entity_unmarshal z (entity_marshal [] e @ rest) = Inr (e, rest)"
  by (simp add: entity_marshal_parts entity_unmarshal_def entity_fits_def read_fields)

lemma entity_decode_encode:
  "entity_fits e \<Longrightarrow> entity_decode buffered z (entity_marshal [] e @ rest) = Inr (e, rest)"
  by (simp add: entity_marshal_parts entity_decode_def entity_fits_def stream_fields)

lemma ext_round_trip:
  "ext_fits e \<Longrightarrow> ext_unmarshal z (ext_marshal [] e @ rest) = Inr (e, rest)"
  by (simp add: ext_marshal_parts ext_unmarshal_def ext_fits_def read_fields)

lemma ext_decode_encode:
  "ext_fits e \<Longrightarrow> ext_decode buffered z (ext_marshal [] e @ rest) = Inr (e, rest)"
  by (simp add: ext_marshal_parts ext_decode_def ext_fits_def stream_fields)

lemma pred_round_trip:
  "pred_fits e \<Longrightarrow> pred_unmarshal z (pred_marshal [] e @ rest) = Inr (e, rest)"
  by (simp add: pred_marshal_parts pred_unmarshal_def pred_fits_def read_fields)

lemma pred_decode_encode:
  "pred_fits e \<Longrightarrow> pred_decode buffered z (pred_marshal [] e @ rest) = Inr (e, rest)"
  by (simp add: pred_marshal_parts pred_decode_def pred_fits_def stream_fields)

interpretation entity_msg: codec entity_marshal "entity_unmarshal z" entity_fits for z
  by unfold_locales (simp add: entity_marshal_parts, rule entity_round_trip)

interpretation ext_msg: codec ext_marshal "ext_unmarshal z" ext_fits for z
  by unfold_locales (simp add: ext_marshal_parts, rule ext_round_trip)

interpretation pred_msg: codec pred_marshal "pred_unmarshal z" pred_fits for z
  by unfold_locales (simp add: pred_marshal_parts, rule pred_round_trip)

text \<open>An entry of the predicate index starts with the byte of nil or with that of a map of three fields.\<close>

definition pred_entry_fits :: "predicate_entity option \<Rightarrow> bool" where
  "pred_entry_fits v = (case v of None \<Rightarrow> True | Some z \<Rightarrow> pred_fits z)"

lemma pred_entry_append: "pred_entry_marshal b v = b @ pred_entry_marshal [] v"
  by (cases v) (simp_all add: pred_entry_marshal_def append_nil_def pred_marshal_parts)

lemma is_nil_entry: "is_nil (pred_entry_marshal [] v @ rest) \<longleftrightarrow> v = None"
  by (cases v) (simp_all add: pred_entry_marshal_def append_nil_def is_nil_def pred_marshal_parts
      append_map_header_def wfixmap_def)

lemma read_nil_append: "read_nil_bytes (append_nil [] @ rest) = Inr rest"
  by (simp add: append_nil_def read_nil_bytes_def)

interpretation pred_entry_msg: codec pred_entry_marshal pred_entry_unmarshal pred_entry_fits
proof unfold_locales
  fix b v show "pred_entry_marshal b v = b @ pred_entry_marshal [] v" by (rule pred_entry_append)
next
  fix v rest assume "pred_entry_fits v"
  then show "pred_entry_unmarshal (pred_entry_marshal [] v @ rest) = Inr (v, rest)"
    unfolding pred_entry_unmarshal_def is_nil_entry
    by (cases v) (simp_all add: pred_entry_marshal_def pred_entry_fits_def pred_round_trip read_nil_append)
qed

interpretation pred_entry_stream: codec pred_entry_marshal "pred_entry_decode buffered" pred_entry_fits
  for buffered
proof unfold_locales
  fix b v show "pred_entry_marshal b v = b @ pred_entry_marshal [] v" by (rule pred_entry_append)
next
  fix v rest assume "pred_entry_fits v"
  then show "pred_entry_decode buffered (pred_entry_marshal [] v @ rest) = Inr (v, rest)"
    unfolding pred_entry_decode_def is_nil_entry
    by (cases v) (simp_all add: pred_entry_marshal_def pred_entry_fits_def pred_decode_encode
        rd_nil_def read_nil_append from_stream_def)
qed

interpretation pred_index_map: map_codec append_string read_string_bytes fits
    pred_entry_marshal pred_entry_unmarshal pred_entry_fits
  by unfold_locales

interpretation pred_index_stream: map_codec append_string rd_string fits
    pred_entry_marshal "pred_entry_decode buffered" pred_entry_fits for buffered
  by unfold_locales

interpretation strings_map: map_codec append_string read_string_bytes fits
    append_string read_string_bytes fits
  by unfold_locales

interpretation strings_stream: map_codec append_string rd_string fits append_string rd_string fits
  by unfold_locales

definition index_fits :: "('v \<Rightarrow> bool) \<Rightarrow> (string, 'v) gomap \<Rightarrow> bool" where
  "index_fits ok m \<longleftrightarrow> gm_wf m \<and> fits m \<and> list_all (\<lambda>(k, v). fits k \<and> ok v) m"

lemma pred_index_round_trip:
  "index_fits pred_entry_fits m \<Longrightarrow> pred_index_unmarshal (pred_index_marshal [] m @ rest) = Inr (m, rest)"
  unfolding pred_index_unmarshal_def pred_index_marshal_def
  by (rule pred_index_map.read_map_put)
    (simp_all add: index_fits_def fits_def read_map_header_bytes_append)

lemma pred_index_decode_encode:
  "index_fits pred_entry_fits m \<Longrightarrow> pred_index_decode buffered (pred_index_marshal [] m @ rest) = Inr (m, rest)"
  unfolding pred_index_decode_def pred_index_marshal_def
  by (rule pred_index_stream.read_map_put)
    (simp_all add: index_fits_def fits_def rd_header_append)

lemma relship_round_trip:
  "index_fits fits m \<Longrightarrow> relship_unmarshal (relship_marshal [] m @ rest) = Inr (m, rest)"
  unfolding relship_unmarshal_def relship_marshal_def
  by (rule strings_map.read_map_put)
    (simp_all add: index_fits_def fits_def read_map_header_bytes_append)

lemma relship_decode_encode:
  "index_fits fits m \<Longrightarrow> relship_decode (relship_marshal [] m @ rest) = Inr (m, rest)"
  unfolding relship_decode_def relship_marshal_def
  by (rule strings_stream.read_map_put)
    (simp_all add: index_fits_def fits_def rd_header_append)

lemma namespace_is_relship:
  "namespace_marshal = relship_marshal" "namespace_unmarshal = relship_unmarshal"
  "namespace_decode = relship_decode" "namespace_encode = relship_encode"
  "namespace_msgsize = relship_msgsize"
  by (intro ext, simp add: namespace_marshal_def relship_marshal_def namespace_unmarshal_def
      relship_unmarshal_def namespace_decode_def relship_decode_def namespace_encode_def
      relship_encode_def namespace_msgsize_def relship_msgsize_def)+

section \<open>The encoders write what the marshallers append\<close>

lemma writes_key: "writes (key_encode z) (key_marshal [] z)"
  by (simp add: key_encode_def key_marshal_def writes_bytes)

lemma writes_fitting: "fits s \<Longrightarrow> writes (write_string s) (append_string [] s)"
  by (rule writes_string) (simp add: fits_def)

lemma writes_edges: "edges_fit m \<Longrightarrow> writes (encode_edges m) (marshal_edges [] m)"
  unfolding encode_edges_def marshal_edges_def
  by (intro edges_map.writes_map conjI key_msg.writes_array writes_key)
    (auto simp: edges_fit_def list_all_iff intro: writes_fitting)

lemma writes_subs:
  "subs_fit sub \<Longrightarrow> writes (w_map write_string write_uint32 sub) (put_map append_string append_uint32 [] sub)"
  by (intro subs_map.writes_map conjI writes_uint32)
    (auto simp: subs_fit_def list_all_iff intro: writes_fitting)

lemma writes_pairs: "pairs_fit m \<Longrightarrow> writes (encode_pairs m) (marshal_pairs [] m)"
  unfolding encode_pairs_def marshal_pairs_def
  by (intro pairs_map.writes_map conjI)
    (auto simp: pairs_fit_def list_all_iff intro: writes_fitting writes_subs)

lemma writes_lit: "length ws \<le> 18 \<Longrightarrow> writes (w_append (lit ws)) (lit ws)"
  by (rule writes_append) (simp add: lit_def)

lemma writes_entity: "entity_fits e \<Longrightarrow> writes (entity_encode e) (entity_marshal [] e)"
  unfolding entity_encode_def[abs_def] entity_fits_def
  by (simp only: entity_marshal_parts lit_fields(2,3)[symmetric] append_Nil
      append_assoc[of "append_map_header [] 3", symmetric] lit_fields(1)[symmetric])
    (intro writes_seq writes_lit writes_key writes_edges; simp)

lemma writes_ext: "ext_fits e \<Longrightarrow> writes (ext_encode e) (ext_marshal [] e)"
  unfolding ext_encode_def[abs_def] ext_fits_def
  by (simp only: ext_marshal_parts lit_fields(5,6)[symmetric] append_Nil
      append_assoc[of "append_map_header [] 3", symmetric] lit_fields(1)[symmetric])
    (intro writes_seq writes_lit writes_key writes_edges; simp)

lemma writes_pred: "pred_fits e \<Longrightarrow> writes (pred_encode e) (pred_marshal [] e)"
  unfolding pred_encode_def[abs_def] pred_fits_def
  by (simp only: pred_marshal_parts lit_fields(3,4)[symmetric] append_Nil
      append_assoc[of "append_map_header [] 3", symmetric] lit_fields(1)[symmetric])
    (intro writes_seq writes_lit writes_key writes_pairs; simp)

lemma writes_pred_entry:
  "pred_entry_fits v \<Longrightarrow> writes (pred_entry_encode v) (pred_entry_marshal [] v)"
  by (cases v) (simp_all add: pred_entry_encode_def pred_entry_marshal_def pred_entry_fits_def
      writes_nil writes_pred)

lemma writes_pred_index:
  "index_fits pred_entry_fits m \<Longrightarrow> writes (pred_index_encode m) (pred_index_marshal [] m)"
  unfolding pred_index_encode_def pred_index_marshal_def
  by (intro pred_index_map.writes_map conjI)
    (auto simp: index_fits_def list_all_iff intro: writes_fitting writes_pred_entry)

lemma writes_relship:
  "index_fits fits m \<Longrightarrow> writes (relship_encode m) (relship_marshal [] m)"
  unfolding relship_encode_def relship_marshal_def
  by (intro strings_map.writes_map conjI)
    (auto simp: index_fits_def list_all_iff intro: writes_fitting)

section \<open>Msgsize is enough\<close>

lemma length_key_marshal: "length (key_marshal [] k) = 10"
  by (simp add: key_marshal_def append_bytes_def)

lemma length_marshal_edges: "length (marshal_edges [] m) \<le> 5 + edges_msgsize m"
proof -
  have "length (put_array key_marshal [] ks) \<le> 5 + (\<Sum>_ \<leftarrow> ks. key_msgsize)" for ks
    by (rule key_msg.length_put_array) (simp add: length_key_marshal key_msgsize_def)
  then have "length (append_string [] s) + length (put_array key_marshal [] ks) \<le>
      5 + length s + 5 + (\<Sum>_ \<leftarrow> ks. key_msgsize)" for s ks
    using length_append_string[of s] by (metis add.assoc add_mono)
  then show ?thesis
    unfolding marshal_edges_def edges_msgsize_def by (intro edges_map.length_put_map)
qed

lemma length_marshal_pairs: "length (marshal_pairs [] m) \<le> 5 + pairs_msgsize m"
proof -
  have "length (append_string [] t) + length (append_uint32 [] v) \<le> 5 + length t + 5" for t v
    using length_append_string[of t] length_append_uint32[of v] by simp
  then have "length (put_map append_string append_uint32 [] sub) \<le> 5 + (\<Sum>(t, _) \<leftarrow> sub. 5 + length t + 5)" for sub
    by (intro subs_map.length_put_map)
  then have "length (append_string [] s) + length (put_map append_string append_uint32 [] sub) \<le>
      5 + length s + 5 + (\<Sum>(t, _) \<leftarrow> sub. 5 + length t + 5)" for s sub
    using add_mono[OF length_append_string[of s]] by (simp only: add.assoc)
  then show ?thesis
    unfolding marshal_pairs_def pairs_msgsize_def by (intro pairs_map.length_put_map)
qed

lemma length_name [simp]:
  "length (append_map_header [] 3) = 1" "length (append_string [] ''p'') = 2"
  "length (append_string [] ''i'') = 2" "length (append_string [] ''o'') = 2"
  "length (append_string [] ''s'') = 2" "length (append_string [] ''i+'') = 3"
  "length (append_string [] ''o+'') = 3"
  by (simp_all add: append_map_header_def append_string_def)

lemma length_entity_marshal: "length (entity_marshal [] e) \<le> entity_msgsize e"
  using length_marshal_edges[of "InEdges e"] length_marshal_edges[of "OutEdges e"]
  by (simp add: entity_marshal_parts entity_msgsize_def length_key_marshal key_msgsize_def)

lemma length_ext_marshal: "length (ext_marshal [] e) \<le> ext_msgsize e"
  using length_marshal_edges[of "InPlusEdges e"] length_marshal_edges[of "OutPlusEdges e"]
  by (simp add: ext_marshal_parts ext_msgsize_def length_key_marshal key_msgsize_def)

lemma length_pred_marshal: "length (pred_marshal [] e) \<le> pred_msgsize e"
  using length_marshal_pairs[of "Subjects e"] length_marshal_pairs[of "Objects e"]
  by (simp add: pred_marshal_parts pred_msgsize_def length_key_marshal key_msgsize_def)

lemma length_pred_index_marshal: "length (pred_index_marshal [] m) \<le> pred_index_msgsize m"
  unfolding pred_index_marshal_def pred_index_msgsize_def
proof (rule pred_index_map.length_put_map)
  fix s v
  show "length (append_string [] s) + length (pred_entry_marshal [] v) \<le>
      5 + length s + (case v of None \<Rightarrow> 1 | Some p \<Rightarrow> pred_msgsize p)"
    using length_append_string[of s] length_pred_marshal[of "the v"]
    by (cases v) (simp_all add: pred_entry_marshal_def append_nil_def)
qed

lemma length_relship_marshal: "length (relship_marshal [] m) \<le> relship_msgsize m"
  unfolding relship_marshal_def relship_msgsize_def
proof (rule strings_map.length_put_map)
  fix s t
  show "length (append_string [] s) + length (append_string [] t) \<le> 5 + length s + 5 + length t"
    using length_append_string[of s] length_append_string[of t] by simp
qed

end
