(* ===== verification/ResultCodec.thy ===== *)
theory ResultCodec
  imports EntityCodec
begin

text \<open>
  The generated codecs of URIs and triples (turtle/handle_gen.go) and of query results
  (db/result_gen.go).
\<close>

section \<open>URIs\<close>

definition uri_marshal :: "bytes \<Rightarrow> uri \<Rightarrow> bytes" where
  "uri_marshal b z =
     (let o1 = b @ lit [0x82, 0xa1, 0x6e];
          o2 = append_string o1 (Namespace z);
          o3 = o2 @ lit [0xa1, 0x76]
      in append_string o3 (Value z))"

definition uri_unmarshal :: "uri \<Rightarrow> bytes \<Rightarrow> merr + uri \<times> bytes" where
  "uri_unmarshal z bts =
     bind_res (read_map_header_bytes bts) (\<lambda>(n, b0).
       read_n (unat n) (\<lambda>z b1.
         bind_res (read_map_key_zc b1) (\<lambda>(field, b2).
           if field = ''n'' then
             bind_res (read_string_bytes b2) (\<lambda>(s, b3). Inr (z\<lparr>Namespace := s\<rparr>, b3))
           else if field = ''v'' then
             bind_res (read_string_bytes b2) (\<lambda>(s, b3). Inr (z\<lparr>Value := s\<rparr>, b3))
           else bind_res (skip b2) (\<lambda>b3. Inr (z, b3)))) z b0)"

definition uri_encode :: "uri \<Rightarrow> encoder" where
  "uri_encode z w0 =
     bind_res (w_append (lit [0x82, 0xa1, 0x6e]) w0) (\<lambda>w1.
     bind_res (write_string (Namespace z) w1) (\<lambda>w2.
     bind_res (w_append (lit [0xa1, 0x76]) w2) (write_string (Value z))))"

definition uri_decode :: "(bytes \<Rightarrow> bool) \<Rightarrow> uri \<Rightarrow> bytes \<Rightarrow> merr + uri \<times> bytes" where
  "uri_decode buffered z bts =
     bind_res (rd_map_header bts) (\<lambda>(n, b0).
       read_n (unat n) (\<lambda>z b1.
         bind_res (rd_map_key b1) (\<lambda>(field, b2).
           if field = ''n'' then
             bind_res (rd_string b2) (\<lambda>(s, b3). Inr (z\<lparr>Namespace := s\<rparr>, b3))
           else if field = ''v'' then
             bind_res (rd_string b2) (\<lambda>(s, b3). Inr (z\<lparr>Value := s\<rparr>, b3))
           else bind_res (rd_skip buffered b2) (\<lambda>b3. Inr (z, b3)))) z b0)"

definition uri_msgsize :: "uri \<Rightarrow> nat" where
  "uri_msgsize z = 1 + 2 + 5 + length (Namespace z) + 2 + 5 + length (Value z)"

section \<open>Triples\<close>

text \<open>The generated code repeats the loop of a URI for each of the three parts of a triple.\<close>

definition triple_marshal :: "bytes \<Rightarrow> triple \<Rightarrow> bytes" where
  "triple_marshal b z =
     (let o1 = b @ lit [0x83, 0xa1, 0x73, 0x82, 0xa1, 0x6e];
          o2 = append_string o1 (Namespace (Subject z));
          o3 = o2 @ lit [0xa1, 0x76];
          o4 = append_string o3 (Value (Subject z));
          o5 = o4 @ lit [0xa1, 0x70, 0x82, 0xa1, 0x6e];
          o6 = append_string o5 (Namespace (Predicate z));
          o7 = o6 @ lit [0xa1, 0x76];
          o8 = append_string o7 (Value (Predicate z));
          o9 = o8 @ lit [0xa1, 0x6f, 0x82, 0xa1, 0x6e];
          o10 = append_string o9 (Namespace (Object z));
          o11 = o10 @ lit [0xa1, 0x76]
      in append_string o11 (Value (Object z)))"

definition triple_unmarshal :: "triple \<Rightarrow> bytes \<Rightarrow> merr + triple \<times> bytes" where
  "triple_unmarshal z bts =
     bind_res (read_map_header_bytes bts) (\<lambda>(n, b0).
       read_n (unat n) (\<lambda>z b1.
         bind_res (read_map_key_zc b1) (\<lambda>(field, b2).
           if field = ''s'' then
             bind_res (uri_unmarshal (Subject z) b2) (\<lambda>(u, b3). Inr (z\<lparr>Subject := u\<rparr>, b3))
           else if field = ''p'' then
             bind_res (uri_unmarshal (Predicate z) b2) (\<lambda>(u, b3). Inr (z\<lparr>Predicate := u\<rparr>, b3))
           else if field = ''o'' then
             bind_res (uri_unmarshal (Object z) b2) (\<lambda>(u, b3). Inr (z\<lparr>Object := u\<rparr>, b3))
           else bind_res (skip b2) (\<lambda>b3. Inr (z, b3)))) z b0)"

definition triple_encode :: "triple \<Rightarrow> encoder" where
  "triple_encode z w0 =
     bind_res (w_append (lit [0x83, 0xa1, 0x73, 0x82, 0xa1, 0x6e]) w0) (\<lambda>w1.
     bind_res (write_string (Namespace (Subject z)) w1) (\<lambda>w2.
     bind_res (w_append (lit [0xa1, 0x76]) w2) (\<lambda>w3.
     bind_res (write_string (Value (Subject z)) w3) (\<lambda>w4.
     bind_res (w_append (lit [0xa1, 0x70, 0x82, 0xa1, 0x6e]) w4) (\<lambda>w5.
     bind_res (write_string (Namespace (Predicate z)) w5) (\<lambda>w6.
     bind_res (w_append (lit [0xa1, 0x76]) w6) (\<lambda>w7.
     bind_res (write_string (Value (Predicate z)) w7) (\<lambda>w8.
     bind_res (w_append (lit [0xa1, 0x6f, 0x82, 0xa1, 0x6e]) w8) (\<lambda>w9.
     bind_res (write_string (Namespace (Object z)) w9) (\<lambda>w10.
     bind_res (w_append (lit [0xa1, 0x76]) w10) (write_string (Value (Object z)))))))))))))"

definition triple_decode :: "(bytes \<Rightarrow> bool) \<Rightarrow> triple \<Rightarrow> bytes \<Rightarrow> merr + triple \<times> bytes" where
  "triple_decode buffered z bts =
     bind_res (rd_map_header bts) (\<lambda>(n, b0).
       read_n (unat n) (\<lambda>z b1.
         bind_res (rd_map_key b1) (\<lambda>(field, b2).
           if field = ''s'' then
             bind_res (uri_decode buffered (Subject z) b2) (\<lambda>(u, b3). Inr (z\<lparr>Subject := u\<rparr>, b3))
           else if field = ''p'' then
             bind_res (uri_decode buffered (Predicate z) b2) (\<lambda>(u, b3). Inr (z\<lparr>Predicate := u\<rparr>, b3))
           else if field = ''o'' then
             bind_res (uri_decode buffered (Object z) b2) (\<lambda>(u, b3). Inr (z\<lparr>Object := u\<rparr>, b3))
           else bind_res (rd_skip buffered b2) (\<lambda>b3. Inr (z, b3)))) z b0)"

definition triple_msgsize :: "triple \<Rightarrow> nat" where
  "triple_msgsize z =
     1 + 2 + 1 + 2 + 5 + length (Namespace (Subject z)) + 2 + 5 + length (Value (Subject z)) +
     2 + 1 + 2 + 5 + length (Namespace (Predicate z)) + 2 + 5 + length (Value (Predicate z)) +
     2 + 1 + 2 + 5 + length (Namespace (Object z)) + 2 + 5 + length (Value (Object z))"

section \<open>Query results\<close>

type_synonym result_map = "(string, uri) gomap"

text \<open>
  \<open>QueryResult\<close>: the elapsed time in nanoseconds and the errors are fields the generated code does not
  know. The private list of selected variables is left out.
\<close>

record query_result =
  Rows :: "result_map list"
  Count :: "64 word"
  Elapsed :: "64 word"
  Errors :: "string list"

definition zero_uri :: uri where
  "zero_uri = \<lparr>Namespace = [], Value = []\<rparr>"

definition result_map_marshal :: "bytes \<Rightarrow> result_map \<Rightarrow> bytes" where
  "result_map_marshal b z = put_map append_string uri_marshal b z"

definition result_map_unmarshal :: "bytes \<Rightarrow> merr + result_map \<times> bytes" where
  "result_map_unmarshal bts = read_map read_map_header_bytes read_string_bytes (uri_unmarshal zero_uri) bts"

definition result_map_encode :: "result_map \<Rightarrow> encoder" where
  "result_map_encode z = w_map write_string uri_encode z"

definition result_map_decode :: "(bytes \<Rightarrow> bool) \<Rightarrow> bytes \<Rightarrow> merr + result_map \<times> bytes" where
  "result_map_decode buffered bts = read_map rd_map_header rd_string (uri_decode buffered zero_uri) bts"

definition result_map_msgsize :: "result_map \<Rightarrow> nat" where
  "result_map_msgsize z = 5 + (\<Sum>(s, u) \<leftarrow> z. 5 + length s + uri_msgsize u)"

definition result_marshal :: "bytes \<Rightarrow> query_result \<Rightarrow> bytes" where
  "result_marshal b z =
     (let o1 = b @ lit [0x82, 0xa4, 0x52, 0x6f, 0x77, 0x73];
          o2 = put_array result_map_marshal o1 (Rows z);
          o3 = o2 @ lit [0xa5, 0x43, 0x6f, 0x75, 0x6e, 0x74]
      in append_int64 o3 (Count z))"

definition result_unmarshal :: "query_result \<Rightarrow> bytes \<Rightarrow> merr + query_result \<times> bytes" where
  "result_unmarshal z bts =
     bind_res (read_map_header_bytes bts) (\<lambda>(n, b0).
       read_n (unat n) (\<lambda>z b1.
         bind_res (read_map_key_zc b1) (\<lambda>(field, b2).
           if field = ''Rows'' then
             bind_res (read_array read_array_header_bytes result_map_unmarshal b2)
               (\<lambda>(rs, b3). Inr (z\<lparr>Rows := rs\<rparr>, b3))
           else if field = ''Count'' then
             bind_res (read_int64_bytes b2) (\<lambda>(i, b3). Inr (z\<lparr>Count := i\<rparr>, b3))
           else bind_res (skip b2) (\<lambda>b3. Inr (z, b3)))) z b0)"

definition result_encode :: "query_result \<Rightarrow> encoder" where
  "result_encode z w0 =
     bind_res (w_append (lit [0x82, 0xa4, 0x52, 0x6f, 0x77, 0x73]) w0) (\<lambda>w1.
     bind_res (w_array result_map_encode (Rows z) w1) (\<lambda>w2.
     bind_res (w_append (lit [0xa5, 0x43, 0x6f, 0x75, 0x6e, 0x74]) w2) (write_int64 (Count z))))"

definition result_decode :: "(bytes \<Rightarrow> bool) \<Rightarrow> query_result \<Rightarrow> bytes \<Rightarrow> merr + query_result \<times> bytes" where
  "result_decode buffered z bts =
     bind_res (rd_map_header bts) (\<lambda>(n, b0).
       read_n (unat n) (\<lambda>z b1.
         bind_res (rd_map_key b1) (\<lambda>(field, b2).
           if field = ''Rows'' then
             bind_res (read_array rd_array_header (result_map_decode buffered) b2)
               (\<lambda>(rs, b3). Inr (z\<lparr>Rows := rs\<rparr>, b3))
           else if field = ''Count'' then
             bind_res (rd_int64 b2) (\<lambda>(i, b3). Inr (z\<lparr>Count := i\<rparr>, b3))
           else bind_res (rd_skip buffered b2) (\<lambda>b3. Inr (z, b3)))) z b0)"

definition result_msgsize :: "query_result \<Rightarrow> nat" where
  "result_msgsize z =
     1 + 5 + 5 + (\<Sum>m \<leftarrow> Rows z. 5 + (\<Sum>(s, u) \<leftarrow> m. 5 + length s + uri_msgsize u)) + (6 + 9)"

section \<open>Round trips\<close>

definition uri_fits :: "uri \<Rightarrow> bool" where
  "uri_fits u \<longleftrightarrow> fits (Namespace u) \<and> fits (Value u)"

definition triple_fits :: "triple \<Rightarrow> bool" where
  "triple_fits t \<longleftrightarrow> uri_fits (Subject t) \<and> uri_fits (Predicate t) \<and> uri_fits (Object t)"

lemma lit_uri:
  "lit [0x82, 0xa1, 0x6e] = append_map_header [] 2 @ append_string [] ''n''"
  "lit [0xa1, 0x76] = append_string [] ''v''"
  "lit [0x83, 0xa1, 0x73, 0x82, 0xa1, 0x6e] =
     append_map_header [] 3 @ append_string [] ''s'' @ append_map_header [] 2 @ append_string [] ''n''"
  "lit [0xa1, 0x70, 0x82, 0xa1, 0x6e] =
     append_string [] ''p'' @ append_map_header [] 2 @ append_string [] ''n''"
  "lit [0xa1, 0x6f, 0x82, 0xa1, 0x6e] =
     append_string [] ''o'' @ append_map_header [] 2 @ append_string [] ''n''"
  "lit [0x82, 0xa4, 0x52, 0x6f, 0x77, 0x73] = append_map_header [] 2 @ append_string [] ''Rows''"
  "lit [0xa5, 0x43, 0x6f, 0x75, 0x6e, 0x74] = append_string [] ''Count''"
  by (simp_all add: lit_def append_map_header_def append_string_def wfixmap_def wfixstr_def
      byte_of_u8_def char_of_def bit_Suc_0_iff)

lemma read_n_2: "read_n 2 f s b = bind_res (f s b) (\<lambda>(s1, b1). bind_res (f s1 b1) (\<lambda>(s2, b2). Inr (s2, b2)))"
  unfolding numeral_2_eq_2 by (simp add: case_prod_unfold)

lemma uri_marshal_parts:
  "uri_marshal b u = b @ append_map_header [] 2 @ append_string [] ''n'' @ append_string [] (Namespace u) @
     append_string [] ''v'' @ append_string [] (Value u)"
  unfolding uri_marshal_def Let_def lit_uri
  by (subst append_string_append, subst (2) append_string_append) simp

lemma append_string_cat: "append_string (x @ y) s = x @ y @ append_string [] s"
  using append_string_append[of "x @ y" s] by simp

lemma triple_marshal_parts:
  "triple_marshal b t = b @ append_map_header [] 3 @ append_string [] ''s'' @ uri_marshal [] (Subject t) @
     append_string [] ''p'' @ uri_marshal [] (Predicate t) @ append_string [] ''o'' @ uri_marshal [] (Object t)"
  by (simp add: triple_marshal_def Let_def uri_marshal_parts lit_uri append_string_cat)

lemma uri_round_trip: "uri_fits u \<Longrightarrow> uri_unmarshal z (uri_marshal [] u @ rest) = Inr (u, rest)"
  by (simp add: uri_marshal_parts uri_unmarshal_def uri_fits_def read_fields read_n_2 string_msg.get_put)

lemma uri_decode_encode: "uri_fits u \<Longrightarrow> uri_decode buffered z (uri_marshal [] u @ rest) = Inr (u, rest)"
  by (simp add: uri_marshal_parts uri_decode_def uri_fits_def stream_fields read_n_2 string_stream.get_put)

interpretation uri_msg: codec uri_marshal "uri_unmarshal z" uri_fits for z
  by unfold_locales (simp add: uri_marshal_parts, rule uri_round_trip)

interpretation uri_stream: codec uri_marshal "uri_decode buffered z" uri_fits for buffered z
  by unfold_locales (rule uri_msg.put_append, rule uri_decode_encode)

lemma triple_round_trip: "triple_fits t \<Longrightarrow> triple_unmarshal z (triple_marshal [] t @ rest) = Inr (t, rest)"
  by (simp add: triple_marshal_parts triple_unmarshal_def triple_fits_def read_fields uri_msg.get_put)

lemma triple_decode_encode:
  "triple_fits t \<Longrightarrow> triple_decode buffered z (triple_marshal [] t @ rest) = Inr (t, rest)"
  by (simp add: triple_marshal_parts triple_decode_def triple_fits_def stream_fields uri_stream.get_put)

interpretation triple_msg: codec triple_marshal "triple_unmarshal z" triple_fits for z
  by unfold_locales (simp add: triple_marshal_parts, rule triple_round_trip)

interpretation rows_map: map_codec append_string read_string_bytes fits
    uri_marshal "uri_unmarshal zero_uri" uri_fits
  by unfold_locales

interpretation rows_map_stream: map_codec append_string rd_string fits
    uri_marshal "uri_decode buffered zero_uri" uri_fits for buffered
  by unfold_locales

interpretation result_map_msg: codec result_map_marshal result_map_unmarshal "index_fits uri_fits"
  unfolding result_map_marshal_def[abs_def] result_map_unmarshal_def[abs_def]
  by unfold_locales (rule rows_map.put_map_append, rule rows_map.read_map_put,
      simp_all add: index_fits_def fits_def read_map_header_bytes_append)

interpretation result_map_stream: codec result_map_marshal "result_map_decode buffered" "index_fits uri_fits"
  for buffered
  unfolding result_map_marshal_def[abs_def] result_map_decode_def[abs_def]
  by unfold_locales (rule rows_map.put_map_append, rule rows_map_stream.read_map_put,
      simp_all add: index_fits_def fits_def rd_header_append)

definition result_fits :: "query_result \<Rightarrow> bool" where
  "result_fits r \<longleftrightarrow> fits (Rows r) \<and> list_all (index_fits uri_fits) (Rows r)"

lemma result_marshal_parts:
  "result_marshal b r = b @ append_map_header [] 2 @ append_string [] ''Rows'' @
     put_array result_map_marshal [] (Rows r) @ append_string [] ''Count'' @ append_int64 [] (Count r)"
  unfolding result_marshal_def Let_def lit_uri
  by (subst append_int64_append, subst result_map_msg.put_array_append) simp

lemma read_rows:
  "result_fits r \<Longrightarrow> read_array read_array_header_bytes result_map_unmarshal
     (put_array result_map_marshal [] (Rows r) @ rest) = Inr (Rows r, rest)"
  by (rule result_map_msg.read_array_put) (simp_all add: result_fits_def fits_def read_array_header_bytes_append)

lemma decode_rows:
  "result_fits r \<Longrightarrow> read_array rd_array_header (result_map_decode buffered)
     (put_array result_map_marshal [] (Rows r) @ rest) = Inr (Rows r, rest)"
  by (rule result_map_stream.read_array_put) (simp_all add: result_fits_def fits_def rd_header_append)

lemma result_round_trip:
  "result_fits r \<Longrightarrow> result_unmarshal z (result_marshal [] r @ rest) =
     Inr (r\<lparr>Elapsed := Elapsed z, Errors := Errors z\<rparr>, rest)"
  by (simp add: result_marshal_parts result_unmarshal_def read_fields read_n_2 read_rows
      read_int64_bytes_append)

lemma result_decode_encode:
  "result_fits r \<Longrightarrow> result_decode buffered z (result_marshal [] r @ rest) =
     Inr (r\<lparr>Elapsed := Elapsed z, Errors := Errors z\<rparr>, rest)"
  by (simp add: result_marshal_parts result_decode_def stream_fields read_n_2 decode_rows rd_number_append)

section \<open>Encoders and sizes\<close>

lemma writes_uri: "uri_fits u \<Longrightarrow> writes (uri_encode u) (uri_marshal [] u)"
  unfolding uri_encode_def[abs_def] uri_fits_def
  by (simp only: uri_marshal_parts lit_uri(2)[symmetric] append_Nil
      append_assoc[of "append_map_header [] 2", symmetric] lit_uri(1)[symmetric])
    (intro writes_seq writes_lit writes_fitting; simp)

lemma triple_marshal_lits:
  "triple_marshal [] t =
     lit [0x83, 0xa1, 0x73, 0x82, 0xa1, 0x6e] @ append_string [] (Namespace (Subject t)) @
     lit [0xa1, 0x76] @ append_string [] (Value (Subject t)) @
     lit [0xa1, 0x70, 0x82, 0xa1, 0x6e] @ append_string [] (Namespace (Predicate t)) @
     lit [0xa1, 0x76] @ append_string [] (Value (Predicate t)) @
     lit [0xa1, 0x6f, 0x82, 0xa1, 0x6e] @ append_string [] (Namespace (Object t)) @
     lit [0xa1, 0x76] @ append_string [] (Value (Object t))"
  by (simp add: triple_marshal_parts uri_marshal_parts lit_uri)

lemma writes_triple: "triple_fits t \<Longrightarrow> writes (triple_encode t) (triple_marshal [] t)"
  unfolding triple_encode_def[abs_def] triple_fits_def uri_fits_def triple_marshal_lits
  by (intro writes_seq writes_lit writes_fitting; simp)

lemma writes_result_map: "index_fits uri_fits m \<Longrightarrow> writes (result_map_encode m) (result_map_marshal [] m)"
  unfolding result_map_encode_def result_map_marshal_def
  by (intro rows_map.writes_map conjI)
    (auto simp: index_fits_def list_all_iff intro: writes_fitting writes_uri)

lemma writes_result: "result_fits r \<Longrightarrow> writes (result_encode r) (result_marshal [] r)"
  unfolding result_encode_def[abs_def] result_fits_def
  by (simp only: result_marshal_parts lit_uri(7)[symmetric] append_Nil
      append_assoc[of "append_map_header [] 2", symmetric] lit_uri(6)[symmetric])
    (intro writes_seq writes_lit writes_int64 result_map_msg.writes_array writes_result_map;
      simp add: list_all_iff)

lemma length_uri_marshal: "length (uri_marshal [] u) \<le> uri_msgsize u"
  using length_append_string[of "Namespace u"] length_append_string[of "Value u"]
  by (simp add: uri_marshal_parts uri_msgsize_def append_map_header_def append_string_short)

lemma length_triple_marshal: "length (triple_marshal [] t) \<le> triple_msgsize t"
  using length_uri_marshal[of "Subject t"] length_uri_marshal[of "Predicate t"]
    length_uri_marshal[of "Object t"]
  by (simp add: triple_marshal_parts triple_msgsize_def uri_msgsize_def append_map_header_def
      append_string_short)

lemma length_result_map_marshal: "length (result_map_marshal [] m) \<le> result_map_msgsize m"
  unfolding result_map_marshal_def result_map_msgsize_def
proof (rule rows_map.length_put_map)
  fix s u
  show "length (append_string [] s) + length (uri_marshal [] u) \<le> 5 + length s + uri_msgsize u"
    using length_append_string[of s] length_uri_marshal[of u] by simp
qed

lemma length_result_marshal: "length (result_marshal [] r) \<le> result_msgsize r"
proof -
  have "length (put_array result_map_marshal [] (Rows r)) \<le>
      5 + (\<Sum>m \<leftarrow> Rows r. 5 + (\<Sum>(s, u) \<leftarrow> m. 5 + length s + uri_msgsize u))"
    using length_result_map_marshal
    by (intro result_map_msg.length_put_array) (simp add: result_map_msgsize_def)
  then show ?thesis
    using length_append_int64[of "Count r"]
    by (simp add: result_marshal_parts result_msgsize_def append_map_header_def append_string_short)
qed

end
