(* ===== verification/Storage.thy ===== *)
theory Storage
  imports Transaction ResultCodec
begin

text \<open>
  The stored form of the database: the LevelDB values are the encodings of the decoded values the
  other theories work with (db/transaction.go, db/snapshot.go), and the three index files that
  \<open>saveIndexes\<close> writes and \<open>newDB\<close> reads (db/db.go).
\<close>

section \<open>Stored values\<close>

record byte_store =
  graph_bytes :: "(key, bytes) gomap"
  ext_bytes :: "(key, bytes) gomap"
  pred_bytes :: "(key, bytes) gomap"

definition short_bytes :: err where
  "short_bytes = Failure ''short bytes''"

text \<open>
  Reads and writes of the transaction on the bytes. \<open>getEntityByHash\<close> goes on when the key is missing
  and decodes no bytes. The codec's errors are all one error here.
\<close>

definition bs_put_entity :: "entity \<Rightarrow> byte_store \<Rightarrow> byte_store" where
  "bs_put_entity ent bs =
     bs\<lparr>graph_bytes := gm_put (PK ent) (entity_marshal [] ent) (graph_bytes bs)\<rparr>"

definition bs_get_entity :: "byte_store \<Rightarrow> key \<Rightarrow> entity res" where
  "bs_get_entity bs hash =
     (let b = (case gm_get (graph_bytes bs) hash of None \<Rightarrow> [] | Some b \<Rightarrow> b) in
      case entity_unmarshal new_entity b of
        Inl _ \<Rightarrow> Inl (Wrapped short_bytes)
      | Inr (ent, _) \<Rightarrow> Inr ent)"

definition bs_save_extended_index :: "extended_index \<Rightarrow> byte_store \<Rightarrow> byte_store" where
  "bs_save_extended_index x bs =
     bs\<lparr>ext_bytes := gm_put (ExtPK x) (ext_marshal [] x) (ext_bytes bs)\<rparr>"

definition bs_get_extended_index :: "byte_store \<Rightarrow> key \<Rightarrow> extended_index res" where
  "bs_get_extended_index bs hash =
     (case gm_get (ext_bytes bs) hash of
        None \<Rightarrow> Inl LdbNotFound
      | Some b \<Rightarrow>
          (case ext_unmarshal new_extended_index b of
             Inl _ \<Rightarrow> Inl short_bytes | Inr (x, _) \<Rightarrow> Inr x))"

definition bs_get_predicate :: "byte_store \<Rightarrow> key \<Rightarrow> predicate_entity res" where
  "bs_get_predicate bs hash =
     (case gm_get (pred_bytes bs) hash of
        None \<Rightarrow> Inr (new_pred hash)
      | Some b \<Rightarrow>
          (case pred_unmarshal new_predicate_entity b of
             Inl _ \<Rightarrow> Inl short_bytes | Inr (p, _) \<Rightarrow> Inr p))"

text \<open>The batch of predicates that \<open>done\<close> writes before it commits.\<close>

definition bs_write_batch :: "(key, predicate_entity) gomap \<Rightarrow> byte_store \<Rightarrow> byte_store" where
  "bs_write_batch batch bs =
     bs\<lparr>pred_bytes := fold (\<lambda>(k, p). gm_put k (pred_marshal [] p)) batch (pred_bytes bs)\<rparr>"

section \<open>The decoded store and its bytes\<close>

definition map_values :: "('v \<Rightarrow> 'w) \<Rightarrow> ('k, 'v) gomap \<Rightarrow> ('k, 'w) gomap" where
  "map_values f m = map (\<lambda>(k, v). (k, f v)) m"

lemma gm_get_map_values [simp]: "gm_get (map_values f m) k = map_option f (gm_get m k)"
  by (induction m) (auto simp: map_values_def)

lemma map_values_put: "map_values f (gm_put k v m) = gm_put k (f v) (map_values f m)"
  by (induction m) (auto simp: map_values_def)

definition stored :: "store \<Rightarrow> byte_store" where
  "stored st =
     \<lparr>graph_bytes = map_values (entity_marshal []) (graphDB st),
      ext_bytes = map_values (ext_marshal []) (extendedDB st),
      pred_bytes = map_values (pred_marshal []) (predDB st)\<rparr>"

definition values_fit :: "store \<Rightarrow> bool" where
  "values_fit st \<longleftrightarrow> list_all (\<lambda>(k, e). entity_fits e) (graphDB st) \<and>
     list_all (\<lambda>(k, x). ext_fits x) (extendedDB st) \<and> list_all (\<lambda>(k, p). pred_fits p) (predDB st)"

lemma values_fit_get:
  assumes "values_fit st"
  shows "gm_get (graphDB st) k = Some e \<Longrightarrow> entity_fits e"
    "gm_get (extendedDB st) k = Some x \<Longrightarrow> ext_fits x"
    "gm_get (predDB st) k = Some p \<Longrightarrow> pred_fits p"
  using assms by (auto simp: values_fit_def list_all_iff dest!: map_of_SomeD)

lemma entity_unmarshal_Nil: "entity_unmarshal z [] = Inl ErrShortBytes"
  by (simp add: entity_unmarshal_def read_map_header_bytes_def)

lemma stored_get_entity:
  assumes "values_fit (tx_db tx)"
  shows "bs_get_entity (stored (tx_db tx)) k = tx_get_entity_by_hash tx k"
proof (cases "gm_get (graphDB (tx_db tx)) k")
  case None
  then show ?thesis
    by (simp add: bs_get_entity_def stored_def tx_get_entity_by_hash_def entity_unmarshal_Nil short_bytes_def)
next
  case (Some e)
  then show ?thesis
    using entity_msg.get_put[OF values_fit_get(1)[OF assms Some], of _ "[]"]
    by (simp add: bs_get_entity_def stored_def tx_get_entity_by_hash_def)
qed

lemma stored_get_ext:
  assumes "values_fit (tx_db tx)"
  shows "bs_get_extended_index (stored (tx_db tx)) k = tx_get_extended_index_by_hash tx k"
  using ext_msg.get_put[OF values_fit_get(2)[OF assms], of k, where rest = "[]"]
  by (auto simp: bs_get_extended_index_def stored_def tx_get_extended_index_by_hash_def split: option.split)

lemma stored_get_pred:
  assumes "values_fit st"
  shows "bs_get_predicate (stored st) k = snap_get_predicate_by_hash st k"
  using pred_msg.get_put[OF values_fit_get(3)[OF assms], of k, where rest = "[]"]
  by (auto simp: bs_get_predicate_def stored_def snap_get_predicate_by_hash_def split: option.split)

lemma stored_put:
  "stored (tx_db (put_entity e tx)) = bs_put_entity e (stored (tx_db tx))"
  "stored (tx_db (save_extended_index x tx)) = bs_save_extended_index x (stored (tx_db tx))"
  by (simp_all add: stored_def put_entity_def bs_put_entity_def save_extended_index_def
      bs_save_extended_index_def map_values_put)

lemma stored_batch:
  "stored (flush_batch tx) = bs_write_batch (predbatch tx) (stored (tx_db tx))"
proof -
  have "map_values (pred_marshal []) (fold (\<lambda>(k, p). gm_put k p) b m) =
      fold (\<lambda>(k, p). gm_put k (pred_marshal [] p)) b (map_values (pred_marshal []) m)" for b m
    by (induction b arbitrary: m) (auto simp: map_values_put)
  then show ?thesis by (simp add: stored_def flush_batch_def bs_write_batch_def)
qed

text \<open>
  C10: the byte values the database keeps implement the decoded values the rest of the development works
  on: reading an entity, an extended index or a predicate from the stored bytes gives what the decoded
  store gives, missing keys included, and putting an entity, saving an extended index and writing the
  batch of predicates change the stored bytes as they change the decoded store. The lengths of the
  strings, lists and maps in the store must be below 2^32, which the prefixes can hold.
\<close>
theorem stored_values_refine:
  assumes "values_fit (tx_db tx)"
  shows "bs_get_entity (stored (tx_db tx)) k = tx_get_entity_by_hash tx k \<and>
    bs_get_extended_index (stored (tx_db tx)) k = tx_get_extended_index_by_hash tx k \<and>
    bs_get_predicate (stored (tx_db tx)) k = snap_get_predicate_by_hash (tx_db tx) k \<and>
    stored (tx_db (put_entity e tx)) = bs_put_entity e (stored (tx_db tx)) \<and>
    stored (tx_db (save_extended_index x tx)) = bs_save_extended_index x (stored (tx_db tx)) \<and>
    stored (flush_batch tx) = bs_write_batch (predbatch tx) (stored (tx_db tx))"
  using stored_get_entity[OF assms] stored_get_ext[OF assms] stored_get_pred[OF assms]
    stored_put stored_batch by blast

definition two_node_store :: store where
  "two_node_store = empty_store\<lparr>graphDB :=
     [(Key CHR ''a'' nul nul nul nul nul nul nul,
       \<lparr>PK = Key CHR ''a'' nul nul nul nul nul nul nul, InEdges = [],
        OutEdges = [(''pppppppp'', [Key CHR ''b'' nul nul nul nul nul nul nul])]\<rparr>)]\<rparr>"

theorem stored_values_refine_witness:
  "bs_get_entity (stored two_node_store) (Key CHR ''a'' nul nul nul nul nul nul nul) =
     tx_get_entity_by_hash (open_transaction two_node_store) (Key CHR ''a'' nul nul nul nul nul nul nul) \<and>
   gm_get (graphDB two_node_store) (Key CHR ''a'' nul nul nul nul nul nul nul) \<noteq> None"
proof -
  have "values_fit (tx_db (open_transaction two_node_store))"
    by (simp add: open_transaction_def two_node_store_def empty_store_def values_fit_def
        entity_fits_def edges_fit_def fits_def)
  from stored_values_refine[OF this] show ?thesis
    by (simp add: open_transaction_def two_node_store_def)
qed

text \<open>
  C38: \<open>Msgsize\<close> is an upper bound of the encoded size, for every generated type and every value, also
  where a length does not fit its prefix.
\<close>
theorem msgsize_upper_bound:
  "length (key_marshal [] k) \<le> key_msgsize \<and> length (entity_marshal [] e) \<le> entity_msgsize e \<and>
   length (ext_marshal [] x) \<le> ext_msgsize x \<and> length (pred_marshal [] p) \<le> pred_msgsize p \<and>
   length (pred_index_marshal [] pi) \<le> pred_index_msgsize pi \<and>
   length (relship_marshal [] ri) \<le> relship_msgsize ri \<and>
   length (namespace_marshal [] ni) \<le> namespace_msgsize ni \<and>
   length (uri_marshal [] u) \<le> uri_msgsize u \<and> length (triple_marshal [] t) \<le> triple_msgsize t \<and>
   length (result_map_marshal [] m) \<le> result_map_msgsize m \<and>
   length (result_marshal [] r) \<le> result_msgsize r"
  using length_key_marshal[of k] length_entity_marshal[of e] length_ext_marshal[of x]
    length_pred_marshal[of p] length_pred_index_marshal[of pi] length_relship_marshal[of ri]
    length_relship_marshal[of ni] length_uri_marshal[of u] length_triple_marshal[of t]
    length_result_map_marshal[of m] length_result_marshal[of r]
  by (simp add: namespace_is_relship key_msgsize_def)

text \<open>
  a key that was cut off is decoded from a byte slice without an error: the missing bytes keep the
  value they had, zero for a new entity. The streaming decoder reports the end of its source instead.
\<close>
theorem truncated_key_accepted:
  assumes "n < 8"
  shows "key_unmarshal empty_key (take (2 + n) (key_marshal [] k)) =
      Inr (key_of_bytes (take n (key_bytes k) @ replicate (8 - n) nul), []) \<and>
    key_decode empty_key (take (2 + n) (key_marshal [] k)) = Inl StreamError"
proof -
  have "key_marshal [] k = byte_of_u8 mbin8 # byte_of_u8 8 # key_bytes k"
    by (simp add: key_marshal_def append_bytes_def put_u8_def)
  then have cut: "take (2 + n) (key_marshal [] k) = byte_of_u8 mbin8 # byte_of_u8 8 # take n (key_bytes k)"
    by simp
  have "key_bytes empty_key = replicate 8 nul"
    by (simp add: empty_key_def numeral_eq_Suc)
  then have zeros: "drop n (key_bytes empty_key) = replicate (8 - n) nul"
    by simp
  show ?thesis
    unfolding cut using assms zeros
    by (simp add: key_unmarshal_def key_decode_def read_exact_bytes_def rd_exact_bytes_def
        get_u8_def copy_into_def next_bytes_def Let_def)
qed

text \<open>A key of two bytes out of eight.\<close>

theorem truncated_key_accepted_witness:
  "key_unmarshal empty_key (take 4 (key_marshal [] (Key CHR ''a'' CHR ''b'' CHR ''c'' CHR ''d''
      CHR ''e'' CHR ''f'' CHR ''g'' CHR ''h''))) =
    Inr (Key CHR ''a'' CHR ''b'' nul nul nul nul nul nul, [])"
  using truncated_key_accepted[of 2 "Key CHR ''a'' CHR ''b'' CHR ''c'' CHR ''d''
      CHR ''e'' CHR ''f'' CHR ''g'' CHR ''h''"]
  by (simp add: numeral_eq_Suc)

section \<open>The index files\<close>

text \<open>
  The maps of the database object that live in files: \<open>predIndex\<close>, \<open>relationships\<close> and \<open>namespaces\<close>.
  \<open>saveIndexes\<close> creates each file and encodes a map into it, and stops at the first error. A file is
  \<open>None\<close> when it could not be created (or is not there), otherwise its content.
\<close>

record index_maps =
  predIndex :: "(uri, predicate_entity option) gomap"
  relationships :: "(uri, uri) gomap"
  namespaces :: "(string, string) gomap"

definition no_index :: index_maps where
  "no_index = \<lparr>predIndex = [], relationships = [], namespaces = []\<rparr>"

type_synonym sink = "bytes \<Rightarrow> bytes \<Rightarrow> nat option"

definition save_file :: "sink option \<Rightarrow> encoder \<Rightarrow> bool \<times> bytes option" where
  "save_file f enc =
     (case f of
        None \<Rightarrow> (False, None)
      | Some sink \<Rightarrow>
          (case encode enc sink of Inl w \<Rightarrow> (False, Some (w_out w)) | Inr w \<Rightarrow> (True, Some (w_out w))))"

definition pred_index_of :: "index_maps \<Rightarrow> pred_index" where
  "pred_index_of db = fold (\<lambda>(u, pe). gm_put (uri_string u) pe) (predIndex db) []"

definition relship_index_of :: "index_maps \<Rightarrow> relship_index" where
  "relship_index_of db = fold (\<lambda>(u, u2). gm_put (uri_string u) (uri_string u2)) (relationships db) []"

definition save_indexes ::
    "index_maps \<Rightarrow> sink option \<Rightarrow> sink option \<Rightarrow> sink option \<Rightarrow>
     bool \<times> bytes option \<times> bytes option \<times> bytes option" where
  "save_indexes db f1 f2 f3 =
     (let (ok1, c1) = save_file f1 (pred_index_encode (pred_index_of db)) in
      if \<not> ok1 then (False, c1, None, None)
      else let (ok2, c2) = save_file f2 (relship_encode (relship_index_of db)) in
        if \<not> ok2 then (False, c1, c2, None)
        else let (ok3, c3) = save_file f3 (namespace_encode (namespaces db)) in
          (ok3, c1, c2, c3))"

text \<open>The part of \<open>newDB\<close> that loads the files, into maps that are empty before.\<close>

definition load_file :: "(bytes \<Rightarrow> merr + 'm \<times> bytes) \<Rightarrow> 'm \<Rightarrow> bytes option \<Rightarrow> merr + 'm" where
  "load_file dec none f =
     (case f of None \<Rightarrow> Inr none | Some b \<Rightarrow> bind_res (dec b) (\<lambda>(m, _). Inr m))"

definition load_indexes ::
    "(bytes \<Rightarrow> bool) \<Rightarrow> bytes option \<Rightarrow> bytes option \<Rightarrow> bytes option \<Rightarrow> merr + index_maps" where
  "load_indexes buffered f1 f2 f3 =
     bind_res (load_file (pred_index_decode buffered) [] f1) (\<lambda>pi.
     bind_res (load_file relship_decode [] f2) (\<lambda>ri.
     bind_res (load_file namespace_decode [] f3) (\<lambda>ni.
       Inr \<lparr>predIndex = fold (\<lambda>(s, pe). gm_put (parse_uri s) pe) pi [],
            relationships = fold (\<lambda>(s, s2). gm_put (parse_uri s) (parse_uri s2)) ri [],
            namespaces = fold (\<lambda>(k, v). gm_put k v) ni []\<rparr>)))"

text \<open>Filling an empty map from entries whose keys stay distinct keeps the entries in their order.\<close>

lemma gm_put_new: "k \<notin> fst ` set m \<Longrightarrow> gm_put k v m = m @ [(k, v)]"
  by (induction m) auto

lemma fold_put_new:
  assumes "distinct (map f (map fst m0) @ map fst m1)"
  shows "fold (\<lambda>(k, v). gm_put (f k) (g v)) m0 m1 = m1 @ map (\<lambda>(k, v). (f k, g v)) m0"
  using assms
proof (induction m0 arbitrary: m1)
  case (Cons kv m0)
  obtain k v where kv: "kv = (k, v)" by (cases kv)
  have new: "gm_put (f k) (g v) m1 = m1 @ [(f k, g v)]"
    using Cons.prems by (intro gm_put_new) (auto simp: kv)
  have "distinct (map f (map fst m0) @ map fst (m1 @ [(f k, g v)]))"
    using Cons.prems by (auto simp: kv)
  from Cons.IH[OF this] show ?case by (simp add: kv new)
qed simp

lemma fold_put_fresh:
  "distinct (map (f \<circ> fst) m) \<Longrightarrow> fold (\<lambda>(k, v). gm_put (f k) (g v)) m [] = map (\<lambda>(k, v). (f k, g v)) m"
  using fold_put_new[of f m "[]"] by (simp add: comp_def)

definition steady :: "uri \<Rightarrow> bool" where
  "steady u \<longleftrightarrow> parse_uri (uri_string u) = u \<and> fits (uri_string u)"

definition index_maps_ok :: "index_maps \<Rightarrow> bool" where
  "index_maps_ok db \<longleftrightarrow>
     gm_wf (predIndex db) \<and> fits (predIndex db) \<and>
     list_all (\<lambda>(u, pe). steady u \<and> pred_entry_fits pe) (predIndex db) \<and>
     gm_wf (relationships db) \<and> fits (relationships db) \<and>
     list_all (\<lambda>(u, u2). steady u \<and> steady u2) (relationships db) \<and>
     index_fits fits (namespaces db)"

lemma steady_distinct:
  assumes "list_all steady us" "distinct us"
  shows "distinct (map uri_string us)"
proof -
  have "inj_on uri_string (set us)"
    using assms(1) by (intro inj_on_inverseI[where g = parse_uri]) (auto simp: list_all_iff steady_def)
  with assms(2) show ?thesis by (simp add: distinct_map)
qed

lemma index_tables:
  assumes "index_maps_ok db"
  shows "pred_index_of db = map (\<lambda>(u, pe). (uri_string u, pe)) (predIndex db)"
    and "relship_index_of db = map (\<lambda>(u, u2). (uri_string u, uri_string u2)) (relationships db)"
proof -
  have "distinct (map (uri_string \<circ> fst) (predIndex db))"
    using assms steady_distinct[of "map fst (predIndex db)"]
    by (simp add: index_maps_ok_def list_all_iff case_prod_unfold)
  from fold_put_fresh[OF this, where g = "\<lambda>x. x"]
  show "pred_index_of db = map (\<lambda>(u, pe). (uri_string u, pe)) (predIndex db)"
    by (simp add: pred_index_of_def)
  have "distinct (map (uri_string \<circ> fst) (relationships db))"
    using assms steady_distinct[of "map fst (relationships db)"]
    by (simp add: index_maps_ok_def list_all_iff case_prod_unfold)
  from fold_put_fresh[OF this, where g = uri_string]
  show "relship_index_of db = map (\<lambda>(u, u2). (uri_string u, uri_string u2)) (relationships db)"
    by (simp add: relship_index_of_def)
qed

lemma index_tables_fit:
  assumes "index_maps_ok db"
  shows "index_fits pred_entry_fits (pred_index_of db)" "index_fits fits (relship_index_of db)"
proof -
  have d: "distinct (map uri_string (map fst (predIndex db)))"
    "distinct (map uri_string (map fst (relationships db)))"
    using assms by (intro steady_distinct; simp add: index_maps_ok_def list_all_iff case_prod_unfold)+
  show "index_fits pred_entry_fits (pred_index_of db)" "index_fits fits (relship_index_of db)"
    using assms d
    by (auto simp: index_tables[OF assms] index_fits_def index_maps_ok_def fits_def list_all_iff
        case_prod_unfold comp_def steady_def)
qed

lemma save_file_success:
  "writes enc bs \<Longrightarrow> save_file f enc = (True, c) \<Longrightarrow> c = Some bs"
  using encode_writes[of enc bs "the f"]
  by (auto simp: save_file_def split: option.splits sum.splits)

lemma save_file_ok:
  "writes enc bs \<Longrightarrow> fst (save_file (Some (\<lambda>_ _. None)) enc)"
  using encode_writes[of enc bs "\<lambda>_ _. None"]
  by (auto simp: save_file_def split: sum.splits)

lemma map_back:
  assumes "list_all (\<lambda>(k, v). f' (f k) = k \<and> g' (g v) = v) m"
  shows "map (\<lambda>(k, v). (f' k, g' v)) (map (\<lambda>(k, v). (f k, g v)) m) = m"
  using assms by (induction m) auto

lemma refill:
  assumes "list_all (\<lambda>(k, v). f' (f k) = k \<and> g' (g v) = v) m" and "gm_wf m"
  shows "fold (\<lambda>(k, v). gm_put (f' k) (g' v)) (map (\<lambda>(k, v). (f k, g v)) m) [] = m"
proof -
  have "map (f' \<circ> fst) (map (\<lambda>(k, v). (f k, g v)) m) = map fst m"
    using assms(1) by (induction m) auto
  with assms(2) have "distinct (map (f' \<circ> fst) (map (\<lambda>(k, v). (f k, g v)) m))"
    by metis
  from fold_put_fresh[OF this, where g = g'] show ?thesis
    unfolding map_back[of f' f g' g m, OF assms(1)] .
qed

lemma load_saved_tables:
  assumes "index_maps_ok db"
  shows "load_indexes buffered (Some (pred_index_marshal [] (pred_index_of db)))
      (Some (relship_marshal [] (relship_index_of db))) (Some (relship_marshal [] (namespaces db))) = Inr db"
proof -
  have ns: "index_fits fits (namespaces db)" using assms by (simp add: index_maps_ok_def)
  have one: "fold (\<lambda>(s, pe). gm_put (parse_uri s) pe) (pred_index_of db) [] = predIndex db"
    unfolding index_tables[OF assms] using assms
    by (intro refill[where g = "\<lambda>x. x" and g' = "\<lambda>x. x"])
      (auto simp: index_maps_ok_def list_all_iff steady_def)
  have two: "fold (\<lambda>(s, s2). gm_put (parse_uri s) (parse_uri s2)) (relship_index_of db) [] = relationships db"
    unfolding index_tables[OF assms] using assms
    by (intro refill) (auto simp: index_maps_ok_def list_all_iff steady_def)
  have three: "fold (\<lambda>(k, v). gm_put k v) (namespaces db) [] = namespaces db"
    using refill[of "\<lambda>x. x" "\<lambda>x. x" "\<lambda>x. x" "\<lambda>x. x" "namespaces db"] ns
    by (simp add: index_fits_def list_all_iff)
  show ?thesis
    using pred_index_decode_encode[OF index_tables_fit(1)[OF assms], of buffered "[]"]
      relship_decode_encode[OF index_tables_fit(2)[OF assms], of "[]"]
      relship_decode_encode[OF ns, of "[]"]
    by (simp add: load_indexes_def load_file_def namespace_is_relship one two three)
qed

text \<open>
  C19: what \<open>saveIndexes\<close> writes, \<open>newDB\<close> loads: whatever the files do, when \<open>saveIndexes\<close> reports no error
  then the predicate index, the relationships and the namespaces come back from them unchanged, for
  URIs that survive printing and parsing; and it reports none when the files take every write.
\<close>
theorem index_files_round_trip:
  assumes "index_maps_ok db"
  shows "(save_indexes db f1 f2 f3 = (True, c1, c2, c3) \<longrightarrow> load_indexes buffered c1 c2 c3 = Inr db) \<and>
    fst (save_indexes db (Some (\<lambda>_ _. None)) (Some (\<lambda>_ _. None)) (Some (\<lambda>_ _. None)))"
proof -
  have ns: "index_fits fits (namespaces db)" using assms by (simp add: index_maps_ok_def)
  note w = writes_pred_index[OF index_tables_fit(1)[OF assms]]
    writes_relship[OF index_tables_fit(2)[OF assms]] writes_relship[OF ns]
  have "c1 = Some (pred_index_marshal [] (pred_index_of db)) \<and>
      c2 = Some (relship_marshal [] (relship_index_of db)) \<and>
      c3 = Some (relship_marshal [] (namespaces db))"
    if "save_indexes db f1 f2 f3 = (True, c1, c2, c3)"
    using that w[THEN save_file_success]
    by (auto simp: save_indexes_def namespace_is_relship split: prod.splits if_splits)
  then show ?thesis
    using load_saved_tables[OF assms] w[THEN save_file_ok]
    by (auto simp: save_indexes_def namespace_is_relship split: prod.splits)
qed

definition sample_index :: index_maps where
  "sample_index = \<lparr>predIndex = [(mkURI ''b'' ''p'', None)],
     relationships = [(mkURI ''b'' ''p'', mkURI ''b'' ''q''), (mkURI ''b'' ''q'', mkURI ''b'' ''p'')],
     namespaces = [(''b'', ''http://b'')]\<rparr>"

lemma sample_index_ok: "index_maps_ok sample_index"
proof -
  have "parse_uri (uri_string u) = u" if "u \<in> {mkURI ''b'' ''p'', mkURI ''b'' ''q''}" for u
    using that by (intro parse_uri_plain_name) (auto simp: plain_name_def)
  from this[of "mkURI ''b'' ''p''"] this[of "mkURI ''b'' ''q''"]
  have "parse_uri ''b#p'' = mkURI ''b'' ''p''" "parse_uri ''b#q'' = mkURI ''b'' ''q''"
    by (simp_all add: uri_string_def)
  then show ?thesis
    by (simp add: index_maps_ok_def sample_index_def steady_def fits_def pred_entry_fits_def
        index_fits_def uri_string_def)
qed

theorem index_files_round_trip_witness:
  "\<exists>c1 c2 c3. save_indexes sample_index (Some (\<lambda>_ _. None)) (Some (\<lambda>_ _. None)) (Some (\<lambda>_ _. None)) =
      (True, c1, c2, c3) \<and> load_indexes (\<lambda>_. True) c1 c2 c3 = Inr sample_index"
proof -
  obtain ok c1 c2 c3 where w: "save_indexes sample_index (Some (\<lambda>_ _. None)) (Some (\<lambda>_ _. None))
      (Some (\<lambda>_ _. None)) = (ok, c1, c2, c3)"
    by (metis prod_cases4)
  note rt = index_files_round_trip[OF sample_index_ok, of "Some (\<lambda>_ _. None)" "Some (\<lambda>_ _. None)"
      "Some (\<lambda>_ _. None)" c1 c2 c3 "\<lambda>_. True"]
  have "ok = True" using rt w by simp
  then show ?thesis using rt w by auto
qed

text \<open>
  C37: a query result is read back with its rows and its count, by the slice decoder and by the streaming
  one, from the bytes its marshaller appends and its encoder writes. The elapsed time and the list of
  errors are not in the encoding: they keep the values of the result decoded into.
\<close>
theorem query_result_round_trip:
  assumes "result_fits r"
  shows "result_unmarshal z (result_marshal [] r @ rest) =
      Inr (r\<lparr>Elapsed := Elapsed z, Errors := Errors z\<rparr>, rest) \<and>
    result_decode buffered z (result_marshal [] r @ rest) =
      Inr (r\<lparr>Elapsed := Elapsed z, Errors := Errors z\<rparr>, rest) \<and>
    (case encode (result_encode r) sink of
       Inr w \<Rightarrow> w_out w = result_marshal [] r
     | Inl w \<Rightarrow> prefix (w_out w) (result_marshal [] r) \<and> sink \<noteq> (\<lambda>_ _. None))"
  using result_round_trip[OF assms] result_decode_encode[OF assms] encode_writes[OF writes_result[OF assms], of sink]
  by (auto split: sum.splits)

definition sample_result :: query_result where
  "sample_result = \<lparr>Rows = [[(''x'', mkURI ''b'' ''r'')], []], Count = - 2, Elapsed = 7, Errors = [''e'']\<rparr>"

theorem query_result_round_trip_witness:
  "result_unmarshal \<lparr>Rows = [], Count = 0, Elapsed = 0, Errors = []\<rparr> (result_marshal [] sample_result) =
     Inr (\<lparr>Rows = [[(''x'', mkURI ''b'' ''r'')], []], Count = - 2, Elapsed = 0, Errors = []\<rparr>, [])"
proof -
  have "result_fits sample_result"
    by (simp add: result_fits_def sample_result_def fits_def index_fits_def uri_fits_def)
  from query_result_round_trip[OF this, of "\<lparr>Rows = [], Count = 0, Elapsed = 0, Errors = []\<rparr>" "[]"]
  show ?thesis by (simp add: sample_result_def)
qed

end
