(* ===== verification/LexTables.thy ===== *)
theory LexTables
  imports GoStrings
begin

text \<open>
  The tables of the query lexer (lang/lexer/transitiontable.go and acttab.go). A row of the transition
  table is the switch of one state: ranges of runes with the next state, tried in their order, and the
  state of the default, -1 for \<open>NoState\<close>. A row of the action table says which token type a state
  accepts and what it ignores.
\<close>

datatype trans_row = Row "(int \<times> int \<times> int) list" int

fun switch_rune :: "(int \<times> int \<times> int) list \<Rightarrow> int \<Rightarrow> int \<Rightarrow> int" where
  "switch_rune [] d r = d"
| "switch_rune ((lo, hi, s) # cs) d r = (if lo \<le> r \<and> r \<le> hi then s else switch_rune cs d r)"

fun row_next :: "trans_row \<Rightarrow> int \<Rightarrow> int" where
  "row_next (Row cs d) r = switch_rune cs d r"

definition trans_rows_0 :: "trans_row list" where
  "trans_rows_0 =
    [Row [(9, 9, 1), (10, 10, 1), (13, 13, 1), (32, 32, 1), (34, 34, 2), (40, 40, 3), (41, 41, 4),
         (42, 42, 5), (43, 43, 6), (45, 45, 7), (46, 46, 8), (47, 47, 9), (48, 57, 10),
         (59, 59, 11), (60, 60, 12), (63, 63, 13), (65, 66, 14), (67, 67, 15), (68, 69, 14),
         (70, 70, 16), (71, 72, 14), (73, 73, 17), (74, 82, 14), (83, 83, 18), (84, 84, 14),
         (85, 85, 19), (86, 86, 14), (87, 87, 20), (88, 90, 14), (95, 95, 7), (97, 97, 21),
         (98, 122, 22), (123, 123, 23), (124, 124, 24), (125, 125, 25)] (- 1),
     Row [] (- 1),
     Row [(34, 34, 26)] (2),
     Row [] (- 1),
     Row [] (- 1),
     Row [] (- 1),
     Row [] (- 1),
     Row [(45, 45, 7), (48, 57, 10), (58, 58, 27), (65, 90, 14), (95, 95, 7),
         (97, 122, 22)] (- 1),
     Row [] (- 1),
     Row [] (- 1)]"

definition trans_rows_10 :: "trans_row list" where
  "trans_rows_10 =
    [Row [(45, 45, 7), (48, 57, 10), (58, 58, 27), (65, 90, 14), (95, 95, 7),
         (97, 122, 22)] (- 1),
     Row [] (- 1),
     Row [(62, 62, 28)] (12),
     Row [(45, 45, 29), (48, 57, 30), (65, 90, 31), (95, 95, 29), (97, 122, 32)] (- 1),
     Row [(45, 45, 7), (48, 57, 10), (58, 58, 27), (65, 90, 14), (95, 95, 7),
         (97, 122, 22)] (- 1),
     Row [(45, 45, 7), (48, 57, 10), (58, 58, 27), (65, 78, 14), (79, 79, 33), (80, 90, 14),
         (95, 95, 7), (97, 122, 22)] (- 1),
     Row [(45, 45, 7), (48, 57, 10), (58, 58, 27), (65, 81, 14), (82, 82, 34), (83, 90, 14),
         (95, 95, 7), (97, 122, 22)] (- 1),
     Row [(45, 45, 7), (48, 57, 10), (58, 58, 27), (65, 77, 14), (78, 78, 35), (79, 90, 14),
         (95, 95, 7), (97, 122, 22)] (- 1)]"

definition trans_rows_18 :: "trans_row list" where
  "trans_rows_18 =
    [Row [(45, 45, 7), (48, 57, 10), (58, 58, 27), (65, 68, 14), (69, 69, 36), (70, 90, 14),
         (95, 95, 7), (97, 122, 22)] (- 1),
     Row [(45, 45, 7), (48, 57, 10), (58, 58, 27), (65, 77, 14), (78, 78, 37), (79, 90, 14),
         (95, 95, 7), (97, 122, 22)] (- 1),
     Row [(45, 45, 7), (48, 57, 10), (58, 58, 27), (65, 71, 14), (72, 72, 38), (73, 90, 14),
         (95, 95, 7), (97, 122, 22)] (- 1),
     Row [(45, 45, 7), (48, 57, 10), (58, 58, 27), (65, 90, 14), (95, 95, 7),
         (97, 122, 22)] (- 1),
     Row [(45, 45, 7), (48, 57, 10), (58, 58, 27), (65, 90, 14), (95, 95, 7),
         (97, 122, 22)] (- 1),
     Row [] (- 1),
     Row [] (- 1),
     Row [] (- 1),
     Row [] (- 1),
     Row [(45, 45, 39), (48, 57, 40), (65, 90, 41), (95, 95, 39), (97, 122, 42)] (- 1),
     Row [] (- 1)]"

definition trans_rows_29 :: "trans_row list" where
  "trans_rows_29 =
    [Row [(45, 45, 29), (48, 57, 30), (65, 90, 31), (95, 95, 29), (97, 122, 32)] (- 1),
     Row [(45, 45, 29), (48, 57, 30), (65, 90, 31), (95, 95, 29), (97, 122, 32)] (- 1),
     Row [(45, 45, 29), (48, 57, 30), (65, 90, 31), (95, 95, 29), (97, 122, 32)] (- 1),
     Row [(45, 45, 29), (48, 57, 30), (65, 90, 31), (95, 95, 29), (97, 122, 32)] (- 1),
     Row [(45, 45, 7), (48, 57, 10), (58, 58, 27), (65, 84, 14), (85, 85, 43), (86, 90, 14),
         (95, 95, 7), (97, 122, 22)] (- 1),
     Row [(45, 45, 7), (48, 57, 10), (58, 58, 27), (65, 78, 14), (79, 79, 44), (80, 90, 14),
         (95, 95, 7), (97, 122, 22)] (- 1),
     Row [(45, 45, 7), (48, 57, 10), (58, 58, 27), (65, 82, 14), (83, 83, 45), (84, 90, 14),
         (95, 95, 7), (97, 122, 22)] (- 1)]"

definition trans_rows_36 :: "trans_row list" where
  "trans_rows_36 =
    [Row [(45, 45, 7), (48, 57, 10), (58, 58, 27), (65, 75, 14), (76, 76, 46), (77, 90, 14),
         (95, 95, 7), (97, 122, 22)] (- 1),
     Row [(45, 45, 7), (48, 57, 10), (58, 58, 27), (65, 72, 14), (73, 73, 47), (74, 90, 14),
         (95, 95, 7), (97, 122, 22)] (- 1),
     Row [(45, 45, 7), (48, 57, 10), (58, 58, 27), (65, 68, 14), (69, 69, 48), (70, 90, 14),
         (95, 95, 7), (97, 122, 22)] (- 1),
     Row [(45, 45, 39), (48, 57, 40), (65, 90, 41), (95, 95, 39), (97, 122, 42)] (- 1),
     Row [(45, 45, 39), (48, 57, 40), (65, 90, 41), (95, 95, 39), (97, 122, 42)] (- 1),
     Row [(45, 45, 39), (48, 57, 40), (65, 90, 41), (95, 95, 39), (97, 122, 42)] (- 1),
     Row [(45, 45, 39), (48, 57, 40), (65, 90, 41), (95, 95, 39), (97, 122, 42)] (- 1)]"

definition trans_rows_43 :: "trans_row list" where
  "trans_rows_43 =
    [Row [(45, 45, 7), (48, 57, 10), (58, 58, 27), (65, 77, 14), (78, 78, 49), (79, 90, 14),
         (95, 95, 7), (97, 122, 22)] (- 1),
     Row [(45, 45, 7), (48, 57, 10), (58, 58, 27), (65, 76, 14), (77, 77, 50), (78, 90, 14),
         (95, 95, 7), (97, 122, 22)] (- 1),
     Row [(45, 45, 7), (48, 57, 10), (58, 58, 27), (65, 68, 14), (69, 69, 51), (70, 90, 14),
         (95, 95, 7), (97, 122, 22)] (- 1),
     Row [(45, 45, 7), (48, 57, 10), (58, 58, 27), (65, 68, 14), (69, 69, 52), (70, 90, 14),
         (95, 95, 7), (97, 122, 22)] (- 1),
     Row [(45, 45, 7), (48, 57, 10), (58, 58, 27), (65, 78, 14), (79, 79, 53), (80, 90, 14),
         (95, 95, 7), (97, 122, 22)] (- 1),
     Row [(45, 45, 7), (48, 57, 10), (58, 58, 27), (65, 81, 14), (82, 82, 54), (83, 90, 14),
         (95, 95, 7), (97, 122, 22)] (- 1)]"

definition trans_rows_49 :: "trans_row list" where
  "trans_rows_49 =
    [Row [(45, 45, 7), (48, 57, 10), (58, 58, 27), (65, 83, 14), (84, 84, 55), (85, 90, 14),
         (95, 95, 7), (97, 122, 22)] (- 1),
     Row [(45, 45, 7), (48, 57, 10), (58, 58, 27), (65, 90, 14), (95, 95, 7),
         (97, 122, 22)] (- 1),
     Row [(45, 45, 7), (48, 57, 10), (58, 58, 27), (65, 81, 14), (82, 82, 56), (83, 90, 14),
         (95, 95, 7), (97, 122, 22)] (- 1),
     Row [(45, 45, 7), (48, 57, 10), (58, 58, 27), (65, 66, 14), (67, 67, 57), (68, 90, 14),
         (95, 95, 7), (97, 122, 22)] (- 1),
     Row [(45, 45, 7), (48, 57, 10), (58, 58, 27), (65, 77, 14), (78, 78, 58), (79, 90, 14),
         (95, 95, 7), (97, 122, 22)] (- 1),
     Row [(45, 45, 7), (48, 57, 10), (58, 58, 27), (65, 68, 14), (69, 69, 59), (70, 90, 14),
         (95, 95, 7), (97, 122, 22)] (- 1),
     Row [(45, 45, 7), (48, 57, 10), (58, 58, 27), (65, 90, 14), (95, 95, 7),
         (97, 122, 22)] (- 1)]"

definition trans_rows_56 :: "trans_row list" where
  "trans_rows_56 =
    [Row [(45, 45, 7), (48, 57, 10), (58, 58, 27), (65, 83, 14), (84, 84, 60), (85, 90, 14),
         (95, 95, 7), (97, 122, 22)] (- 1),
     Row [(45, 45, 7), (48, 57, 10), (58, 58, 27), (65, 83, 14), (84, 84, 61), (85, 90, 14),
         (95, 95, 7), (97, 122, 22)] (- 1),
     Row [(45, 45, 7), (48, 57, 10), (58, 58, 27), (65, 90, 14), (95, 95, 7),
         (97, 122, 22)] (- 1),
     Row [(45, 45, 7), (48, 57, 10), (58, 58, 27), (65, 90, 14), (95, 95, 7),
         (97, 122, 22)] (- 1),
     Row [(45, 45, 7), (48, 57, 10), (58, 58, 27), (65, 90, 14), (95, 95, 7),
         (97, 122, 22)] (- 1),
     Row [(45, 45, 7), (48, 57, 10), (58, 58, 27), (65, 90, 14), (95, 95, 7),
         (97, 122, 22)] (- 1)]"

definition trans_rows :: "trans_row list" where
  "trans_rows = trans_rows_0 @ trans_rows_10 @ trans_rows_18 @ trans_rows_29 @ trans_rows_36 @ trans_rows_43 @ trans_rows_49 @ trans_rows_56"

definition trans_tab :: "nat \<Rightarrow> int \<Rightarrow> int" where
  "trans_tab s r = row_next (trans_rows ! s) r"

definition action_rows_0 :: "(int \<times> string) list" where
  "action_rows_0 = [(0, []), (- 1, ''!whitespace''), (0, []), (20, []), (21, []), (4, []),
    (23, []), (10, []), (8, []), (18, []), (10, []), (2, []), (0, []), (22, []), (10, []),
    (10, []), (10, []), (10, []), (10, []), (10, []), (10, []), (19, []), (10, []), (6, []),
    (17, []), (7, []), (15, []), (0, []), (16, []), (11, []), (11, []), (11, []), (11, []),
    (10, []), (10, []), (10, []), (10, [])]"

definition action_rows_37 :: "(int \<times> string) list" where
  "action_rows_37 = [(10, []), (10, []), (14, []), (14, []), (14, []), (14, []), (10, []),
    (10, []), (10, []), (10, []), (10, []), (10, []), (10, []), (12, []), (10, []), (10, []),
    (10, []), (10, []), (9, []), (10, []), (10, []), (25, []), (13, []), (5, []), (3, [])]"

definition act_tab :: "(int \<times> string) list" where
  "act_tab = action_rows_0 @ action_rows_37"

end
