(* ===== verification/Lexer.thy ===== *)
theory Lexer
  imports LexTables
begin

text \<open>
  Tokens (lang/token/token.go) and the lexer of the query language (lang/lexer/lexer.go): decoding of
  UTF-8 as in Go's \<open>utf8.DecodeRune\<close>, and \<open>Scan\<close>, which runs the automaton of \<open>LexTables\<close>.
\<close>

section \<open>Tokens\<close>

record pos =
  Offset :: nat
  Line :: nat
  Column :: nat

record token =
  TType :: nat
  Lit :: bytes
  TPos :: pos

abbreviation (input) INVALID :: nat where "INVALID \<equiv> 0"
abbreviation (input) EOF :: nat where "EOF \<equiv> 1"

definition type_map :: "string list" where
  "type_map =
    [''INVALID'', ''$'', '';'', ''SELECT'', ''*'', ''COUNT'', ''string'', ''var'', ''FROM'', ''WHERE'',
     ''{'', ''}'', ''.'', ''uri'', ''quotedstring'', ''url'', ''|'', ''/'', ''a'', ''('', '')'', ''?'',
     ''+'', ''empty'', ''UNION'']"

definition token_id :: "nat \<Rightarrow> string" where
  "token_id tok = (if tok < length type_map then type_map ! tok else ''unknown'')"

text \<open>The map from names to types lists every name with its position.\<close>

definition token_type :: "string \<Rightarrow> nat" where
  "token_type tok = (case find_index (\<lambda>s. s = tok) type_map of Some typ \<Rightarrow> typ | None \<Rightarrow> INVALID)"

section \<open>UTF-8\<close>

definition RuneError :: int where
  "RuneError = 0xFFFD"

definition cont_byte :: "int \<Rightarrow> bool" where
  "cont_byte b = (0x80 \<le> b \<and> b \<le> 0xBF)"

text \<open>Which second byte a first byte of a longer sequence allows: shortest forms only, no surrogates.\<close>

definition second_ok :: "int \<Rightarrow> int \<Rightarrow> bool" where
  "second_ok b0 b1 =
     (if b0 = 0xE0 then 0xA0 \<le> b1 \<and> b1 \<le> 0xBF
      else if b0 = 0xED then 0x80 \<le> b1 \<and> b1 \<le> 0x9F
      else if b0 = 0xF0 then 0x90 \<le> b1 \<and> b1 \<le> 0xBF
      else if b0 = 0xF4 then 0x80 \<le> b1 \<and> b1 \<le> 0x8F
      else cont_byte b1)"

definition decode_rune :: "bytes \<Rightarrow> int \<times> nat" where
  "decode_rune p =
     (case map of_char p of
        [] \<Rightarrow> (RuneError, 0)
      | b0 # r1 \<Rightarrow>
          if b0 < 0x80 then (b0, 1)
          else (case r1 of
             [] \<Rightarrow> (RuneError, 1)
           | b1 # r2 \<Rightarrow>
               if 0xC2 \<le> b0 \<and> b0 \<le> 0xDF then
                 (if second_ok b0 b1 then ((b0 - 0xC0) * 64 + (b1 - 0x80), 2) else (RuneError, 1))
               else (case r2 of
                  [] \<Rightarrow> (RuneError, 1)
                | b2 # r3 \<Rightarrow>
                    if 0xE0 \<le> b0 \<and> b0 \<le> 0xEF then
                      (if second_ok b0 b1 \<and> cont_byte b2
                       then ((b0 - 0xE0) * 4096 + (b1 - 0x80) * 64 + (b2 - 0x80), 3)
                       else (RuneError, 1))
                    else (case r3 of
                       [] \<Rightarrow> (RuneError, 1)
                     | b3 # _ \<Rightarrow>
                         if 0xF0 \<le> b0 \<and> b0 \<le> 0xF4 \<and> second_ok b0 b1 \<and> cont_byte b2 \<and> cont_byte b3
                         then ((b0 - 0xF0) * 262144 + (b1 - 0x80) * 4096 + (b2 - 0x80) * 64 + (b3 - 0x80), 4)
                         else (RuneError, 1)))))"

section \<open>The lexer\<close>

record lexer =
  src :: bytes
  lpos :: nat
  lline :: nat
  lcolumn :: nat

definition new_lexer :: "bytes \<Rightarrow> lexer" where
  "new_lexer s = \<lparr>src = s, lpos = 0, lline = 1, lcolumn = 1\<rparr>"

definition reset_lexer :: "lexer \<Rightarrow> lexer" where
  "reset_lexer l = l\<lparr>lpos := 0\<rparr>"

text \<open>What \<open>Scan\<close> keeps of the token while it runs: its type, where it starts and where it ends.\<close>

record scan_state =
  sc_type :: nat
  sc_start :: nat
  sc_line :: nat
  sc_column :: nat
  sc_end :: nat

definition advance :: "int \<Rightarrow> lexer \<Rightarrow> lexer" where
  "advance r l =
     (if r = 10 then l\<lparr>lline := lline l + 1, lcolumn := 1\<rparr>
      else if r = 13 then l\<lparr>lcolumn := 1\<rparr>
      else if r = 9 then l\<lparr>lcolumn := lcolumn l + 4\<rparr>
      else l\<lparr>lcolumn := lcolumn l + 1\<rparr>)"

text \<open>
  The loop of \<open>Scan\<close>, in a state other than \<open>NoState\<close>. It ends when there is no next state, and at the
  end of the source there is none.
\<close>

lemma decode_rune_size:
  "p \<noteq> [] \<Longrightarrow> 0 < snd (decode_rune p) \<and> snd (decode_rune p) \<le> length p"
  by (cases p rule: list.exhaust)
    (auto simp: decode_rune_def split: list.splits if_splits)

lemma decode_rune_at:
  "(r, n) = decode_rune (drop i s) \<Longrightarrow> i < length s \<Longrightarrow> 0 < n \<and> i + n \<le> length s"
  using decode_rune_size[of "drop i s"] by (cases "decode_rune (drop i s)") auto

lemma advance_sel [simp]: "src (advance r l) = src l" "lpos (advance r l) = lpos l"
  by (simp_all add: advance_def)

function scan_loop :: "nat \<Rightarrow> lexer \<Rightarrow> scan_state \<Rightarrow> lexer \<times> scan_state" where
  "scan_loop state l sc =
     (if length (src l) \<le> lpos l then
        (l, if sc_type sc = INVALID then sc\<lparr>sc_end := lpos l\<rparr> else sc)
      else
        let (rune1, size) = decode_rune (drop (lpos l) (src l));
            l1 = l\<lparr>lpos := lpos l + size\<rparr>;
            next = trans_tab state rune1
        in if next = - 1 then
             (l1, if sc_type sc = INVALID then sc\<lparr>sc_end := lpos l1\<rparr> else sc)
           else
             let l2 = advance rune1 l1;
                 (accept, ignore) = act_tab ! nat next
             in if accept \<noteq> - 1 then
                  scan_loop (nat next) l2 (sc\<lparr>sc_type := nat accept, sc_end := lpos l2\<rparr>)
                else if ignore \<noteq> [] then
                  scan_loop 0 l2
                    (sc\<lparr>sc_type := (if length (src l2) \<le> lpos l2 then EOF else sc_type sc),
                        sc_start := lpos l2, sc_line := lline l2, sc_column := lcolumn l2\<rparr>)
                else scan_loop (nat next) l2 sc)"
  by pat_completeness auto

termination
proof (relation "measure (\<lambda>(state, l, sc). length (src l) - lpos l)", goal_cases)
  case 1
  show ?case by simp
qed (auto dest: decode_rune_at simp: not_le intro!: diff_less_mono2)

declare scan_loop.simps [simp del]

definition scan :: "lexer \<Rightarrow> token \<times> lexer" where
  "scan l =
     (if length (src l) \<le> lpos l then
        (\<lparr>TType = EOF, Lit = [], TPos = \<lparr>Offset = lpos l, Line = lline l, Column = lcolumn l\<rparr>\<rparr>, l)
      else
        let (l1, sc) = scan_loop 0 l
              \<lparr>sc_type = INVALID, sc_start = lpos l, sc_line = lline l, sc_column = lcolumn l, sc_end = 0\<rparr>;
            p = \<lparr>Offset = sc_start sc, Line = sc_line sc, Column = sc_column sc\<rparr>
        in if sc_start sc < sc_end sc then
             (\<lparr>TType = sc_type sc, Lit = drop (sc_start sc) (take (sc_end sc) (src l1)), TPos = p\<rparr>,
              l1\<lparr>lpos := sc_end sc\<rparr>)
           else (\<lparr>TType = sc_type sc, Lit = [], TPos = p\<rparr>, l1))"

end
