(* ===== verification/LexerCorrect.thy ===== *)
theory LexerCorrect
  imports Lexer
begin

text \<open>
  What \<open>Scan\<close> returns: no byte of the source is lost, every token but the last is not empty, and the
  end of the source is reached after finitely many tokens.
\<close>

section \<open>Facts about the tables\<close>

fun row_targets :: "trans_row \<Rightarrow> int list" where
  "row_targets (Row cs d) = d # map (\<lambda>(lo, hi, s). s) cs"

lemma switch_rune_in: "switch_rune cs d r \<in> insert d ((\<lambda>(lo, hi, s). s) ` set cs)"
  by (induction cs d r rule: switch_rune.induct) auto

lemma row_next_in: "row_next row r \<in> set (row_targets row)"
  using switch_rune_in by (cases row) auto

lemma tables_length: "length trans_rows = 62" "length act_tab = 62"
  by code_simp+

lemma trans_rows_targets:
  "list_all (\<lambda>row. list_all (\<lambda>s. s = - 1 \<or> 0 < s \<and> s < 62) (row_targets row)) trans_rows"
  by code_simp

lemma trans_rows_no_space:
  "list_all (\<lambda>row. list_all (\<lambda>s. s \<noteq> 1) (row_targets row)) (tl trans_rows)"
  by code_simp

lemma act_tab_accepts: "list_all (\<lambda>e. 0 \<le> fst e \<and> fst e \<noteq> 1) (take 1 act_tab @ drop 2 act_tab)"
  by code_simp

lemma act_tab_1: "act_tab ! 1 = (- 1, ''!whitespace'')"
  by code_simp

lemma trans_tab_targets: "trans_tab s r \<in> set (row_targets (trans_rows ! s))"
  unfolding trans_tab_def by (rule row_next_in)

lemma trans_tab_range:
  assumes "s < 62"
  shows "trans_tab s r = - 1 \<or> 0 < trans_tab s r \<and> trans_tab s r < 62"
proof -
  have "trans_rows ! s \<in> set trans_rows" using assms tables_length by simp
  then have "\<forall>s' \<in> set (row_targets (trans_rows ! s)). s' = - 1 \<or> 0 < s' \<and> s' < 62"
    by (rule bspec[OF trans_rows_targets[unfolded list_all_iff]])
  then show ?thesis using trans_tab_targets by (rule bspec)
qed

lemma trans_tab_space:
  assumes "s < 62" "s \<noteq> 0"
  shows "trans_tab s r \<noteq> 1"
proof -
  obtain k where k: "s = Suc k" using assms by (cases s) auto
  then have l: "k < length (tl trans_rows)" using assms tables_length by simp
  then have "tl trans_rows ! k \<in> set (tl trans_rows)" by (rule nth_mem)
  then have "trans_rows ! s \<in> set (tl trans_rows)" using k l by (simp only: nth_tl)
  then have "\<forall>s' \<in> set (row_targets (trans_rows ! s)). s' \<noteq> 1"
    by (rule bspec[OF trans_rows_no_space[unfolded list_all_iff]])
  then show ?thesis using trans_tab_targets by (rule bspec)
qed

definition after_space :: "(int \<times> int \<times> int) list" where
  "after_space = (case trans_rows ! 0 of Row cs d \<Rightarrow> drop 4 cs)"

lemma first_row:
  "trans_rows ! 0 = Row ([(9, 9, 1), (10, 10, 1), (13, 13, 1), (32, 32, 1)] @ after_space) (- 1)"
  by code_simp

lemma after_space_targets: "list_all (\<lambda>c. snd (snd c) \<noteq> 1) after_space"
  by code_simp

lemma trans_tab_0_space: "trans_tab 0 r = 1 \<longleftrightarrow> r \<in> {9, 10, 13, 32}"
proof -
  have "switch_rune after_space (- 1) r \<in> insert (- 1) ((\<lambda>(lo, hi, s). s) ` set after_space)"
    by (rule switch_rune_in)
  then have "switch_rune after_space (- 1) r \<noteq> 1"
    using after_space_targets by (auto simp: list_all_iff)
  then show ?thesis unfolding trans_tab_def first_row by auto
qed

lemma act_tab_accept:
  assumes "s < 62" "s \<noteq> 1"
  shows "0 \<le> fst (act_tab ! s) \<and> fst (act_tab ! s) \<noteq> 1"
proof -
  have "act_tab ! s \<in> set (take 1 act_tab @ drop 2 act_tab)"
  proof (cases "s = 0")
    case True
    have "act_tab ! 0 = take 1 act_tab ! 0" by (rule nth_take[symmetric]) simp
    moreover have "take 1 act_tab ! 0 \<in> set (take 1 act_tab)"
      using tables_length by (intro nth_mem) simp
    ultimately show ?thesis using True by simp
  next
    case False
    then obtain k where k: "s = 2 + k" using assms by (metis One_nat_def Suc_1 add_2_eq_Suc less_2_cases_iff
        not_less le_Suc_ex)
    then have "drop 2 act_tab ! k \<in> set (drop 2 act_tab)"
      using assms tables_length by (intro nth_mem) simp
    then show ?thesis using k tables_length assms by (simp add: nth_drop)
  qed
  then show ?thesis by (rule bspec[OF act_tab_accepts[unfolded list_all_iff]])
qed

section \<open>Decoding\<close>

lemma second_byte_range:
  "second_ok b0 b1 \<Longrightarrow>
     0x80 \<le> b1 \<and> b1 \<le> 0xBF \<and> (0xE0 < b0 \<or> b0 < 0xE0 \<or> 0xA0 \<le> b1) \<and>
     (0xF0 < b0 \<or> b0 < 0xF0 \<or> 0x90 \<le> b1)"
  by (auto simp: second_ok_def cont_byte_def split: if_split_asm)

lemma decode_rune_long:
  assumes "decode_rune (c # cs) = (r, n)" "0x80 \<le> (of_char c :: int)"
  shows "0x80 \<le> r"
  using assms unfolding decode_rune_def RuneError_def cont_byte_def
  by (auto split: list.split_asm if_split_asm dest!: second_byte_range)

lemma decode_rune_ascii:
  assumes "decode_rune p = (r, n)" "p \<noteq> []" "r < 0x80"
  shows "n = 1 \<and> r = of_char (hd p)"
proof -
  obtain c cs where p: "p = c # cs" using assms(2) by (cases p) auto
  then have "(of_char c :: int) < 0x80" using decode_rune_long assms by fastforce
  then show ?thesis using assms(1) p by (simp add: decode_rune_def)
qed

section \<open>One token\<close>

definition is_space :: "char \<Rightarrow> bool" where
  "is_space c = ((of_char c :: int) \<in> {9, 10, 13, 32})"

text \<open>
  What holds each time the loop of \<open>Scan\<close> starts over: what lies between the first position and the
  token's start is white space, and in every state but the first a non-empty token ends at the
  current position.
\<close>

definition scan_inv :: "bytes \<Rightarrow> nat \<Rightarrow> nat \<Rightarrow> lexer \<Rightarrow> scan_state \<Rightarrow> bool" where
  "scan_inv s p state l sc \<longleftrightarrow>
     src l = s \<and> state < 62 \<and> state \<noteq> 1 \<and> p \<le> sc_start sc \<and> lpos l \<le> length s \<and>
     list_all is_space (drop p (take (sc_start sc) s)) \<and>
     (if state = 0
      then sc_start sc = lpos l \<and> sc_end sc \<le> lpos l \<and>
           sc_type sc = (if lpos l = length s then EOF else INVALID)
      else sc_start sc < lpos l \<and> sc_end sc = lpos l \<and> sc_type sc \<noteq> EOF)"

definition scan_post :: "bytes \<Rightarrow> nat \<Rightarrow> lexer \<Rightarrow> scan_state \<Rightarrow> bool" where
  "scan_post s p l sc \<longleftrightarrow>
     src l = s \<and> p \<le> sc_start sc \<and> list_all is_space (drop p (take (sc_start sc) s)) \<and>
     (if sc_type sc = EOF
      then sc_end sc \<le> sc_start sc \<and> sc_start sc = length s \<and> lpos l = length s
      else sc_start sc < sc_end sc \<and> sc_end sc \<le> length s)"

lemma scan_inv_stop_end:
  assumes "scan_inv s p state l sc" "length (src l) \<le> lpos l"
  shows "scan_post s p l (if sc_type sc = INVALID then sc\<lparr>sc_end := lpos l\<rparr> else sc)"
  using assms by (auto simp: scan_inv_def scan_post_def split: if_split_asm)

lemma scan_inv_stop_rune:
  assumes "scan_inv s p state l sc" "lpos l < length s" "0 < n" "lpos l + n \<le> length s"
  shows "scan_post s p (l\<lparr>lpos := lpos l + n\<rparr>)
           (if sc_type sc = INVALID then sc\<lparr>sc_end := lpos l + n\<rparr> else sc)"
  using assms by (auto simp: scan_inv_def scan_post_def split: if_split_asm)

lemma scan_inv_accept:
  assumes "scan_inv s p state l sc" "0 < n" "lpos l + n \<le> length s"
    and "next < 62" "next \<noteq> 0" "next \<noteq> 1" "accept \<noteq> EOF"
  shows "scan_inv s p next (l\<lparr>lpos := lpos l + n\<rparr>) (sc\<lparr>sc_type := accept, sc_end := lpos l + n\<rparr>)"
  using assms by (auto simp: scan_inv_def split: if_split_asm)

lemma scan_inv_skip:
  assumes "scan_inv s p 0 l sc" "lpos l < length s" "is_space (s ! lpos l)"
  shows "scan_inv s p 0 (l\<lparr>lpos := Suc (lpos l)\<rparr>)
           (sc\<lparr>sc_type := (if length s \<le> Suc (lpos l) then EOF else sc_type sc),
               sc_start := Suc (lpos l), sc_line := a, sc_column := b\<rparr>)"
  using assms by (auto simp: scan_inv_def take_Suc_conv_app_nth)

lemma scan_inv_advance: "scan_inv s p state (advance r l) sc = scan_inv s p state l sc"
  by (simp add: scan_inv_def)

text \<open>The four ways through the loop's body, as equations.\<close>

lemma scan_loop_end:
  "length (src l) \<le> lpos l \<Longrightarrow>
   scan_loop state l sc = (l, if sc_type sc = INVALID then sc\<lparr>sc_end := lpos l\<rparr> else sc)"
  by (simp add: scan_loop.simps)

lemma scan_loop_stop:
  "\<lbrakk>\<not> length (src l) \<le> lpos l; decode_rune (drop (lpos l) (src l)) = (r, n); trans_tab state r = - 1\<rbrakk> \<Longrightarrow>
   scan_loop state l sc =
     (l\<lparr>lpos := lpos l + n\<rparr>, if sc_type sc = INVALID then sc\<lparr>sc_end := lpos l + n\<rparr> else sc)"
  by (simp add: scan_loop.simps)

lemma scan_loop_accept:
  "\<lbrakk>\<not> length (src l) \<le> lpos l; decode_rune (drop (lpos l) (src l)) = (r, n); trans_tab state r \<noteq> - 1;
    act_tab ! nat (trans_tab state r) = (acc, ign); acc \<noteq> - 1\<rbrakk> \<Longrightarrow>
   scan_loop state l sc =
     scan_loop (nat (trans_tab state r)) (advance r (l\<lparr>lpos := lpos l + n\<rparr>))
       (sc\<lparr>sc_type := nat acc, sc_end := lpos l + n\<rparr>)"
  by (subst scan_loop.simps) (simp add: Let_def)

lemma scan_loop_ignore:
  "\<lbrakk>\<not> length (src l) \<le> lpos l; decode_rune (drop (lpos l) (src l)) = (r, n); trans_tab state r \<noteq> - 1;
    act_tab ! nat (trans_tab state r) = (- 1, ign); ign \<noteq> []\<rbrakk> \<Longrightarrow>
   scan_loop state l sc =
     (let l2 = advance r (l\<lparr>lpos := lpos l + n\<rparr>) in
      scan_loop 0 l2
        (sc\<lparr>sc_type := (if length (src l) \<le> lpos l + n then EOF else sc_type sc),
            sc_start := lpos l + n, sc_line := lline l2, sc_column := lcolumn l2\<rparr>))"
  by (subst scan_loop.simps) (simp add: Let_def)

lemma trans_tab_space_start:
  assumes "s < 62" "trans_tab s r = 1"
  shows "s = 0 \<and> r \<in> {9, 10, 13, 32}"
  using trans_tab_space[OF assms(1), of r] trans_tab_0_space[of r] assms(2) by (cases "s = 0") auto

lemma space_at:
  assumes "decode_rune (drop i s) = (r, n)" "i < length s" "r \<in> {9, 10, 13, 32}"
  shows "n = 1 \<and> is_space (s ! i)"
  using decode_rune_ascii[OF assms(1)] assms(2,3) by (auto simp: is_space_def hd_drop_conv_nth)

lemma scan_loop_post:
  "scan_inv s p state l sc \<Longrightarrow> scan_loop state l sc = (l', sc') \<Longrightarrow> scan_post s p l' sc'"
proof (induction state l sc rule: scan_loop.induct)
  case (1 state l sc)
  note inv = \<open>scan_inv s p state l sc\<close>
  note run = \<open>scan_loop state l sc = (l', sc')\<close>
  have src: "src l = s" and st: "state < 62" using inv by (simp_all add: scan_inv_def)
  obtain r n where d: "decode_rune (drop (lpos l) (src l)) = (r, n)" by force
  obtain acc ign where a: "act_tab ! nat (trans_tab state r) = (acc, ign)" by force
  consider (stop) "length (src l) \<le> lpos l"
    | (none) "\<not> length (src l) \<le> lpos l" "trans_tab state r = - 1"
    | (space) "\<not> length (src l) \<le> lpos l" "trans_tab state r \<noteq> - 1" "trans_tab state r = 1"
    | (go) "\<not> length (src l) \<le> lpos l" "trans_tab state r \<noteq> - 1" "trans_tab state r \<noteq> 1"
    by blast
  then show ?case
  proof cases
    case stop
    then show ?thesis using scan_inv_stop_end[OF inv] run by (simp add: scan_loop_end)
  next
    case none
    then show ?thesis
      using scan_inv_stop_rune[OF inv, of n] run decode_rune_at[of r n "lpos l" s] d src
      by (simp add: scan_loop_stop)
  next
    case space
    have sp: "state = 0" "n = 1" "is_space (s ! lpos l)" "acc = - 1" "ign \<noteq> []"
      using trans_tab_space_start[OF st space(3)] space_at[of "lpos l" s r n] d src space a act_tab_1
      by auto
    show ?thesis
      using 1(2)[OF space(1) d[symmetric] refl refl refl space(2) refl refl a[symmetric]]
        scan_inv_skip[OF inv[unfolded sp(1)]] run scan_loop_ignore[OF space(1) d space(2)] sp a src space(1)
      by (simp add: Let_def scan_inv_advance)
  next
    case go
    have rng: "0 < trans_tab state r" "trans_tab state r < 62"
      using trans_tab_range[OF st, of r] go by auto
    then have "nat (trans_tab state r) < 62" "nat (trans_tab state r) \<noteq> 1" using go(3) by linarith+
    then have "0 \<le> acc \<and> acc \<noteq> 1"
      using act_tab_accept[of "nat (trans_tab state r)"] a by simp
    then have acc: "acc \<noteq> - 1" "nat acc \<noteq> EOF" by linarith+
    have "scan_inv s p (nat (trans_tab state r)) (advance r (l\<lparr>lpos := lpos l + n\<rparr>))
        (sc\<lparr>sc_type := nat acc, sc_end := lpos l + n\<rparr>)"
      unfolding scan_inv_advance
      using scan_inv_accept[OF inv, of n] rng acc go decode_rune_at[of r n "lpos l" s] d src by auto
    then show ?thesis
      using 1(1)[OF go(1) d[symmetric] refl refl refl go(2) refl refl a[symmetric] acc(1)] run
        scan_loop_accept[OF go(1) d go(2) a acc(1)] by simp
  qed
qed

definition lexer_ok :: "lexer \<Rightarrow> bool" where
  "lexer_ok l \<longleftrightarrow> lpos l \<le> length (src l)"

lemma new_lexer_ok [simp]: "lexer_ok (new_lexer s)" "src (new_lexer s) = s" "lpos (new_lexer s) = 0"
  by (simp_all add: lexer_ok_def new_lexer_def)

lemma scan_at_end:
  assumes "length (src l) \<le> lpos l"
  shows "TType (fst (scan l)) = EOF \<and> Lit (fst (scan l)) = [] \<and> Offset (TPos (fst (scan l))) = lpos l \<and>
         snd (scan l) = l"
  using assms by (simp add: scan_def)

lemma scan_inside:
  assumes "lexer_ok l" "\<not> length (src l) \<le> lpos l"
  obtains l1 sc where
    "scan_post (src l) (lpos l) l1 sc"
    "scan l =
       (\<lparr>TType = sc_type sc, Lit = drop (sc_start sc) (take (sc_end sc) (src l)),
         TPos = \<lparr>Offset = sc_start sc, Line = sc_line sc, Column = sc_column sc\<rparr>\<rparr>,
        if sc_start sc < sc_end sc then l1\<lparr>lpos := sc_end sc\<rparr> else l1)"
proof -
  let ?sc = "\<lparr>sc_type = INVALID, sc_start = lpos l, sc_line = lline l, sc_column = lcolumn l, sc_end = 0\<rparr>"
  obtain l1 sc where run: "scan_loop 0 l ?sc = (l1, sc)" by force
  have "scan_inv (src l) (lpos l) 0 l ?sc" using assms by (simp add: scan_inv_def lexer_ok_def)
  then have post: "scan_post (src l) (lpos l) l1 sc" using run by (rule scan_loop_post)
  then have "src l1 = src l" by (simp add: scan_post_def)
  then show ?thesis using that post assms(2) run by (simp add: scan_def)
qed

lemma drop_split: "a \<le> b \<Longrightarrow> drop a xs = drop a (take b xs) @ drop b xs"
  by (metis append_take_drop_id drop_drop drop_take le_add_diff_inverse2)

text \<open>Where the next token starts and ends: \<open>gap\<close> is the white space before it.\<close>

lemma scan_splits:
  assumes "lexer_ok l"
  obtains gap where
    "drop (lpos l) (src l) = gap @ Lit (fst (scan l)) @ drop (lpos (snd (scan l))) (src l)"
    "list_all is_space gap" "Offset (TPos (fst (scan l))) = lpos l + length gap"
    "src (snd (scan l)) = src l" "lexer_ok (snd (scan l))"
    "TType (fst (scan l)) = EOF \<longleftrightarrow> Lit (fst (scan l)) = []"
    "TType (fst (scan l)) = EOF \<longrightarrow> lpos (snd (scan l)) = length (src l)"
proof (cases "length (src l) \<le> lpos l")
  case True
  then have "lpos l = length (src l)" using assms by (simp add: lexer_ok_def)
  then show ?thesis using that[of "[]"] assms scan_at_end[OF True] by simp
next
  case False
  obtain l1 sc where post: "scan_post (src l) (lpos l) l1 sc" and sc: "scan l =
       (\<lparr>TType = sc_type sc, Lit = drop (sc_start sc) (take (sc_end sc) (src l)),
         TPos = \<lparr>Offset = sc_start sc, Line = sc_line sc, Column = sc_column sc\<rparr>\<rparr>,
        if sc_start sc < sc_end sc then l1\<lparr>lpos := sc_end sc\<rparr> else l1)"
    using scan_inside[OF assms False] by blast
  let ?gap = "drop (lpos l) (take (sc_start sc) (src l))"
  have le: "lpos l \<le> sc_start sc" "sc_start sc \<le> length (src l)"
    using post by (auto simp: scan_post_def split: if_split_asm)
  from le(1) have "drop (lpos l) (src l) = ?gap @ drop (sc_start sc) (src l)"
    by (rule drop_split)
  moreover have "drop (sc_start sc) (src l)
      = drop (sc_start sc) (take (sc_end sc) (src l)) @ drop (lpos (snd (scan l))) (src l)"
    using post sc drop_split[of "sc_start sc" "sc_end sc" "src l"]
    by (cases "sc_type sc = EOF") (simp_all add: scan_post_def)
  ultimately have "drop (lpos l) (src l) = ?gap @ Lit (fst (scan l)) @ drop (lpos (snd (scan l))) (src l)"
    using sc by simp
  moreover have "list_all is_space ?gap" using post by (simp add: scan_post_def)
  moreover have "Offset (TPos (fst (scan l))) = lpos l + length ?gap" using sc le by simp
  moreover have "src (snd (scan l)) = src l" "lexer_ok (snd (scan l))"
    using post sc by (cases "sc_type sc = EOF"; simp add: scan_post_def lexer_ok_def)+
  moreover have "TType (fst (scan l)) = EOF \<longleftrightarrow> Lit (fst (scan l)) = []"
    using post sc by (cases "sc_type sc = EOF") (simp_all add: scan_post_def)
  moreover have "TType (fst (scan l)) = EOF \<longrightarrow> lpos (snd (scan l)) = length (src l)"
    using post sc by (auto simp: scan_post_def)
  ultimately show ?thesis by (rule that)
qed

text \<open>The tokens of a source: what a parser gets that calls \<open>Scan\<close> until the end.\<close>

definition rest :: "lexer \<Rightarrow> nat" where
  "rest l = length (src l) - lpos l"

lemma scan_rest:
  assumes "TType (fst (scan l)) \<noteq> EOF"
  shows "rest (snd (scan l)) < rest l"
proof -
  have inside: "\<not> length (src l) \<le> lpos l" using assms scan_at_end by blast
  then have ok: "lexer_ok l" by (simp add: lexer_ok_def)
  obtain gap where "drop (lpos l) (src l) = gap @ Lit (fst (scan l)) @ drop (lpos (snd (scan l))) (src l)"
    "src (snd (scan l)) = src l" "Lit (fst (scan l)) \<noteq> []"
    using scan_splits[OF ok] assms by metis
  then have "length (src l) - lpos l = length gap + length (Lit (fst (scan l))) + rest (snd (scan l))"
    unfolding rest_def by (metis add.assoc length_append length_drop)
  then show ?thesis using \<open>Lit (fst (scan l)) \<noteq> []\<close> unfolding rest_def by (cases "Lit (fst (scan l))") simp_all
qed

end
