(* ===== verification/LexTokens.thy ===== *)
theory LexTokens
  imports LexerCorrect
begin

text \<open>
  The tokens of a text: \<open>Scan\<close> called until it gives the end of the text, and how they cover the text.
\<close>

section \<open>All the tokens of a text\<close>

text \<open>What a caller gets that scans until the end, the token of the end included.\<close>

function tokens :: "lexer \<Rightarrow> token list" where
  "tokens l = (let (t, l') = scan l in if TType t = EOF then [t] else t # tokens l')"
  by pat_completeness auto

termination
proof (relation "measure rest", goal_cases)
  case 1
  show ?case by simp
next
  case (2 l x t l')
  then have "scan l = (t, l')" by simp
  then show ?case using scan_rest[of l] 2(3) by simp
qed

declare tokens.simps [simp del]

text \<open>
  The text is the tokens' literals with white space between them, the empty literal of the end last;
  \<open>gaps\<close> are the stretches of white space.
\<close>

fun weave :: "bytes list \<Rightarrow> token list \<Rightarrow> bytes" where
  "weave (g # gs) (t # ts) = g @ Lit t @ weave gs ts"
| "weave _ _ = []"

fun offsets_ok :: "nat \<Rightarrow> bytes list \<Rightarrow> token list \<Rightarrow> bool" where
  "offsets_ok p (g # gs) (t # ts) \<longleftrightarrow>
     list_all is_space g \<and> Offset (TPos t) = p + length g \<and> (TType t = EOF \<longleftrightarrow> Lit t = []) \<and>
     (TType t = EOF \<longleftrightarrow> ts = []) \<and> offsets_ok (Offset (TPos t) + length (Lit t)) gs ts"
| "offsets_ok p [] [] \<longleftrightarrow> True"
| "offsets_ok p _ _ \<longleftrightarrow> False"

lemma tokens_cover:
  "lexer_ok l \<Longrightarrow>
   \<exists>gaps. drop (lpos l) (src l) = weave gaps (tokens l) \<and> offsets_ok (lpos l) gaps (tokens l)"
proof (induction l rule: tokens.induct)
  case (1 l)
  let ?t = "fst (scan l)" and ?l' = "snd (scan l)"
  obtain gap where g: "drop (lpos l) (src l) = gap @ Lit ?t @ drop (lpos ?l') (src l)"
    "list_all is_space gap" "Offset (TPos ?t) = lpos l + length gap" "src ?l' = src l" "lexer_ok ?l'"
    "TType ?t = EOF \<longleftrightarrow> Lit ?t = []" "TType ?t = EOF \<longrightarrow> lpos ?l' = length (src l)"
    using scan_splits[OF 1(2)] by metis
  have tok: "tokens l = (if TType ?t = EOF then [?t] else ?t # tokens ?l')"
    by (subst tokens.simps) (simp add: case_prod_beta)
  show ?case
  proof (cases "TType ?t = EOF")
    case True
    then have "drop (lpos l) (src l) = weave [gap] (tokens l)" "offsets_ok (lpos l) [gap] (tokens l)"
      using tok g by auto
    then show ?thesis by blast
  next
    case False
    have "length (drop (lpos l) (src l)) = length gap + length (Lit ?t) + length (drop (lpos ?l') (src l))"
      using arg_cong[OF g(1), of length] by simp
    moreover have "lpos l \<le> length (src l)" "lpos ?l' \<le> length (src l)"
      using 1(2) g(4,5) by (simp_all add: lexer_ok_def)
    ultimately have "lpos ?l' = Offset (TPos ?t) + length (Lit ?t)"
      using g(3) by simp
    moreover obtain gaps where "drop (lpos ?l') (src ?l') = weave gaps (tokens ?l')"
      "offsets_ok (lpos ?l') gaps (tokens ?l')"
      using 1(1)[OF _ _ False] g(5) prod.collapse by blast
    ultimately have "drop (lpos l) (src l) = weave (gap # gaps) (tokens l)"
      "offsets_ok (lpos l) (gap # gaps) (tokens l)"
      using tok False g by (auto simp: tokens.simps[of ?l'] case_prod_beta)
    then show ?thesis by blast
  qed
qed

lemma tokens_step:
  "tokens l = (if TType (fst (scan l)) = EOF then [fst (scan l)] else fst (scan l) # tokens (snd (scan l)))"
  by (subst tokens.simps) (simp add: case_prod_beta)

lemma tokens_not_empty [simp]: "tokens l \<noteq> []"
  by (subst tokens.simps) (simp add: case_prod_beta)

lemma offsets_ok_last:
  "offsets_ok p gaps ts \<Longrightarrow> ts \<noteq> [] \<Longrightarrow>
     TType (last ts) = EOF \<and> list_all (\<lambda>t. TType t \<noteq> EOF \<and> Lit t \<noteq> []) (butlast ts)"
  by (induction p gaps ts rule: offsets_ok.induct) auto

end
