(* ===== verification/LexGrammar.thy ===== *)
theory LexGrammar
  imports LexTokens
begin

text \<open>
  The tokens as the grammar file defines them (lang/sparql.bnf), and the proof that the tables of the
  lexer recognise exactly these: each state of the automaton stands for what may still follow, and a
  rune leads from a state to the one that stands for its derivative.
\<close>

section \<open>The tokens of the grammar\<close>

definition word :: "string \<Rightarrow> int list" where
  "word s = map of_char s"

definition varchar :: "int \<Rightarrow> bool" where
  "varchar r \<longleftrightarrow>
     r = 45 \<or> 48 \<le> r \<and> r \<le> 57 \<or> 65 \<le> r \<and> r \<le> 90 \<or> r = 95 \<or> 97 \<le> r \<and> r \<le> 122"

definition varstring :: "int list \<Rightarrow> bool" where
  "varstring w \<longleftrightarrow> w \<noteq> [] \<and> list_all varchar w"

text \<open>The literals of the grammar with their token types, as runes.\<close>

definition fixed_words :: "(int list \<times> nat) list" where
  "fixed_words =
     [([59], 2), ([83, 69, 76, 69, 67, 84], 3), ([42], 4), ([73, 78, 83, 69, 82, 84], 5),
      ([123], 6), ([125], 7), ([46], 8), ([67, 79, 85, 78, 84], 9), ([70, 82, 79, 77], 12),
      ([87, 72, 69, 82, 69], 13), ([124], 17), ([47], 18), ([97], 19), ([40], 20), ([41], 21),
      ([63], 22), ([43], 23), ([85, 78, 73, 79, 78], 25)]"

lemma fixed_words_read:
  "fixed_words = map (\<lambda>(s, t). (word s, t))
       [('';'', 2), (''SELECT'', 3), (''*'', 4), (''INSERT'', 5), (''{'', 6), (''}'', 7), (''.'',
        8), (''COUNT'', 9), (''FROM'', 12), (''WHERE'', 13), (''|'', 17), (''/'', 18), (''a'',
        19), (''('', 20), ('')'', 21), (''?'', 22), (''+'', 23), (''UNION'', 25)]"
  by code_simp

text \<open>
  What follows a first \<open>_varchar\<close>: the rest of a \<open>string\<close>, or the rest of a \<open>uri\<close> with its colon. What
  follows an opening quote or angle bracket: anything up to the first closing one.
\<close>

definition word_rest :: "int list \<Rightarrow> nat option" where
  "word_rest w =
     (case dropWhile varchar w of
        [] \<Rightarrow> Some 10
      | c # v \<Rightarrow> if c = 58 \<and> varstring v then Some 14 else None)"

definition closed_by :: "int \<Rightarrow> nat \<Rightarrow> int list \<Rightarrow> nat option" where
  "closed_by c typ w = (if dropWhile (\<lambda>r. r \<noteq> c) w = [c] then Some typ else None)"

definition lexeme_type :: "int list \<Rightarrow> nat option" where
  "lexeme_type w =
     (case map_of fixed_words w of
        Some typ \<Rightarrow> Some typ
      | None \<Rightarrow>
          (case w of
             [] \<Rightarrow> None
           | r # v \<Rightarrow>
               if r = 63 then (if varstring v then Some 11 else None)
               else if r = 34 then closed_by 34 15 v
               else if r = 60 then closed_by 62 16 v
               else if varchar r then word_rest v
               else None))"

section \<open>What a state stands for\<close>

datatype lmode =
    Dead
  | Start
  | Word "(int list \<times> nat) list"
  | Colon
  | UriTail
  | Quest
  | VarTail
  | Quote
  | Url
  | Fixed nat

fun sem :: "lmode \<Rightarrow> int list \<Rightarrow> nat option" where
  "sem Dead w = None"
| "sem Start w = lexeme_type w"
| "sem (Word kws) w = (case map_of kws w of Some typ \<Rightarrow> Some typ | None \<Rightarrow> word_rest w)"
| "sem Colon w = (if varstring w then Some 14 else None)"
| "sem UriTail w = (if list_all varchar w then Some 14 else None)"
| "sem Quest w = (if w = [] then Some 22 else if varstring w then Some 11 else None)"
| "sem VarTail w = (if list_all varchar w then Some 11 else None)"
| "sem Quote w = closed_by 34 15 w"
| "sem Url w = closed_by 62 16 w"
| "sem (Fixed typ) w = (if w = [] then Some typ else None)"

definition derive :: "int \<Rightarrow> (int list \<times> nat) list \<Rightarrow> (int list \<times> nat) list" where
  "derive r kws = map (\<lambda>(k, typ). (tl k, typ)) (filter (\<lambda>(k, typ). k \<noteq> [] \<and> hd k = r) kws)"

fun mode_step :: "lmode \<Rightarrow> int \<Rightarrow> lmode" where
  "mode_step Dead r = Dead"
| "mode_step Start r =
     (if r = 63 then Quest
      else if r = 34 then Quote
      else if r = 60 then Url
      else if varchar r then Word (derive r fixed_words)
      else case map_of fixed_words [r] of Some typ \<Rightarrow> Fixed typ | None \<Rightarrow> Dead)"
| "mode_step (Word kws) r =
     (if varchar r then Word (derive r kws) else if r = 58 then Colon else Dead)"
| "mode_step Colon r = (if varchar r then UriTail else Dead)"
| "mode_step UriTail r = (if varchar r then UriTail else Dead)"
| "mode_step Quest r = (if varchar r then VarTail else Dead)"
| "mode_step VarTail r = (if varchar r then VarTail else Dead)"
| "mode_step Quote r = (if r = 34 then Fixed 15 else Quote)"
| "mode_step Url r = (if r = 62 then Fixed 16 else Url)"
| "mode_step (Fixed typ) r = Dead"

lemma map_of_derive: "map_of (derive r kws) w = map_of kws (r # w)"
proof (induction kws)
  case (Cons e kws)
  obtain k ty where e: "e = (k, ty)" by force
  show ?case
  proof (cases k)
    case Nil
    then show ?thesis using Cons e by (simp add: derive_def)
  next
    case k: (Cons x xs)
    then show ?thesis using Cons e by (auto simp: derive_def)
  qed
qed (simp add: derive_def)

lemma word_rest_Cons:
  "word_rest (r # w) =
     (if varchar r then word_rest w else if r = 58 \<and> varstring w then Some 14 else None)"
  by (simp add: word_rest_def)

lemma closed_by_Cons:
  "closed_by c typ (r # w) = (if r = c then if w = [] then Some typ else None else closed_by c typ w)"
  by (simp add: closed_by_def)

lemma fixed_single:
  "list_all (\<lambda>(k, typ). k \<noteq> [] \<and> (varchar (hd k) \<or> tl k = []) \<and> 9 \<le> hd k \<and> hd k \<le> 126) fixed_words"
  by code_simp

lemma fixed_other:
  assumes "\<not> varchar r" "w \<noteq> []"
  shows "map_of fixed_words (r # w) = None"
proof (rule ccontr)
  assume "map_of fixed_words (r # w) \<noteq> None"
  then obtain ty where "(r # w, ty) \<in> set fixed_words" by (auto dest: map_of_SomeD)
  then show False using fixed_single assms by (auto simp: list_all_iff)
qed

lemma fixed_words_at: "map_of fixed_words [34] = None" "map_of fixed_words [60] = None"
    "map_of fixed_words [63] = Some 22"
  by code_simp+

lemma varchar_not: "\<not> varchar 34" "\<not> varchar 60" "\<not> varchar 63" "\<not> varchar 58"
  by (simp_all add: varchar_def)

lemma sem_Start_Cons: "lexeme_type (r # w) = sem (mode_step Start r) w"
proof (cases "varchar r")
  case True
  then have "r \<noteq> 34" "r \<noteq> 60" "r \<noteq> 63" using varchar_not by auto
  then show ?thesis using True by (simp add: lexeme_type_def map_of_derive split: option.split)
next
  case False
  show ?thesis
  proof (cases "w = []")
    case True
    then show ?thesis using False
      by (auto simp: lexeme_type_def fixed_words_at closed_by_def varstring_def split: option.split)
  next
    case ne: False
    then show ?thesis using False fixed_other[OF False ne]
      by (auto simp: lexeme_type_def split: option.split)
  qed
qed

fun mode_ok :: "lmode \<Rightarrow> bool" where
  "mode_ok (Word kws) = list_all (\<lambda>e. list_all varchar (fst e)) kws"
| "mode_ok m = True"

lemma sem_Cons:
  assumes "mode_ok m"
  shows "sem m (r # w) = sem (mode_step m r) w"
proof (cases m)
  case Start
  then show ?thesis using sem_Start_Cons by simp
next
  case (Word kws)
  show ?thesis
  proof (cases "varchar r")
    case True
    then show ?thesis using Word by (simp add: map_of_derive word_rest_Cons split: option.split)
  next
    case False
    have "map_of kws (r # w) = None"
    proof (rule ccontr)
      assume "map_of kws (r # w) \<noteq> None"
      then obtain ty where "(r # w, ty) \<in> set kws" by (auto dest: map_of_SomeD)
      then show False using assms Word False by (auto simp: list_all_iff)
    qed
    then show ?thesis using Word False by (simp add: word_rest_Cons)
  qed
qed (auto simp: varstring_def closed_by_Cons)

section \<open>The states of the table\<close>

definition mode_of :: "int \<Rightarrow> lmode" where
  "mode_of t =
     (if t < 0 then Dead
      else (if t < 31 then (if t < 15 then (if t < 7 then (if t < 3 then (if t < 1 then Start
          else (if t < 2 then Dead
           else Quote))
         else (if t < 5 then (if t < 4 then Fixed 20
           else Fixed 21)
          else (if t < 6 then Fixed 4
           else Fixed 23)))
        else (if t < 11 then (if t < 9 then (if t < 8 then Word []
           else Fixed 8)
          else (if t < 10 then Fixed 18
           else Word []))
         else (if t < 13 then (if t < 12 then Fixed 2
           else Url)
          else (if t < 14 then Quest
           else Word []))))
       else (if t < 23 then (if t < 19 then (if t < 17 then (if t < 16 then Word [([79, 85, 78, 84], 9)]
           else Word [([82, 79, 77], 12)])
          else (if t < 18 then Word [([78, 83, 69, 82, 84], 5)]
           else Word [([69, 76, 69, 67, 84], 3)]))
         else (if t < 21 then (if t < 20 then Word [([78, 73, 79, 78], 25)]
           else Word [([72, 69, 82, 69], 13)])
          else (if t < 22 then Word [([], 19)]
           else Word [])))
        else (if t < 27 then (if t < 25 then (if t < 24 then Fixed 6
           else Fixed 17)
          else (if t < 26 then Fixed 7
           else Fixed 15))
         else (if t < 29 then (if t < 28 then Colon
           else Fixed 16)
          else VarTail))))
      else (if t < 46 then (if t < 38 then (if t < 34 then (if t < 32 then VarTail
          else (if t < 33 then VarTail
           else Word [([85, 78, 84], 9)]))
         else (if t < 36 then (if t < 35 then Word [([79, 77], 12)]
           else Word [([83, 69, 82, 84], 5)])
          else (if t < 37 then Word [([76, 69, 67, 84], 3)]
           else Word [([73, 79, 78], 25)])))
        else (if t < 42 then (if t < 40 then (if t < 39 then Word [([69, 82, 69], 13)]
           else UriTail)
          else UriTail)
         else (if t < 44 then (if t < 43 then UriTail
           else Word [([78, 84], 9)])
          else (if t < 45 then Word [([77], 12)]
           else Word [([69, 82, 84], 5)]))))
       else (if t < 54 then (if t < 50 then (if t < 48 then (if t < 47 then Word [([69, 67, 84], 3)]
           else Word [([79, 78], 25)])
          else (if t < 49 then Word [([82, 69], 13)]
           else Word [([84], 9)]))
         else (if t < 52 then (if t < 51 then Word [([], 12)]
           else Word [([82, 84], 5)])
          else (if t < 53 then Word [([67, 84], 3)]
           else Word [([78], 25)])))
        else (if t < 58 then (if t < 56 then (if t < 55 then Word [([69], 13)]
           else Word [([], 9)])
          else (if t < 57 then Word [([84], 5)]
           else Word [([84], 3)]))
         else (if t < 60 then (if t < 59 then Word [([], 25)]
           else Word [([], 13)])
          else (if t < 61 then Word [([], 5)]
           else Word [([], 3)])))))))"

text \<open>
  A row of the table and the derivative of a mode change their value only at a few runes. It is enough to
  compare them there, and at 0, below all of them.
\<close>

definition row_cuts :: "(int \<times> int \<times> int) list \<Rightarrow> int list" where
  "row_cuts cs = concat (map (\<lambda>(lo, hi, t). [lo, hi + 1]) cs)"

definition word_cuts :: "int list" where
  "word_cuts = [45, 46, 48, 58, 59, 65, 91, 95, 96, 97, 123]"

definition head_cuts :: "(int list \<times> nat) list \<Rightarrow> int list" where
  "head_cuts kws = concat (map (\<lambda>e. case fst e of [] \<Rightarrow> [] | h # _ \<Rightarrow> [h, h + 1]) kws)"

fun mode_cuts :: "lmode \<Rightarrow> int list" where
  "mode_cuts Start = word_cuts @ [34, 35, 60, 61, 63, 64] @ head_cuts fixed_words"
| "mode_cuts (Word kws) = word_cuts @ head_cuts kws"
| "mode_cuts Colon = word_cuts"
| "mode_cuts UriTail = word_cuts"
| "mode_cuts Quest = word_cuts"
| "mode_cuts VarTail = word_cuts"
| "mode_cuts Quote = [34, 35]"
| "mode_cuts Url = [62, 63]"
| "mode_cuts _ = []"

definition same_side :: "int list \<Rightarrow> int \<Rightarrow> int \<Rightarrow> bool" where
  "same_side bs r c \<longleftrightarrow> (\<forall>b \<in> set bs. b \<le> r \<longleftrightarrow> b \<le> c)"

lemma same_side_append: "same_side (as @ bs) r c \<longleftrightarrow> same_side as r c \<and> same_side bs r c"
  by (auto simp: same_side_def)

lemma same_side_exists: "\<exists>c \<in> set (0 # bs). (\<forall>b \<in> set bs. 0 < b) \<longrightarrow> same_side bs r c"
proof (cases "\<exists>b \<in> set bs. b \<le> r")
  case True
  define c where "c = Max {b \<in> set bs. b \<le> r}"
  have fin: "finite {b \<in> set bs. b \<le> r}" "{b \<in> set bs. b \<le> r} \<noteq> {}" using True by auto
  then have c: "c \<in> set bs" "c \<le> r" using Max_in[OF fin] by (auto simp: c_def)
  have "b \<le> c" if "b \<in> set bs" "b \<le> r" for b
    using Max_ge[OF fin(1)] that by (auto simp: c_def)
  then have "same_side bs r c" using c(2) by (auto simp: same_side_def)
  then show ?thesis using c(1) by auto
next
  case False
  then have "(\<forall>b \<in> set bs. 0 < b) \<longrightarrow> same_side bs r 0" by (fastforce simp: same_side_def)
  then show ?thesis by simp
qed

lemma switch_rune_same: "same_side (row_cuts cs) r c \<Longrightarrow> switch_rune cs d r = switch_rune cs d c"
proof (induction cs)
  case (Cons e cs)
  obtain lo hi t where e: "e = (lo, hi, t)" by (metis prod_cases3)
  have "lo \<le> r \<longleftrightarrow> lo \<le> c" "hi + 1 \<le> r \<longleftrightarrow> hi + 1 \<le> c" "same_side (row_cuts cs) r c"
    using Cons.prems e by (auto simp: same_side_def row_cuts_def)
  then show ?case using Cons.IH e by auto
qed simp

lemma word_cuts_same:
  assumes "same_side word_cuts r c"
  shows "varchar r \<longleftrightarrow> varchar c" "r = 58 \<longleftrightarrow> c = 58"
proof -
  have s: "45 \<le> r \<longleftrightarrow> 45 \<le> c" "46 \<le> r \<longleftrightarrow> 46 \<le> c" "48 \<le> r \<longleftrightarrow> 48 \<le> c" "58 \<le> r \<longleftrightarrow> 58 \<le> c"
    "59 \<le> r \<longleftrightarrow> 59 \<le> c" "65 \<le> r \<longleftrightarrow> 65 \<le> c" "91 \<le> r \<longleftrightarrow> 91 \<le> c" "95 \<le> r \<longleftrightarrow> 95 \<le> c"
    "96 \<le> r \<longleftrightarrow> 96 \<le> c" "97 \<le> r \<longleftrightarrow> 97 \<le> c" "123 \<le> r \<longleftrightarrow> 123 \<le> c"
    using assms by (simp_all add: same_side_def word_cuts_def)
  have v: "varchar x \<longleftrightarrow>
      45 \<le> x \<and> \<not> 46 \<le> x \<or> 48 \<le> x \<and> \<not> 58 \<le> x \<or> 65 \<le> x \<and> \<not> 91 \<le> x \<or> 95 \<le> x \<and> \<not> 96 \<le> x \<or>
      97 \<le> x \<and> \<not> 123 \<le> x" for x
    by (auto simp: varchar_def)
  show "varchar r \<longleftrightarrow> varchar c" unfolding v s ..
  have "x = 58 \<longleftrightarrow> 58 \<le> x \<and> \<not> 59 \<le> x" for x :: int by auto
  then show "r = 58 \<longleftrightarrow> c = 58" using s by blast
qed

lemma same_side_point: "same_side bs r c \<Longrightarrow> h \<in> set bs \<Longrightarrow> h + 1 \<in> set bs \<Longrightarrow> r = h \<longleftrightarrow> c = h"
  unfolding same_side_def by (metis antisym_conv2 order_refl zle_add1_eq_le zless_add1_eq not_le)

lemma head_cuts_in: "(h # k, ty) \<in> set kws \<Longrightarrow> h \<in> set (head_cuts kws) \<and> h + 1 \<in> set (head_cuts kws)"
  by (induction kws) (auto simp: head_cuts_def)

lemma head_cuts_same:
  assumes "same_side (head_cuts kws) r c" "(k, ty) \<in> set kws" "k \<noteq> []"
  shows "hd k = r \<longleftrightarrow> hd k = c"
proof -
  obtain h k' where k: "k = h # k'" using assms(3) by (cases k) auto
  have "r = h \<longleftrightarrow> c = h"
    using same_side_point[OF assms(1)] head_cuts_in assms(2) unfolding k by blast
  then show ?thesis using k by auto
qed

lemma derive_same:
  assumes "same_side (head_cuts kws) r c"
  shows "derive r kws = derive c kws"
proof -
  have "filter (\<lambda>(k, ty). k \<noteq> [] \<and> hd k = r) kws = filter (\<lambda>(k, ty). k \<noteq> [] \<and> hd k = c) kws"
    by (rule filter_cong) (use head_cuts_same[OF assms] in auto)
  then show ?thesis by (simp add: derive_def)
qed

lemma map_of_single_same:
  assumes "same_side (head_cuts kws) r c"
  shows "map_of kws [r] = map_of kws [c]"
  using map_of_derive[of r kws "[]"] map_of_derive[of c kws "[]"] derive_same[OF assms] by simp

lemma mode_step_same: "same_side (mode_cuts m) r c \<Longrightarrow> mode_step m r = mode_step m c"
proof (cases m)
  case Start
  assume s: "same_side (mode_cuts m) r c"
  have pts: "r = 34 \<longleftrightarrow> c = 34" "r = 60 \<longleftrightarrow> c = 60" "r = 63 \<longleftrightarrow> c = 63"
    by (rule same_side_point[OF s]; simp add: Start)+
  have "same_side word_cuts r c" "same_side (head_cuts fixed_words) r c"
    using s Start by (auto simp: same_side_def)
  then show ?thesis
    using Start pts word_cuts_same derive_same map_of_single_same by simp
next
  case Quote
  assume "same_side (mode_cuts m) r c"
  then show ?thesis using Quote same_side_point[of "[34, 35]" r c 34] by simp
next
  case Url
  assume "same_side (mode_cuts m) r c"
  then show ?thesis using Url same_side_point[of "[62, 63]" r c 62] by simp
next
  case (Word kws)
  assume "same_side (mode_cuts m) r c"
  then have "same_side word_cuts r c" "same_side (head_cuts kws) r c"
    using Word by (simp_all add: same_side_append)
  then show ?thesis using Word word_cuts_same derive_same by simp
qed (simp_all add: word_cuts_same)

definition lex_row_ok :: "trans_row \<times> lmode \<times> int \<times> string \<Rightarrow> bool" where
  "lex_row_ok e =
     (case e of (row, m, accept, ignore) \<Rightarrow>
        (case row of Row cs d \<Rightarrow>
           let bs = row_cuts cs @ mode_cuts m
           in list_all (\<lambda>b. 0 < b) bs \<and>
              list_all (\<lambda>r. mode_of (switch_rune cs d r) = mode_step m r) (0 # bs)) \<and>
        mode_ok m \<and> (if accept < 1 then None else Some (nat accept)) = sem m [])"

definition lex_rows :: "(trans_row \<times> lmode \<times> int \<times> string) list" where
  "lex_rows = zip trans_rows (zip (map mode_of [0..61]) act_tab)"

lemma lex_rows_a: "list_all lex_row_ok (take 1 lex_rows)"
  by code_simp

lemma lex_rows_b: "list_all lex_row_ok (take 30 (drop 1 lex_rows))"
  by code_simp

lemma lex_rows_c: "list_all lex_row_ok (drop 31 lex_rows)"
  by code_simp

lemma lex_rows_ok: "list_all lex_row_ok lex_rows"
proof -
  have "list_all lex_row_ok (drop 1 lex_rows)"
    using lex_rows_b lex_rows_c list_all_split[of lex_row_ok 30 "drop 1 lex_rows"] by simp
  then show ?thesis using lex_rows_a list_all_split by blast
qed

section \<open>The automaton and the grammar\<close>

lemma lex_row_at:
  assumes "s < 62"
  shows "lex_row_ok (trans_rows ! s, mode_of (int s), act_tab ! s)"
proof -
  have l: "length [0..61::int] = 62" by simp
  then have "lex_rows ! s = (trans_rows ! s, mode_of (int s), act_tab ! s)" "s < length lex_rows"
    using assms tables_length by (simp_all add: lex_rows_def nth_upto del: length_upto)
  then show ?thesis using lex_rows_ok by (metis list_all_length)
qed

lemma mode_of_step:
  assumes "s < 62"
  shows "mode_of (trans_tab s r) = mode_step (mode_of (int s)) r"
proof -
  obtain cs d where row: "trans_rows ! s = Row cs d" by (cases "trans_rows ! s") auto
  let ?m = "mode_of (int s)"
  let ?bs = "row_cuts cs @ mode_cuts ?m"
  have ok: "list_all (\<lambda>b. 0 < b) ?bs"
    "list_all (\<lambda>r. mode_of (switch_rune cs d r) = mode_step ?m r) (0 # ?bs)"
    using lex_row_at[OF assms] row by (auto simp: lex_row_ok_def Let_def split: prod.splits)
  obtain c where c: "c \<in> set (0 # ?bs)" "same_side ?bs r c"
    using same_side_exists[of ?bs r] ok(1) unfolding list_all_iff by blast
  have "mode_of (switch_rune cs d c) = mode_step ?m c"
    by (rule bspec[OF ok(2)[unfolded list_all_iff] c(1)])
  moreover have "switch_rune cs d r = switch_rune cs d c" "mode_step ?m r = mode_step ?m c"
    using c(2) switch_rune_same mode_step_same unfolding same_side_append by blast+
  ultimately show ?thesis by (simp add: trans_tab_def row)
qed

lemma mode_of_accept:
  assumes "s < 62"
  shows "sem (mode_of (int s)) [] =
           (if fst (act_tab ! s) < 1 then None else Some (nat (fst (act_tab ! s))))"
    "mode_ok (mode_of (int s))"
  using lex_row_at[OF assms] by (auto simp: lex_row_ok_def split: prod.splits trans_row.splits)

text \<open>The automaton run on a word of runes.\<close>

fun run :: "int \<Rightarrow> int list \<Rightarrow> int" where
  "run s [] = s"
| "run s (r # w) = (if s = - 1 then - 1 else run (trans_tab (nat s) r) w)"

lemma run_none [simp]: "run (- 1) w = - 1"
  by (cases w) simp_all

lemma run_snoc: "run s (w @ [r]) = (if run s w = - 1 then - 1 else trans_tab (nat (run s w)) r)"
  by (induction s w rule: run.induct) auto

lemma mode_dead: "sem (mode_of (- 1)) w = None"
  by (simp add: mode_of_def)

lemma run_range: "s = - 1 \<or> 0 \<le> s \<and> s < 62 \<Longrightarrow> run s w = - 1 \<or> 0 \<le> run s w \<and> run s w < 62"
proof (induction s w rule: run.induct)
  case (2 s r w)
  show ?case
  proof (cases "s = - 1")
    case False
    then have "nat s < 62" using 2(2) by linarith
    then have "trans_tab (nat s) r = - 1 \<or> 0 \<le> trans_tab (nat s) r \<and> trans_tab (nat s) r < 62"
      using trans_tab_range[of "nat s" r] by linarith
    then show ?thesis using 2(1) False by simp
  qed simp
qed simp

lemma run_sem:
  "0 \<le> s \<and> s < 62 \<Longrightarrow> sem (mode_of s) (w @ u) = sem (mode_of (run s w)) u"
proof (induction w arbitrary: s)
  case (Cons r w)
  then have s: "nat s < 62" "int (nat s) = s" "s \<noteq> - 1" by linarith+
  have step: "sem (mode_of s) ((r # w) @ u) = sem (mode_of (trans_tab (nat s) r)) (w @ u)"
    using sem_Cons[OF mode_of_accept(2)[OF s(1)]] mode_of_step[OF s(1)] s(2) by simp
  show ?case
  proof (cases "trans_tab (nat s) r = - 1")
    case True
    then show ?thesis using step s(3) mode_dead by simp
  next
    case False
    then have "0 \<le> trans_tab (nat s) r \<and> trans_tab (nat s) r < 62"
      using trans_tab_range[OF s(1), of r] by linarith
    then show ?thesis using Cons.IH step s(3) by simp
  qed
qed simp

lemma mode_of_0: "mode_of 0 = Start"
  by (simp add: mode_of_def)

text \<open>What the automaton accepts is what the grammar says.\<close>

lemma run_lexeme_type: "lexeme_type (w @ u) = sem (mode_of (run 0 w)) u"
  using run_sem[of 0 w u] by (simp add: mode_of_0)

lemma run_dead: "run 0 w = - 1 \<Longrightarrow> lexeme_type (w @ u) = None"
  using run_lexeme_type mode_dead by metis

lemma run_accepts:
  assumes "run 0 w = int s" "s < 62"
  shows "lexeme_type w = (if fst (act_tab ! s) < 1 then None else Some (nat (fst (act_tab ! s))))"
  using run_lexeme_type[of w "[]"] mode_of_accept(1)[OF assms(2)] assms(1) by simp

end
