(* ===== verification/LexScan.thy ===== *)
theory LexScan
  imports LexGrammar
begin

text \<open>
  The type of a token that \<open>Scan\<close> returns is the type that the grammar gives its literal, and no longer
  literal would have been one of the grammar.
\<close>

section \<open>The runes of a literal\<close>

function runes :: "bytes \<Rightarrow> int list" where
  "runes p = (if p = [] then [] else let (r, n) = decode_rune p in r # runes (drop n p))"
  by pat_completeness auto

termination
proof (relation "measure length", goal_cases)
  case 1
  show ?case by simp
next
  case (2 p x r n)
  then have "decode_rune p = (r, n)" "p \<noteq> []" by simp_all
  then show ?case using decode_rune_size[of p] by (simp add: diff_less)
qed

declare runes.simps [simp del]

lemma runes_Nil [simp]: "runes [] = []"
  by (simp add: runes.simps)

lemma runes_step: "p \<noteq> [] \<Longrightarrow> decode_rune p = (r, n) \<Longrightarrow> runes p = r # runes (drop n p)"
  by (simp add: runes.simps[of p])

text \<open>Decoding looks at no byte beyond the ones it takes.\<close>

definition decode_ints :: "int list \<Rightarrow> int \<times> nat" where
  "decode_ints L =
     (case L of
        [] \<Rightarrow> (RuneError, 0)
      | b0 # r1 \<Rightarrow>
          if b0 < 0x80 then (b0, 1)
          else (case r1 of
             [] \<Rightarrow> (RuneError, 1)
           | b1 # r2 \<Rightarrow>
               if 0xC2 \<le> b0 \<and> b0 \<le> 0xDF then
                 (if second_ok b0 b1 then ((b0 - 0xC0) * 64 + (b1 - 0x80), 2) else (RuneError, 1))
               else (case r2 of
                  [] \<Rightarrow> (RuneError, 1)
                | b2 # r3 \<Rightarrow>
                    if 0xE0 \<le> b0 \<and> b0 \<le> 0xEF then
                      (if second_ok b0 b1 \<and> cont_byte b2
                       then ((b0 - 0xE0) * 4096 + (b1 - 0x80) * 64 + (b2 - 0x80), 3)
                       else (RuneError, 1))
                    else (case r3 of
                       [] \<Rightarrow> (RuneError, 1)
                     | b3 # _ \<Rightarrow>
                         if 0xF0 \<le> b0 \<and> b0 \<le> 0xF4 \<and> second_ok b0 b1 \<and> cont_byte b2 \<and> cont_byte b3
                         then ((b0 - 0xF0) * 262144 + (b1 - 0x80) * 4096 + (b2 - 0x80) * 64 + (b3 - 0x80), 4)
                         else (RuneError, 1)))))"
lemma decode_ints: "decode_rune p = decode_ints (map of_char p)"
  by (simp add: decode_rune_def decode_ints_def)

lemma decode_ints_eqs:
  "b0 < 128 \<Longrightarrow> decode_ints (b0 # r) = (b0, 1)"
  "\<not> b0 < 128 \<Longrightarrow> decode_ints [b0] = (RuneError, 1)"
  "\<not> b0 < 128 \<Longrightarrow> 194 \<le> b0 \<and> b0 \<le> 223 \<Longrightarrow> decode_ints (b0 # b1 # r) =
     (if second_ok b0 b1 then ((b0 - 192) * 64 + (b1 - 128), 2) else (RuneError, 1))"
  "\<not> b0 < 128 \<Longrightarrow> \<not> (194 \<le> b0 \<and> b0 \<le> 223) \<Longrightarrow> decode_ints [b0, b1] = (RuneError, 1)"
  "\<not> b0 < 128 \<Longrightarrow> \<not> (194 \<le> b0 \<and> b0 \<le> 223) \<Longrightarrow> 224 \<le> b0 \<and> b0 \<le> 239 \<Longrightarrow>
     decode_ints (b0 # b1 # b2 # r) =
     (if second_ok b0 b1 \<and> cont_byte b2
      then ((b0 - 224) * 4096 + (b1 - 128) * 64 + (b2 - 128), 3) else (RuneError, 1))"
  "\<not> b0 < 128 \<Longrightarrow> \<not> (194 \<le> b0 \<and> b0 \<le> 223) \<Longrightarrow> \<not> (224 \<le> b0 \<and> b0 \<le> 239) \<Longrightarrow>
     decode_ints [b0, b1, b2] = (RuneError, 1)"
  "\<not> b0 < 128 \<Longrightarrow> \<not> (194 \<le> b0 \<and> b0 \<le> 223) \<Longrightarrow> \<not> (224 \<le> b0 \<and> b0 \<le> 239) \<Longrightarrow>
     decode_ints (b0 # b1 # b2 # b3 # r) =
     (if 240 \<le> b0 \<and> b0 \<le> 244 \<and> second_ok b0 b1 \<and> cont_byte b2 \<and> cont_byte b3
      then ((b0 - 240) * 262144 + (b1 - 128) * 4096 + (b2 - 128) * 64 + (b3 - 128), 4)
      else (RuneError, 1))"
  by (simp_all add: decode_ints_def)

lemma decode_ints_take:
  assumes d: "decode_ints L = (r, n)" and "n \<le> m"
  shows "decode_ints (take m L) = (r, n)"
proof (cases "length L \<le> m")
  case False
  then obtain b0 r1 where L: "L = b0 # r1" by (cases L) auto
  have "n \<noteq> 0" using d L by (auto simp: decode_ints_def split: list.splits if_split_asm)
  then obtain m1 where m: "m = Suc m1" using assms(2) by (cases m) auto
  show ?thesis
  proof (cases "b0 < 128")
    case True
    then show ?thesis using d L m by (simp add: decode_ints_eqs)
  next
    case b0: False
    have r1: "r1 \<noteq> []" using False L m by auto
    then obtain b1 r2 where r1: "r1 = b1 # r2" by (cases r1) auto
    have d': "decode_ints (b0 # b1 # r2) = (r, n)" and le: "n \<le> Suc m1" and len: "m1 < Suc (length r2)"
      using d L r1 m assms(2) False by simp_all
    have goal: "decode_ints (b0 # take m1 (b1 # r2)) = (r, n) \<Longrightarrow> ?thesis"
      using L r1 m by simp
    consider "194 \<le> b0 \<and> b0 \<le> 223" | "\<not> (194 \<le> b0 \<and> b0 \<le> 223)" "224 \<le> b0 \<and> b0 \<le> 239"
      | "\<not> (194 \<le> b0 \<and> b0 \<le> 223)" "\<not> (224 \<le> b0 \<and> b0 \<le> 239)" by blast
    then show ?thesis
    proof cases
      case 1
      then show ?thesis
        by (intro goal) (use d' le b0 in \<open>cases m1; simp add: decode_ints_eqs split: if_split_asm\<close>)
    next
      case 2
      show ?thesis
      proof (intro goal, cases m1)
        case 0
        show "decode_ints (b0 # take m1 (b1 # r2)) = (r, n)"
          unfolding 0 using d' le[unfolded 0] b0 2 by (cases r2) (auto simp: decode_ints_eqs split: if_split_asm)
      next
        case (Suc k)
        have "decode_ints (b0 # b1 # take k r2) = (r, n)"
          using d' le[unfolded Suc] b0 2 len
          by (cases r2; cases k) (auto simp: decode_ints_eqs Suc split: if_split_asm)
        then show "decode_ints (b0 # take m1 (b1 # r2)) = (r, n)" by (simp add: Suc)
      qed
    next
      case 3
      show ?thesis
      proof (intro goal, cases m1)
        case 0
        show "decode_ints (b0 # take m1 (b1 # r2)) = (r, n)"
          unfolding 0 using d' le[unfolded 0] b0 3
          by (cases r2; cases "tl r2") (auto simp: decode_ints_eqs split: if_split_asm)
      next
        case (Suc k)
        have "decode_ints (b0 # b1 # take k r2) = (r, n)"
        proof (cases r2)
          case Nil
          then show ?thesis using d' by simp
        next
          case r2: (Cons b2 r3)
          show ?thesis
            using d' le[unfolded Suc] b0 3 len
            by (cases k; cases r3; cases "k - 1") (auto simp: decode_ints_eqs Suc r2 split: if_split_asm)
        qed
        then show "decode_ints (b0 # take m1 (b1 # r2)) = (r, n)" by (simp add: Suc)
      qed
    qed
  qed
qed (use d in simp)

lemma decode_rune_take: "decode_rune p = (r, n) \<Longrightarrow> n \<le> m \<Longrightarrow> decode_rune (take m p) = (r, n)"
  using decode_ints_take[of "map of_char p" r n m] by (simp add: decode_ints take_map)

text \<open>\<open>chain s i j w\<close>: decoding from \<open>i\<close> gets to \<open>j\<close> with the runes \<open>w\<close>.\<close>

inductive chain :: "bytes \<Rightarrow> nat \<Rightarrow> nat \<Rightarrow> int list \<Rightarrow> bool" for s :: bytes where
  chain_start: "chain s i i []"
| chain_step:
    "\<lbrakk>chain s i j w; j < length s; decode_rune (drop j s) = (r, n)\<rbrakk> \<Longrightarrow> chain s i (j + n) (w @ [r])"

lemma chain_first:
  "chain s i j w \<Longrightarrow>
   i = j \<and> w = [] \<or>
   (\<exists>r n w'. w = r # w' \<and> i < length s \<and> decode_rune (drop i s) = (r, n) \<and> chain s (i + n) j w')"
proof (induction rule: chain.induct)
  case (chain_step i j w r n)
  then show ?case
    by (cases w) (auto intro: chain.intros)
qed simp

lemma chain_le: "chain s i j w \<Longrightarrow> i \<le> j"
  by (induction rule: chain.induct) simp_all

lemma chain_runes: "chain s i j w \<Longrightarrow> runes (drop i (take j s)) = w"
proof (induction w arbitrary: i)
  case Nil
  then show ?case using chain_first by fastforce
next
  case (Cons r w)
  then obtain n where c: "i < length s" "decode_rune (drop i s) = (r, n)" "chain s (i + n) j w"
    using chain_first by blast
  have n: "0 < n" "i + n \<le> j" using decode_rune_at c(1,2) chain_le[OF c(3)] by (metis)+
  have eq: "drop i (take j s) = take (j - i) (drop i s)" by (simp add: drop_take)
  have "decode_rune (drop i (take j s)) = (r, n)"
    unfolding eq using decode_rune_take[OF c(2)] n(2) by simp
  moreover have "drop i (take j s) \<noteq> []" using c(1) n by simp
  ultimately show ?case using runes_step Cons.IH[OF c(3)] by (simp add: add.commute)
qed

section \<open>The type of a token\<close>

definition lex_inv :: "bytes \<Rightarrow> nat \<Rightarrow> nat \<Rightarrow> lexer \<Rightarrow> scan_state \<Rightarrow> bool" where
  "lex_inv s p state l sc \<longleftrightarrow>
     scan_inv s p state l sc \<and>
     (\<exists>w. chain s (sc_start sc) (lpos l) w \<and> run 0 w = int state) \<and>
     (state \<noteq> 0 \<longrightarrow> sc_type sc = nat (fst (act_tab ! state)))"

text \<open>
  \<open>lit_ok\<close>: the token type is the one the grammar gives the literal, or \<open>INVALID\<close> when it gives none; a
  valid literal is as long as possible.
\<close>

definition type_of_literal :: "bytes \<Rightarrow> nat" where
  "type_of_literal lit = (case lexeme_type (runes lit) of Some ty \<Rightarrow> ty | None \<Rightarrow> INVALID)"

definition longest :: "bytes \<Rightarrow> nat \<Rightarrow> bytes \<Rightarrow> bool" where
  "longest s e lit \<longleftrightarrow>
     (if length s \<le> e then True
      else let r = fst (decode_rune (drop e s)) in \<forall>u. lexeme_type (runes lit @ r # u) = None)"

definition lit_ok :: "bytes \<Rightarrow> scan_state \<Rightarrow> bool" where
  "lit_ok s sc \<longleftrightarrow>
     (let lit = drop (sc_start sc) (take (sc_end sc) s) in
      if sc_type sc = EOF then True
      else sc_type sc = type_of_literal lit \<and>
           (if sc_type sc = INVALID then True else longest s (sc_end sc) lit))"

lemma accept_nat: "s < 62 \<Longrightarrow> s \<noteq> 1 \<Longrightarrow> fst (act_tab ! s) < 1 \<longleftrightarrow> nat (fst (act_tab ! s)) = 0"
  using act_tab_accept by fastforce

lemma type_of_run:
  assumes "chain s i j w" "run 0 w = int state" "state < 62" "state \<noteq> 1"
  shows "type_of_literal (drop i (take j s)) = nat (fst (act_tab ! state))"
  using run_accepts[OF assms(2,3)] accept_nat[OF assms(3,4)] chain_runes[OF assms(1)]
  by (auto simp: type_of_literal_def)

lemma start_type: "nat (fst (act_tab ! 0)) = INVALID"
  by code_simp

lemma lit_ok_end:
  assumes "lex_inv s p state l sc" "length (src l) \<le> lpos l"
  shows "lit_ok s (if sc_type sc = INVALID then sc\<lparr>sc_end := lpos l\<rparr> else sc)"
proof -
  obtain w where w: "chain s (sc_start sc) (lpos l) w" "run 0 w = int state"
    and inv: "scan_inv s p state l sc" and t: "state \<noteq> 0 \<longrightarrow> sc_type sc = nat (fst (act_tab ! state))"
    using assms(1) by (auto simp: lex_inv_def)
  have st: "state < 62" "state \<noteq> 1" "src l = s" using inv by (simp_all add: scan_inv_def)
  note ty = type_of_run[OF w st(1,2)]
  show ?thesis
  proof (cases "state = 0")
    case True
    then have "sc_type sc = EOF" using inv assms(2) by (simp add: scan_inv_def)
    then show ?thesis by (simp add: lit_ok_def)
  next
    case False
    then have "sc_end sc = lpos l" using inv by (simp add: scan_inv_def)
    then show ?thesis using False t ty assms(2) st(3)
      by (auto simp: lit_ok_def Let_def longest_def)
  qed
qed

lemma lit_ok_stop:
  assumes "lex_inv s p state l sc" "lpos l < length s" "decode_rune (drop (lpos l) s) = (r, n)"
    and "trans_tab state r = - 1"
  shows "lit_ok s (if sc_type sc = INVALID then sc\<lparr>sc_end := lpos l + n\<rparr> else sc)"
proof -
  obtain w where w: "chain s (sc_start sc) (lpos l) w" "run 0 w = int state"
    and inv: "scan_inv s p state l sc" and t: "state \<noteq> 0 \<longrightarrow> sc_type sc = nat (fst (act_tab ! state))"
    using assms(1) by (auto simp: lex_inv_def)
  have st: "state < 62" "state \<noteq> 1" using inv by (simp_all add: scan_inv_def)
  have dead: "run 0 (w @ [r]) = - 1" using w(2) assms(4) by (simp add: run_snoc)
  have none: "lexeme_type (w @ r # u) = None" for u using run_dead[OF dead, of u] by simp
  show ?thesis
  proof (cases "sc_type sc = INVALID")
    case True
    have "chain s (sc_start sc) (lpos l + n) (w @ [r])" by (rule chain_step[OF w(1) assms(2,3)])
    then have "runes (drop (sc_start sc) (take (lpos l + n) s)) = w @ [r]" by (rule chain_runes)
    then show ?thesis using True none[of "[]"] by (simp add: lit_ok_def type_of_literal_def Let_def)
  next
    case False
    then have s0: "state \<noteq> 0" using inv assms(2) by (cases "state = 0") (simp_all add: scan_inv_def)
    then have "sc_end sc = lpos l" using inv by (simp add: scan_inv_def)
    then show ?thesis
      using False s0 t type_of_run[OF w st] chain_runes[OF w(1)] none assms(3)
      by (simp add: lit_ok_def longest_def Let_def)
  qed
qed

lemma lex_inv_advance: "lex_inv s p state (advance r l) sc = lex_inv s p state l sc"
  by (simp add: lex_inv_def scan_inv_advance)

lemma lex_inv_accept:
  assumes "lex_inv s p state l sc" "lpos l < length s" "decode_rune (drop (lpos l) s) = (r, n)"
    and "trans_tab state r = int next" "next < 62" "next \<noteq> 0" "next \<noteq> 1"
    and "accept = nat (fst (act_tab ! next))" "accept \<noteq> EOF"
  shows "lex_inv s p next (l\<lparr>lpos := lpos l + n\<rparr>) (sc\<lparr>sc_type := accept, sc_end := lpos l + n\<rparr>)"
proof -
  obtain w where w: "chain s (sc_start sc) (lpos l) w" "run 0 w = int state"
    using assms(1) by (auto simp: lex_inv_def)
  have "chain s (sc_start sc) (lpos l + n) (w @ [r])" by (rule chain_step[OF w(1) assms(2,3)])
  moreover have "run 0 (w @ [r]) = int next" using w(2) assms(4) by (simp add: run_snoc)
  moreover have "0 < n" "lpos l + n \<le> length s" using decode_rune_at assms(2,3) by metis+
  then have "scan_inv s p next (l\<lparr>lpos := lpos l + n\<rparr>) (sc\<lparr>sc_type := accept, sc_end := lpos l + n\<rparr>)"
    using scan_inv_accept assms(1,5-9) by (auto simp: lex_inv_def)
  ultimately show ?thesis using assms(8) by (auto simp: lex_inv_def)
qed

lemma lex_inv_skip:
  assumes "lex_inv s p 0 l sc" "lpos l < length s" "is_space (s ! lpos l)"
  shows "lex_inv s p 0 (l\<lparr>lpos := Suc (lpos l)\<rparr>)
           (sc\<lparr>sc_type := (if length s \<le> Suc (lpos l) then EOF else sc_type sc),
               sc_start := Suc (lpos l), sc_line := a, sc_column := b\<rparr>)"
  using scan_inv_skip assms chain_start by (auto simp: lex_inv_def intro!: exI[of _ "[]"])


lemma scan_loop_lit_ok:
  "lex_inv s p state l sc \<Longrightarrow> scan_loop state l sc = (l', sc') \<Longrightarrow> lit_ok s sc'"
proof (induction state l sc rule: scan_loop.induct)
  case (1 state l sc)
  note inv = \<open>lex_inv s p state l sc\<close>
  note loop = \<open>scan_loop state l sc = (l', sc')\<close>
  have src: "src l = s" and st: "state < 62" using inv by (simp_all add: lex_inv_def scan_inv_def)
  obtain r n where d: "decode_rune (drop (lpos l) (src l)) = (r, n)" by force
  obtain acc ign where a: "act_tab ! nat (trans_tab state r) = (acc, ign)" by force
  consider (stop) "length (src l) \<le> lpos l"
    | (none) "\<not> length (src l) \<le> lpos l" "trans_tab state r = - 1"
    | (space) "\<not> length (src l) \<le> lpos l" "trans_tab state r \<noteq> - 1" "trans_tab state r = 1"
    | (go) "\<not> length (src l) \<le> lpos l" "trans_tab state r \<noteq> - 1" "trans_tab state r \<noteq> 1"
    by blast
  then show ?case
  proof cases
    case stop
    then show ?thesis using lit_ok_end[OF inv stop] loop by (simp add: scan_loop_end)
  next
    case none
    have "sc' = (if sc_type sc = INVALID then sc\<lparr>sc_end := lpos l + n\<rparr> else sc)"
      using loop scan_loop_stop[OF none(1) d none(2)] by simp
    then show ?thesis using lit_ok_stop[OF inv _ _ none(2)] none(1) d src by simp
  next
    case space
    have sp: "state = 0" "n = 1" "is_space (s ! lpos l)" "acc = - 1" "ign \<noteq> []"
      using trans_tab_space_start[OF st space(3)] space_at[of "lpos l" s r n] d src space a act_tab_1
      by auto
    show ?thesis
      using 1(2)[OF space(1) d[symmetric] refl refl refl space(2) refl refl a[symmetric]]
        lex_inv_skip[OF inv[unfolded sp(1)]] loop scan_loop_ignore[OF space(1) d space(2)] sp a src space(1)
      by (simp add: Let_def lex_inv_advance)
  next
    case go
    define next' where "next' = nat (trans_tab state r)"
    have rng: "trans_tab state r = int next'" "next' < 62" "next' \<noteq> 0" "next' \<noteq> 1"
      using trans_tab_range[OF st, of r] go unfolding next'_def by linarith+
    then have "0 \<le> acc \<and> acc \<noteq> 1"
      using act_tab_accept[of next'] a by (simp add: next'_def)
    then have acc: "acc \<noteq> - 1" "nat acc \<noteq> EOF" by linarith+
    have "nat acc = nat (fst (act_tab ! next'))" using a by (simp add: next'_def)
    then have "lex_inv s p next' (advance r (l\<lparr>lpos := lpos l + n\<rparr>))
        (sc\<lparr>sc_type := nat acc, sc_end := lpos l + n\<rparr>)"
      unfolding lex_inv_advance
      using lex_inv_accept[OF inv _ _ rng] acc(2) go(1) d src by simp
    then show ?thesis
      using 1(1)[OF go(1) d[symmetric] refl refl refl go(2) refl refl a[symmetric] acc(1)] loop
        scan_loop_accept[OF go(1) d go(2) a acc(1)] by (simp add: next'_def)
  qed
qed

lemma scan_lit_ok:
  assumes "lexer_ok l" "TType (fst (scan l)) \<noteq> EOF"
  shows "TType (fst (scan l)) = type_of_literal (Lit (fst (scan l)))"
    "TType (fst (scan l)) \<noteq> INVALID \<Longrightarrow> longest (src l) (lpos (snd (scan l))) (Lit (fst (scan l)))"
proof -
  have inside: "\<not> length (src l) \<le> lpos l" using assms(2) scan_at_end by blast
  let ?sc = "\<lparr>sc_type = INVALID, sc_start = lpos l, sc_line = lline l, sc_column = lcolumn l, sc_end = 0\<rparr>"
  obtain l1 sc where loop: "scan_loop 0 l ?sc = (l1, sc)" by force
  have inv: "scan_inv (src l) (lpos l) 0 l ?sc" using assms(1) inside by (simp add: scan_inv_def lexer_ok_def)
  then have post: "scan_post (src l) (lpos l) l1 sc" using loop by (rule scan_loop_post)
  have "lex_inv (src l) (lpos l) 0 l ?sc"
    using inv chain_start by (auto simp: lex_inv_def intro!: exI[of _ "[]"])
  then have ok: "lit_ok (src l) sc" using loop by (rule scan_loop_lit_ok)
  have "src l1 = src l" using post by (simp add: scan_post_def)
  then have res: "TType (fst (scan l)) = sc_type sc" using inside loop by (simp add: scan_def Let_def)
  then have "sc_start sc < sc_end sc" using post assms(2) by (simp add: scan_post_def)
  then have "Lit (fst (scan l)) = drop (sc_start sc) (take (sc_end sc) (src l))"
    "lpos (snd (scan l)) = sc_end sc"
    using inside loop \<open>src l1 = src l\<close> by (simp_all add: scan_def Let_def)
  then show "TType (fst (scan l)) = type_of_literal (Lit (fst (scan l)))"
    "TType (fst (scan l)) \<noteq> INVALID \<Longrightarrow> longest (src l) (lpos (snd (scan l))) (Lit (fst (scan l)))"
    using ok res assms(2) by (simp_all add: lit_ok_def Let_def)
qed

section \<open>Properties\<close>

text \<open>
  C18: Scanning loses nothing and always ends. The tokens of a text, with stretches of white space before
  them, are the text byte for byte; every token's offset is where its literal lies; all tokens but the
  last have a literal, and the last is the end of the text.
\<close>

theorem tokens_cover_text:
  "\<exists>gaps. s = weave gaps (tokens (new_lexer s)) \<and> offsets_ok 0 gaps (tokens (new_lexer s))"
  using tokens_cover[of "new_lexer s"] by simp

text \<open>
  C6: The lexer's tables are the token definitions of the grammar. Every token but the end has the type
  that the grammar gives its literal (\<open>INVALID\<close> when the grammar gives none), and a valid literal is as
  long as possible: together with the next rune it begins no literal of the grammar.
\<close>

theorem token_types_correct:
  assumes "lexer_ok l" "TType (fst (scan l)) \<noteq> EOF"
  shows "TType (fst (scan l)) = type_of_literal (Lit (fst (scan l))) \<and>
         (TType (fst (scan l)) = INVALID \<or>
          longest (src l) (lpos (snd (scan l))) (Lit (fst (scan l))))"
  using scan_lit_ok[OF assms] by auto

lemma token_types_correct_witness:
  "TType (fst (scan (new_lexer ''?x }''))) = type_of_literal ''?x'' \<and> type_of_literal ''?x'' = 11"
proof -
  have run: "fst (scan (new_lexer ''?x }'')) = \<lparr>TType = 11, Lit = ''?x'', TPos = \<lparr>Offset = 0, Line = 1, Column = 1\<rparr>\<rparr>"
    by code_simp
  then show ?thesis using token_types_correct[of "new_lexer ''?x }''"] by simp
qed


text \<open>
  \<open>Scan\<close> does not go back to the longest literal it has seen: a state that accepts nothing sets the type
  \<open>INVALID\<close>, and the literal grows by the rune that has no transition. So \<open>x:;\<close> is one invalid token,
  where x and ; are tokens of the grammar.
\<close>

lemma scan_no_backtracking:
  "Lit (fst (scan (new_lexer ''x:;''))) = ''x:;'' \<and> TType (fst (scan (new_lexer ''x:;''))) = INVALID \<and>
   type_of_literal ''x'' = 10 \<and> type_of_literal '';'' = 2"
  by code_simp

end
