(* ===== verification/ParseTables.thy ===== *)
theory ParseTables
  imports GoStrings
begin

text \<open>
  The tables of the query parser (lang/parser/actiontable.go and gototable.go). An entry of the action
  table is the \<open>canRecover\<close> flag of a state and its actions by token type; a token type that is not
  listed has the action nil. A row of the goto table lists the next states by nonterminal; one that is
  not listed has -1.
\<close>

datatype action = Accept | Shift nat | Reduce nat

type_synonym action_row = "bool \<times> (nat \<times> action) list"
type_synonym goto_row = "(nat \<times> nat) list"

definition action_tab_0 :: "action_row list" where
  "action_tab_0 =
    [(False, [(3, Shift 8), (5, Shift 9), (9, Shift 10)]),
     (False, [(1, Accept)]),
     (False, [(2, Shift 11)]),
     (False, [(2, Shift 12)])]"

definition action_tab_4 :: "action_row list" where
  "action_tab_4 =
    [(False, [(2, Shift 13)]),
     (False, [(12, Shift 16), (13, Shift 17)]),
     (False, [(12, Shift 16), (13, Shift 17)]),
     (False, [(12, Shift 16), (13, Shift 17)])]"

definition action_tab_8 :: "action_row list" where
  "action_tab_8 =
    [(False, [(4, Shift 22), (11, Shift 25)]),
     (False, [(6, Shift 26)]),
     (False, [(4, Shift 27), (11, Shift 25)]),
     (False, [(1, Reduce 1)])]"

definition action_tab_12 :: "action_row list" where
  "action_tab_12 =
    [(False, [(1, Reduce 2)]),
     (False, [(1, Reduce 3)]),
     (False, [(13, Shift 17)]),
     (False, [(2, Reduce 5)])]"

definition action_tab_16 :: "action_row list" where
  "action_tab_16 =
    [(False, [(4, Shift 30), (10, Shift 33)]),
     (False, [(6, Shift 34)]),
     (False, [(13, Shift 17)]),
     (False, [(2, Reduce 7)])]"

definition action_tab_20 :: "action_row list" where
  "action_tab_20 =
    [(False, [(13, Shift 17)]),
     (False, [(2, Reduce 9)]),
     (False, [(12, Reduce 10), (13, Reduce 10)]),
     (False, [(11, Shift 25), (12, Reduce 11), (13, Reduce 11)])]"

definition action_tab_24 :: "action_row list" where
  "action_tab_24 =
    [(False, [(11, Reduce 16), (12, Reduce 16), (13, Reduce 16)]),
     (False, [(11, Reduce 21), (12, Reduce 21), (13, Reduce 21)]),
     (False, [(11, Shift 40), (14, Shift 44), (15, Shift 45), (16, Shift 46)]),
     (False, [(12, Reduce 14), (13, Reduce 14)])]"

definition action_tab_28 :: "action_row list" where
  "action_tab_28 =
    [(False, [(11, Shift 25), (12, Reduce 15), (13, Reduce 15)]),
     (False, [(2, Reduce 4)]),
     (False, [(13, Reduce 23)]),
     (False, [(10, Shift 33), (13, Reduce 22)])]"

definition action_tab_32 :: "action_row list" where
  "action_tab_32 =
    [(False, [(10, Reduce 18), (13, Reduce 18)]),
     (False, [(10, Reduce 20), (13, Reduce 20)]),
     (False, [(6, Shift 48), (7, Shift 50), (11, Shift 40), (14, Shift 44), (15, Shift 45),
         (16, Shift 46)]),
     (False, [(2, Reduce 6)])]"

definition action_tab_36 :: "action_row list" where
  "action_tab_36 =
    [(False, [(2, Reduce 8)]),
     (False, [(11, Reduce 17), (12, Reduce 17), (13, Reduce 17)]),
     (False, [(7, Shift 57), (8, Shift 58)]),
     (False, [(11, Reduce 33), (14, Reduce 33), (16, Reduce 33), (19, Reduce 33),
         (20, Reduce 33)])]"

definition action_tab_40 :: "action_row list" where
  "action_tab_40 =
    [(False, [(11, Reduce 21), (14, Reduce 21), (16, Reduce 21), (19, Reduce 21),
         (20, Reduce 21)]),
     (False, [(7, Reduce 30), (8, Reduce 30)]),
     (False, [(11, Shift 60), (14, Shift 62), (16, Shift 63), (19, Shift 67), (20, Shift 68)]),
     (False, [(11, Reduce 34), (14, Reduce 34), (16, Reduce 34), (19, Reduce 34),
         (20, Reduce 34)])]"

definition action_tab_44 :: "action_row list" where
  "action_tab_44 =
    [(False, [(11, Reduce 35), (14, Reduce 35), (16, Reduce 35), (19, Reduce 35),
         (20, Reduce 35)]),
     (False, [(11, Reduce 36), (14, Reduce 36), (16, Reduce 36), (19, Reduce 36),
         (20, Reduce 36)]),
     (False, [(11, Reduce 37), (14, Reduce 37), (16, Reduce 37), (19, Reduce 37),
         (20, Reduce 37)]),
     (False, [(10, Reduce 19), (13, Reduce 19)])]"

definition action_tab_48 :: "action_row list" where
  "action_tab_48 =
    [(False, [(6, Shift 69), (11, Shift 40), (14, Shift 44), (15, Shift 45), (16, Shift 46)]),
     (False, [(6, Shift 48), (7, Shift 74), (8, Shift 75)]),
     (False, [(2, Reduce 24)]),
     (False, [(6, Shift 48), (7, Shift 77)])]"

definition action_tab_52 :: "action_row list" where
  "action_tab_52 =
    [(False, [(6, Reduce 30), (7, Reduce 30), (8, Reduce 30)]),
     (False, [(11, Shift 60), (14, Shift 62), (16, Shift 63), (19, Shift 67), (20, Shift 68)]),
     (False, [(6, Reduce 52), (7, Reduce 52)]),
     (False, [(6, Reduce 57), (7, Reduce 57), (8, Shift 80), (11, Reduce 57), (14, Reduce 57),
         (15, Reduce 57), (16, Reduce 57), (25, Shift 82)])]"

definition action_tab_56 :: "action_row list" where
  "action_tab_56 =
    [(False, [(6, Reduce 58), (7, Reduce 58), (8, Reduce 58), (11, Reduce 58), (14, Reduce 58),
         (15, Reduce 58), (16, Reduce 58), (25, Reduce 58)]),
     (False, [(12, Reduce 12), (13, Reduce 12)]),
     (False, [(7, Shift 83), (11, Shift 40), (14, Shift 44), (15, Shift 45), (16, Shift 46)]),
     (False, [(11, Reduce 40), (14, Reduce 40), (15, Reduce 40), (16, Reduce 40),
         (17, Reduce 40)])]"

definition action_tab_60 :: "action_row list" where
  "action_tab_60 =
    [(False, [(11, Reduce 21), (14, Reduce 21), (15, Reduce 21), (16, Reduce 21),
         (17, Reduce 21)]),
     (False, [(11, Shift 86), (14, Shift 89), (15, Shift 90), (16, Shift 91), (17, Shift 92)]),
     (False, [(4, Reduce 45), (11, Reduce 45), (14, Reduce 45), (15, Reduce 45), (16, Reduce 45),
         (17, Reduce 45), (18, Reduce 45), (22, Reduce 45), (23, Reduce 45)]),
     (False, [(4, Reduce 47), (11, Reduce 47), (14, Reduce 47), (15, Reduce 47), (16, Reduce 47),
         (17, Reduce 47), (18, Reduce 47), (22, Reduce 47), (23, Reduce 47)])]"

definition action_tab_64 :: "action_row list" where
  "action_tab_64 =
    [(False, [(11, Reduce 38), (14, Reduce 38), (15, Reduce 38), (16, Reduce 38), (17, Reduce 38),
         (18, Shift 93)]),
     (False, [(11, Reduce 41), (14, Reduce 41), (15, Reduce 41), (16, Reduce 41), (17, Reduce 41),
         (18, Reduce 41)]),
     (False, [(4, Shift 94), (11, Reduce 44), (14, Reduce 44), (15, Reduce 44), (16, Reduce 44),
         (17, Reduce 44), (18, Reduce 44), (22, Shift 96), (23, Shift 97)]),
     (False, [(4, Reduce 46), (11, Reduce 46), (14, Reduce 46), (15, Reduce 46), (16, Reduce 46),
         (17, Reduce 46), (18, Reduce 46), (22, Reduce 46), (23, Reduce 46)])]"

definition action_tab_68 :: "action_row list" where
  "action_tab_68 =
    [(False, [(11, Shift 99), (14, Shift 101), (16, Shift 102), (19, Shift 106),
         (20, Shift 107)]),
     (False, [(6, Shift 69), (11, Shift 40), (14, Shift 44), (15, Shift 45), (16, Shift 46)]),
     (False, [(6, Reduce 61), (7, Reduce 61), (8, Shift 109)]),
     (False, [(8, Shift 110), (25, Shift 111)])]"

definition action_tab_72 :: "action_row list" where
  "action_tab_72 =
    [(False, [(8, Reduce 58), (25, Reduce 58)]),
     (False, [(6, Shift 69), (7, Reduce 57), (8, Shift 112)]),
     (False, [(2, Reduce 25)]),
     (False, [(6, Shift 48), (7, Shift 115), (11, Shift 40), (14, Shift 44), (15, Shift 45),
         (16, Shift 46)])]"

definition action_tab_76 :: "action_row list" where
  "action_tab_76 =
    [(False, [(6, Shift 48), (7, Shift 118)]),
     (False, [(2, Reduce 29)]),
     (False, [(6, Reduce 53), (7, Reduce 53)]),
     (False, [(11, Shift 120), (14, Shift 123), (15, Shift 124), (16, Shift 125),
         (17, Shift 92)])]"

definition action_tab_80 :: "action_row list" where
  "action_tab_80 =
    [(False, [(6, Reduce 56), (7, Reduce 56), (11, Reduce 56), (14, Reduce 56), (15, Reduce 56),
         (16, Reduce 56)]),
     (False, [(6, Reduce 55), (7, Reduce 55), (11, Shift 40), (14, Shift 44), (15, Shift 45),
         (16, Shift 46)]),
     (False, [(6, Shift 48)]),
     (False, [(12, Reduce 13), (13, Reduce 13)])]"

definition action_tab_84 :: "action_row list" where
  "action_tab_84 =
    [(False, [(7, Reduce 31), (8, Reduce 31)]),
     (False, [(7, Reduce 33), (8, Reduce 33)]),
     (False, [(7, Reduce 21), (8, Reduce 21)]),
     (False, [(7, Reduce 32), (8, Reduce 32)])]"

definition action_tab_88 :: "action_row list" where
  "action_tab_88 =
    [(False, [(7, Reduce 34), (8, Reduce 34)]),
     (False, [(7, Reduce 35), (8, Reduce 35)]),
     (False, [(7, Reduce 36), (8, Reduce 36)]),
     (False, [(7, Reduce 37), (8, Reduce 37)])]"

definition action_tab_92 :: "action_row list" where
  "action_tab_92 =
    [(False, [(14, Shift 62), (16, Shift 63), (19, Shift 67), (20, Shift 68)]),
     (False, [(14, Shift 62), (16, Shift 63), (19, Shift 67), (20, Shift 68)]),
     (False, [(11, Reduce 50), (14, Reduce 50), (15, Reduce 50), (16, Reduce 50), (17, Reduce 50),
         (18, Reduce 50)]),
     (False, [(11, Reduce 43), (14, Reduce 43), (15, Reduce 43), (16, Reduce 43), (17, Reduce 43),
         (18, Reduce 43)])]"

definition action_tab_96 :: "action_row list" where
  "action_tab_96 =
    [(False, [(11, Reduce 49), (14, Reduce 49), (15, Reduce 49), (16, Reduce 49), (17, Reduce 49),
         (18, Reduce 49)]),
     (False, [(11, Reduce 51), (14, Reduce 51), (15, Reduce 51), (16, Reduce 51), (17, Reduce 51),
         (18, Reduce 51)]),
     (False, [(17, Reduce 40), (21, Reduce 40)]),
     (False, [(17, Reduce 21), (21, Reduce 21)])]"

definition action_tab_100 :: "action_row list" where
  "action_tab_100 =
    [(False, [(17, Shift 130), (21, Shift 131)]),
     (False, [(4, Reduce 45), (17, Reduce 45), (18, Reduce 45), (21, Reduce 45), (22, Reduce 45),
         (23, Reduce 45)]),
     (False, [(4, Reduce 47), (17, Reduce 47), (18, Reduce 47), (21, Reduce 47), (22, Reduce 47),
         (23, Reduce 47)]),
     (False, [(17, Reduce 38), (18, Shift 132), (21, Reduce 38)])]"

definition action_tab_104 :: "action_row list" where
  "action_tab_104 =
    [(False, [(17, Reduce 41), (18, Reduce 41), (21, Reduce 41)]),
     (False, [(4, Shift 133), (17, Reduce 44), (18, Reduce 44), (21, Reduce 44), (22, Shift 135),
         (23, Shift 136)]),
     (False, [(4, Reduce 46), (17, Reduce 46), (18, Reduce 46), (21, Reduce 46), (22, Reduce 46),
         (23, Reduce 46)]),
     (False, [(11, Shift 99), (14, Shift 101), (16, Shift 102), (19, Shift 106),
         (20, Shift 107)])]"

definition action_tab_108 :: "action_row list" where
  "action_tab_108 =
    [(False, [(6, Shift 69), (7, Reduce 57), (8, Shift 112)]),
     (False, [(11, Shift 40), (14, Shift 44), (15, Shift 45), (16, Shift 46)]),
     (False, [(11, Shift 40), (14, Shift 44), (15, Shift 45), (16, Shift 46)]),
     (False, [(6, Shift 69)])]"

definition action_tab_112 :: "action_row list" where
  "action_tab_112 =
    [(False, [(7, Reduce 56)]),
     (False, [(8, Shift 141), (25, Shift 111)]),
     (False, [(7, Shift 142)]),
     (False, [(2, Reduce 26)])]"

definition action_tab_116 :: "action_row list" where
  "action_tab_116 =
    [(False, [(6, Shift 48), (7, Shift 143)]),
     (False, [(6, Reduce 31), (7, Reduce 31), (8, Reduce 31)]),
     (False, [(2, Reduce 27)]),
     (False, [(6, Reduce 33), (7, Reduce 33), (8, Reduce 33)])]"

definition action_tab_120 :: "action_row list" where
  "action_tab_120 =
    [(False, [(6, Reduce 21), (7, Reduce 21), (8, Reduce 21)]),
     (False, [(6, Reduce 32), (7, Reduce 32), (8, Reduce 32)]),
     (False, [(6, Reduce 34), (7, Reduce 34), (8, Reduce 34)]),
     (False, [(6, Reduce 35), (7, Reduce 35), (8, Reduce 35)])]"

definition action_tab_124 :: "action_row list" where
  "action_tab_124 =
    [(False, [(6, Reduce 36), (7, Reduce 36), (8, Reduce 36)]),
     (False, [(6, Reduce 37), (7, Reduce 37), (8, Reduce 37)]),
     (False, [(6, Reduce 57), (7, Reduce 57), (8, Shift 144)]),
     (False, [(6, Reduce 59), (7, Reduce 59), (8, Reduce 59), (11, Reduce 59), (14, Reduce 59),
         (15, Reduce 59), (16, Reduce 59), (25, Reduce 59)])]"

definition action_tab_128 :: "action_row list" where
  "action_tab_128 =
    [(False, [(11, Reduce 39), (14, Reduce 39), (15, Reduce 39), (16, Reduce 39), (17, Reduce 39),
         (18, Shift 93)]),
     (False, [(11, Reduce 42), (14, Reduce 42), (15, Reduce 42), (16, Reduce 42), (17, Reduce 42),
         (18, Reduce 42)]),
     (False, [(14, Shift 101), (16, Shift 102), (19, Shift 106), (20, Shift 107)]),
     (False, [(4, Reduce 48), (11, Reduce 48), (14, Reduce 48), (15, Reduce 48), (16, Reduce 48),
         (17, Reduce 48), (18, Reduce 48), (22, Reduce 48), (23, Reduce 48)])]"

definition action_tab_132 :: "action_row list" where
  "action_tab_132 =
    [(False, [(14, Shift 101), (16, Shift 102), (19, Shift 106), (20, Shift 107)]),
     (False, [(17, Reduce 50), (18, Reduce 50), (21, Reduce 50)]),
     (False, [(17, Reduce 43), (18, Reduce 43), (21, Reduce 43)]),
     (False, [(17, Reduce 49), (18, Reduce 49), (21, Reduce 49)])]"

definition action_tab_136 :: "action_row list" where
  "action_tab_136 =
    [(False, [(17, Reduce 51), (18, Reduce 51), (21, Reduce 51)]),
     (False, [(17, Shift 130), (21, Shift 148)]),
     (False, [(7, Shift 149)]),
     (False, [(6, Reduce 62), (7, Reduce 62), (8, Shift 109)])]"

definition action_tab_140 :: "action_row list" where
  "action_tab_140 =
    [(False, [(8, Reduce 59), (25, Reduce 59)]),
     (False, [(11, Shift 40), (14, Shift 44), (15, Shift 45), (16, Shift 46)]),
     (False, [(6, Reduce 60), (7, Reduce 60), (8, Reduce 60), (11, Reduce 60), (14, Reduce 60),
         (15, Reduce 60), (16, Reduce 60), (25, Reduce 60)]),
     (False, [(2, Reduce 28)])]"

definition action_tab_144 :: "action_row list" where
  "action_tab_144 =
    [(False, [(6, Reduce 56), (7, Reduce 56), (11, Shift 40), (14, Shift 44), (15, Shift 45),
         (16, Shift 46)]),
     (False, [(6, Reduce 54), (7, Reduce 54)]),
     (False, [(17, Reduce 39), (18, Shift 132), (21, Reduce 39)]),
     (False, [(17, Reduce 42), (18, Reduce 42), (21, Reduce 42)])]"

definition action_tab_148 :: "action_row list" where
  "action_tab_148 =
    [(False, [(4, Reduce 48), (17, Reduce 48), (18, Reduce 48), (21, Reduce 48), (22, Reduce 48),
         (23, Reduce 48)]),
     (False, [(8, Reduce 60), (25, Reduce 60)]),
     (False, [(6, Reduce 63), (7, Reduce 63), (8, Shift 109)])]"

definition action_tab :: "action_row list" where
  "action_tab =
    action_tab_0 @ action_tab_4 @ action_tab_8 @ action_tab_12 @ action_tab_16 @ action_tab_20 @
    action_tab_24 @ action_tab_28 @ action_tab_32 @ action_tab_36 @ action_tab_40 @ action_tab_44 @
    action_tab_48 @ action_tab_52 @ action_tab_56 @ action_tab_60 @ action_tab_64 @ action_tab_68 @
    action_tab_72 @ action_tab_76 @ action_tab_80 @ action_tab_84 @ action_tab_88 @ action_tab_92 @
    action_tab_96 @ action_tab_100 @ action_tab_104 @ action_tab_108 @ action_tab_112 @ action_tab_116 @
    action_tab_120 @ action_tab_124 @ action_tab_128 @ action_tab_132 @ action_tab_136 @
    action_tab_140 @ action_tab_144 @ action_tab_148"

definition goto_tab_0 :: "goto_row list" where
  "goto_tab_0 = [[(1, 1), (2, 2), (3, 3), (4, 4), (5, 5), (6, 7), (7, 6)], [], [], []]"

definition goto_tab_4 :: "goto_row list" where
  "goto_tab_4 = [[], [(12, 14), (13, 15)], [(12, 18), (13, 19)], [(12, 20), (13, 21)]]"

definition goto_tab_8 :: "goto_row list" where
  "goto_tab_8 = [[(8, 23), (11, 24)], [], [(8, 28), (11, 24)], []]"

definition goto_tab_12 :: "goto_row list" where
  "goto_tab_12 = [[], [], [(13, 29)], []]"

definition goto_tab_16 :: "goto_row list" where
  "goto_tab_16 = [[(9, 31), (10, 32)], [], [(13, 35)], []]"

definition goto_tab_20 :: "goto_row list" where
  "goto_tab_20 = [[(13, 36)], [], [], [(11, 37)]]"

definition goto_tab_24 :: "goto_row list" where
  "goto_tab_24 = [[], [], [(11, 39), (14, 38), (15, 41), (16, 42), (17, 43)], []]"

definition goto_tab_28 :: "goto_row list" where
  "goto_tab_28 = [[(11, 37)], [], [], [(10, 47)]]"

definition goto_tab_32 :: "goto_row list" where
  "goto_tab_32 = [[], [],
    [(11, 39), (14, 49), (15, 52), (16, 53), (17, 43), (23, 51), (24, 54), (26, 55), (27, 56)],
    []]"

definition goto_tab_36 :: "goto_row list" where
  "goto_tab_36 = [[], [], [], []]"

definition goto_tab_40 :: "goto_row list" where
  "goto_tab_40 = [[], [], [(11, 59), (18, 61), (19, 64), (20, 65), (21, 66)], []]"

definition goto_tab_44 :: "goto_row list" where
  "goto_tab_44 = [[], [], [], []]"

definition goto_tab_48 :: "goto_row list" where
  "goto_tab_48 = [
    [(11, 39), (14, 70), (15, 52), (16, 53), (17, 43), (26, 71), (27, 72), (28, 73)],
    [(23, 76), (24, 54), (26, 55), (27, 56)], [], [(24, 78), (26, 55), (27, 56)]]"

definition goto_tab_52 :: "goto_row list" where
  "goto_tab_52 = [[], [(11, 59), (18, 79), (19, 64), (20, 65), (21, 66)], [], [(25, 81)]]"

definition goto_tab_56 :: "goto_row list" where
  "goto_tab_56 = [[], [], [(11, 39), (15, 84), (16, 42), (17, 43)], []]"

definition goto_tab_60 :: "goto_row list" where
  "goto_tab_60 = [[], [(11, 85), (16, 87), (17, 88)], [], []]"

definition goto_tab_64 :: "goto_row list" where
  "goto_tab_64 = [[], [], [(22, 95)], []]"

definition goto_tab_68 :: "goto_row list" where
  "goto_tab_68 = [[(11, 98), (18, 100), (19, 103), (20, 104), (21, 105)],
    [(11, 39), (14, 70), (15, 52), (16, 53), (17, 43), (26, 71), (27, 72), (28, 108)], [], []]"

definition goto_tab_72 :: "goto_row list" where
  "goto_tab_72 = [[], [(25, 114), (26, 113), (27, 72)], [],
    [(11, 39), (15, 117), (16, 53), (17, 43), (23, 116), (24, 54), (26, 55), (27, 56)]]"

definition goto_tab_76 :: "goto_row list" where
  "goto_tab_76 = [[(24, 78), (26, 55), (27, 56)], [], [], [(11, 119), (16, 121), (17, 122)]]"

definition goto_tab_80 :: "goto_row list" where
  "goto_tab_80 = [[], [(11, 39), (14, 126), (15, 52), (16, 53), (17, 43)], [(27, 127)], []]"

definition goto_tab_84 :: "goto_row list" where
  "goto_tab_84 = [[], [], [], []]"

definition goto_tab_88 :: "goto_row list" where
  "goto_tab_88 = [[], [], [], []]"

definition goto_tab_92 :: "goto_row list" where
  "goto_tab_92 = [[(19, 128), (20, 65), (21, 66)], [(20, 129), (21, 66)], [], []]"

definition goto_tab_96 :: "goto_row list" where
  "goto_tab_96 = [[], [], [], []]"

definition goto_tab_100 :: "goto_row list" where
  "goto_tab_100 = [[], [], [], []]"

definition goto_tab_104 :: "goto_row list" where
  "goto_tab_104 = [[], [(22, 134)], [], [(11, 98), (18, 137), (19, 103), (20, 104), (21, 105)]]"

definition goto_tab_108 :: "goto_row list" where
  "goto_tab_108 = [[(25, 138), (26, 113), (27, 72)], [(11, 39), (15, 117), (16, 53), (17, 43)],
    [(11, 39), (14, 139), (15, 52), (16, 53), (17, 43)], [(27, 140)]]"

definition goto_tab_112 :: "goto_row list" where
  "goto_tab_112 = [[], [], [], []]"

definition goto_tab_116 :: "goto_row list" where
  "goto_tab_116 = [[(24, 78), (26, 55), (27, 56)], [], [], []]"

definition goto_tab_120 :: "goto_row list" where
  "goto_tab_120 = [[], [], [], []]"

definition goto_tab_124 :: "goto_row list" where
  "goto_tab_124 = [[], [], [(25, 145)], []]"

definition goto_tab_128 :: "goto_row list" where
  "goto_tab_128 = [[], [], [(19, 146), (20, 104), (21, 105)], []]"

definition goto_tab_132 :: "goto_row list" where
  "goto_tab_132 = [[(20, 147), (21, 105)], [], [], []]"

definition goto_tab_136 :: "goto_row list" where
  "goto_tab_136 = [[], [], [], []]"

definition goto_tab_140 :: "goto_row list" where
  "goto_tab_140 = [[], [(11, 39), (14, 150), (15, 52), (16, 53), (17, 43)], [], []]"

definition goto_tab_144 :: "goto_row list" where
  "goto_tab_144 = [[(11, 39), (15, 117), (16, 53), (17, 43)], [], [], []]"

definition goto_tab_148 :: "goto_row list" where
  "goto_tab_148 = [[], [], []]"

definition goto_tab :: "goto_row list" where
  "goto_tab =
    goto_tab_0 @ goto_tab_4 @ goto_tab_8 @ goto_tab_12 @ goto_tab_16 @ goto_tab_20 @ goto_tab_24 @
    goto_tab_28 @ goto_tab_32 @ goto_tab_36 @ goto_tab_40 @ goto_tab_44 @ goto_tab_48 @ goto_tab_52 @
    goto_tab_56 @ goto_tab_60 @ goto_tab_64 @ goto_tab_68 @ goto_tab_72 @ goto_tab_76 @ goto_tab_80 @
    goto_tab_84 @ goto_tab_88 @ goto_tab_92 @ goto_tab_96 @ goto_tab_100 @ goto_tab_104 @ goto_tab_108 @
    goto_tab_112 @ goto_tab_116 @ goto_tab_120 @ goto_tab_124 @ goto_tab_128 @ goto_tab_132 @
    goto_tab_136 @ goto_tab_140 @ goto_tab_144 @ goto_tab_148"

text \<open>Looking a row up without building the whole table, for evaluation.\<close>

lemma action_tab_lengths [simp]:
  "length action_tab_0 = 4"
  "length action_tab_4 = 4"
  "length action_tab_8 = 4"
  "length action_tab_12 = 4"
  "length action_tab_16 = 4"
  "length action_tab_20 = 4"
  "length action_tab_24 = 4"
  "length action_tab_28 = 4"
  "length action_tab_32 = 4"
  "length action_tab_36 = 4"
  "length action_tab_40 = 4"
  "length action_tab_44 = 4"
  "length action_tab_48 = 4"
  "length action_tab_52 = 4"
  "length action_tab_56 = 4"
  "length action_tab_60 = 4"
  "length action_tab_64 = 4"
  "length action_tab_68 = 4"
  "length action_tab_72 = 4"
  "length action_tab_76 = 4"
  "length action_tab_80 = 4"
  "length action_tab_84 = 4"
  "length action_tab_88 = 4"
  "length action_tab_92 = 4"
  "length action_tab_96 = 4"
  "length action_tab_100 = 4"
  "length action_tab_104 = 4"
  "length action_tab_108 = 4"
  "length action_tab_112 = 4"
  "length action_tab_116 = 4"
  "length action_tab_120 = 4"
  "length action_tab_124 = 4"
  "length action_tab_128 = 4"
  "length action_tab_132 = 4"
  "length action_tab_136 = 4"
  "length action_tab_140 = 4"
  "length action_tab_144 = 4"
  by (simp_all add: action_tab_0_def action_tab_4_def action_tab_8_def action_tab_12_def action_tab_16_def
    action_tab_20_def action_tab_24_def action_tab_28_def action_tab_32_def
    action_tab_36_def action_tab_40_def action_tab_44_def action_tab_48_def
    action_tab_52_def action_tab_56_def action_tab_60_def action_tab_64_def
    action_tab_68_def action_tab_72_def action_tab_76_def action_tab_80_def
    action_tab_84_def action_tab_88_def action_tab_92_def action_tab_96_def
    action_tab_100_def action_tab_104_def action_tab_108_def action_tab_112_def
    action_tab_116_def action_tab_120_def action_tab_124_def action_tab_128_def
    action_tab_132_def action_tab_136_def action_tab_140_def action_tab_144_def)

lemma action_tab_at [code_unfold]:
  "action_tab ! s =
    (if s < 4 then action_tab_0 ! s
     else if s - 4 < 4 then action_tab_4 ! (s - 4)
     else if s - 8 < 4 then action_tab_8 ! (s - 8)
     else if s - 12 < 4 then action_tab_12 ! (s - 12)
     else if s - 16 < 4 then action_tab_16 ! (s - 16)
     else if s - 20 < 4 then action_tab_20 ! (s - 20)
     else if s - 24 < 4 then action_tab_24 ! (s - 24)
     else if s - 28 < 4 then action_tab_28 ! (s - 28)
     else if s - 32 < 4 then action_tab_32 ! (s - 32)
     else if s - 36 < 4 then action_tab_36 ! (s - 36)
     else if s - 40 < 4 then action_tab_40 ! (s - 40)
     else if s - 44 < 4 then action_tab_44 ! (s - 44)
     else if s - 48 < 4 then action_tab_48 ! (s - 48)
     else if s - 52 < 4 then action_tab_52 ! (s - 52)
     else if s - 56 < 4 then action_tab_56 ! (s - 56)
     else if s - 60 < 4 then action_tab_60 ! (s - 60)
     else if s - 64 < 4 then action_tab_64 ! (s - 64)
     else if s - 68 < 4 then action_tab_68 ! (s - 68)
     else if s - 72 < 4 then action_tab_72 ! (s - 72)
     else if s - 76 < 4 then action_tab_76 ! (s - 76)
     else if s - 80 < 4 then action_tab_80 ! (s - 80)
     else if s - 84 < 4 then action_tab_84 ! (s - 84)
     else if s - 88 < 4 then action_tab_88 ! (s - 88)
     else if s - 92 < 4 then action_tab_92 ! (s - 92)
     else if s - 96 < 4 then action_tab_96 ! (s - 96)
     else if s - 100 < 4 then action_tab_100 ! (s - 100)
     else if s - 104 < 4 then action_tab_104 ! (s - 104)
     else if s - 108 < 4 then action_tab_108 ! (s - 108)
     else if s - 112 < 4 then action_tab_112 ! (s - 112)
     else if s - 116 < 4 then action_tab_116 ! (s - 116)
     else if s - 120 < 4 then action_tab_120 ! (s - 120)
     else if s - 124 < 4 then action_tab_124 ! (s - 124)
     else if s - 128 < 4 then action_tab_128 ! (s - 128)
     else if s - 132 < 4 then action_tab_132 ! (s - 132)
     else if s - 136 < 4 then action_tab_136 ! (s - 136)
     else if s - 140 < 4 then action_tab_140 ! (s - 140)
     else if s - 144 < 4 then action_tab_144 ! (s - 144)
     else action_tab_148 ! (s - 148))"
  by (simp only: action_tab_def nth_append action_tab_lengths diff_diff_left numeral_plus_numeral add_num_simps)

lemma goto_tab_lengths [simp]:
  "length goto_tab_0 = 4"
  "length goto_tab_4 = 4"
  "length goto_tab_8 = 4"
  "length goto_tab_12 = 4"
  "length goto_tab_16 = 4"
  "length goto_tab_20 = 4"
  "length goto_tab_24 = 4"
  "length goto_tab_28 = 4"
  "length goto_tab_32 = 4"
  "length goto_tab_36 = 4"
  "length goto_tab_40 = 4"
  "length goto_tab_44 = 4"
  "length goto_tab_48 = 4"
  "length goto_tab_52 = 4"
  "length goto_tab_56 = 4"
  "length goto_tab_60 = 4"
  "length goto_tab_64 = 4"
  "length goto_tab_68 = 4"
  "length goto_tab_72 = 4"
  "length goto_tab_76 = 4"
  "length goto_tab_80 = 4"
  "length goto_tab_84 = 4"
  "length goto_tab_88 = 4"
  "length goto_tab_92 = 4"
  "length goto_tab_96 = 4"
  "length goto_tab_100 = 4"
  "length goto_tab_104 = 4"
  "length goto_tab_108 = 4"
  "length goto_tab_112 = 4"
  "length goto_tab_116 = 4"
  "length goto_tab_120 = 4"
  "length goto_tab_124 = 4"
  "length goto_tab_128 = 4"
  "length goto_tab_132 = 4"
  "length goto_tab_136 = 4"
  "length goto_tab_140 = 4"
  "length goto_tab_144 = 4"
  by (simp_all add: goto_tab_0_def goto_tab_4_def goto_tab_8_def goto_tab_12_def goto_tab_16_def
    goto_tab_20_def goto_tab_24_def goto_tab_28_def goto_tab_32_def goto_tab_36_def
    goto_tab_40_def goto_tab_44_def goto_tab_48_def goto_tab_52_def goto_tab_56_def
    goto_tab_60_def goto_tab_64_def goto_tab_68_def goto_tab_72_def goto_tab_76_def
    goto_tab_80_def goto_tab_84_def goto_tab_88_def goto_tab_92_def goto_tab_96_def
    goto_tab_100_def goto_tab_104_def goto_tab_108_def goto_tab_112_def goto_tab_116_def
    goto_tab_120_def goto_tab_124_def goto_tab_128_def goto_tab_132_def goto_tab_136_def
    goto_tab_140_def goto_tab_144_def)

lemma goto_tab_at [code_unfold]:
  "goto_tab ! s =
    (if s < 4 then goto_tab_0 ! s
     else if s - 4 < 4 then goto_tab_4 ! (s - 4)
     else if s - 8 < 4 then goto_tab_8 ! (s - 8)
     else if s - 12 < 4 then goto_tab_12 ! (s - 12)
     else if s - 16 < 4 then goto_tab_16 ! (s - 16)
     else if s - 20 < 4 then goto_tab_20 ! (s - 20)
     else if s - 24 < 4 then goto_tab_24 ! (s - 24)
     else if s - 28 < 4 then goto_tab_28 ! (s - 28)
     else if s - 32 < 4 then goto_tab_32 ! (s - 32)
     else if s - 36 < 4 then goto_tab_36 ! (s - 36)
     else if s - 40 < 4 then goto_tab_40 ! (s - 40)
     else if s - 44 < 4 then goto_tab_44 ! (s - 44)
     else if s - 48 < 4 then goto_tab_48 ! (s - 48)
     else if s - 52 < 4 then goto_tab_52 ! (s - 52)
     else if s - 56 < 4 then goto_tab_56 ! (s - 56)
     else if s - 60 < 4 then goto_tab_60 ! (s - 60)
     else if s - 64 < 4 then goto_tab_64 ! (s - 64)
     else if s - 68 < 4 then goto_tab_68 ! (s - 68)
     else if s - 72 < 4 then goto_tab_72 ! (s - 72)
     else if s - 76 < 4 then goto_tab_76 ! (s - 76)
     else if s - 80 < 4 then goto_tab_80 ! (s - 80)
     else if s - 84 < 4 then goto_tab_84 ! (s - 84)
     else if s - 88 < 4 then goto_tab_88 ! (s - 88)
     else if s - 92 < 4 then goto_tab_92 ! (s - 92)
     else if s - 96 < 4 then goto_tab_96 ! (s - 96)
     else if s - 100 < 4 then goto_tab_100 ! (s - 100)
     else if s - 104 < 4 then goto_tab_104 ! (s - 104)
     else if s - 108 < 4 then goto_tab_108 ! (s - 108)
     else if s - 112 < 4 then goto_tab_112 ! (s - 112)
     else if s - 116 < 4 then goto_tab_116 ! (s - 116)
     else if s - 120 < 4 then goto_tab_120 ! (s - 120)
     else if s - 124 < 4 then goto_tab_124 ! (s - 124)
     else if s - 128 < 4 then goto_tab_128 ! (s - 128)
     else if s - 132 < 4 then goto_tab_132 ! (s - 132)
     else if s - 136 < 4 then goto_tab_136 ! (s - 136)
     else if s - 140 < 4 then goto_tab_140 ! (s - 140)
     else if s - 144 < 4 then goto_tab_144 ! (s - 144)
     else goto_tab_148 ! (s - 148))"
  by (simp only: goto_tab_def nth_append goto_tab_lengths diff_diff_left numeral_plus_numeral add_num_simps)

end
