(* ===== verification/Parser.thy ===== *)
theory Parser
  imports ParseTables Lexer Ast
begin

text \<open>
  The LR(1) parser of the query language (lang/parser/parser.go), the productions with their actions
  (lang/parser/productionstable.go) and \<open>Parse\<close> (lang/parser.go). An attribute is an empty interface in
  Go, here a sum of the types the actions return; a failed type assertion panics and is \<open>None\<close>.
\<close>

section \<open>Attributes\<close>

datatype attrib =
    ANil
  | ATok token
  | AStr string
  | AStrs "string list"
  | AUri uri
  | APattern pattern
  | APath path_pattern
  | APaths "path_pattern list"
  | ATriple qtriple
  | ATriples "qtriple list"
  | ASelect select_clause
  | AFrom from_clause
  | AInsert "qtriple list"
  | AWhere where_clause
  | AGroup graph_group
  | AQuery query

text \<open>Type assertions.\<close>

fun as_tok where "as_tok (ATok x) = Some x" | "as_tok _ = None"
fun as_str where "as_str (AStr x) = Some x" | "as_str _ = None"
fun as_strs where "as_strs (AStrs x) = Some x" | "as_strs _ = None"
fun as_uri where "as_uri (AUri x) = Some x" | "as_uri _ = None"
fun as_pattern where "as_pattern (APattern x) = Some x" | "as_pattern _ = None"
fun as_path where "as_path (APath x) = Some x" | "as_path _ = None"
fun as_paths where "as_paths (APaths x) = Some x" | "as_paths _ = None"
fun as_triple where "as_triple (ATriple x) = Some x" | "as_triple _ = None"
fun as_triples where "as_triples (ATriples x) = Some x" | "as_triples _ = None"
fun as_select where "as_select (ASelect x) = Some x" | "as_select _ = None"
fun as_from where "as_from (AFrom x) = Some x" | "as_from _ = None"
fun as_insert where "as_insert (AInsert x) = Some x" | "as_insert _ = None"
fun as_where where "as_where (AWhere x) = Some x" | "as_where _ = None"
fun as_group where "as_group (AGroup x) = Some x" | "as_group _ = None"
fun as_query where "as_query (AQuery x) = Some x" | "as_query _ = None"

section \<open>The actions on attributes\<close>

text \<open>The functions of lang/ast/ast.go as the parser calls them, with their type assertions.\<close>

definition assert1 :: "('a \<Rightarrow> 'b option) \<Rightarrow> 'a \<Rightarrow> ('b \<Rightarrow> 'c) \<Rightarrow> 'c option" where
  "assert1 f a k = map_option k (f a)"

definition assert2 ::
    "('a \<Rightarrow> 'b option) \<Rightarrow> 'a \<Rightarrow> ('c \<Rightarrow> 'd option) \<Rightarrow> 'c \<Rightarrow> ('b \<Rightarrow> 'd \<Rightarrow> 'e) \<Rightarrow> 'e option" where
  "assert2 f a g b k = Option.bind (f a) (\<lambda>x. assert1 g b (k x))"

definition assert3 where
  "assert3 f a g b h c k = Option.bind (f a) (\<lambda>x. assert2 g b h c (k x))"

type_synonym varorder = "string list \<Rightarrow> string list"

definition NewQuery :: "varorder \<Rightarrow> attrib \<Rightarrow> attrib \<Rightarrow> bool \<Rightarrow> attrib option" where
  "NewQuery ord selectclause whereclause count =
     assert2 as_select selectclause as_where whereclause (\<lambda>s w. AQuery (new_query ord s w count))"

definition NewInsertQuery :: "varorder \<Rightarrow> attrib \<Rightarrow> attrib \<Rightarrow> bool \<Rightarrow> attrib option" where
  "NewInsertQuery ord insertclause whereclause count =
     assert2 as_insert insertclause as_where whereclause (\<lambda>i w. AQuery (new_insert_query ord i w count))"

definition NewQueryMulti :: "varorder \<Rightarrow> attrib \<Rightarrow> attrib \<Rightarrow> attrib \<Rightarrow> bool \<Rightarrow> attrib option" where
  "NewQueryMulti ord selectclause fromclause whereclause count =
     assert3 as_select selectclause as_from fromclause as_where whereclause
       (\<lambda>s f w. AQuery (new_query_multi ord s f w count))"

definition NewInsertQueryMulti :: "varorder \<Rightarrow> attrib \<Rightarrow> attrib \<Rightarrow> attrib \<Rightarrow> bool \<Rightarrow> attrib option" where
  "NewInsertQueryMulti ord insertclause fromclause whereclause count =
     assert3 as_insert insertclause as_from fromclause as_where whereclause
       (\<lambda>i f w. AQuery (new_insert_query_multi ord i f w count))"

definition NewAllSelectClause :: "attrib option" where
  "NewAllSelectClause = Some (ASelect new_all_select_clause)"

definition NewSelectClause :: "attrib \<Rightarrow> attrib option" where
  "NewSelectClause varlist = assert1 as_strs varlist (\<lambda>vs. ASelect (new_select_clause vs))"

definition NewInsertClause :: "attrib \<Rightarrow> attrib option" where
  "NewInsertClause triples = assert1 as_triples triples AInsert"

definition NewAllFromClause :: "attrib option" where
  "NewAllFromClause = Some (AFrom new_all_from_clause)"

definition NewFromClause :: "attrib \<Rightarrow> attrib option" where
  "NewFromClause dblist = assert1 as_strs dblist (\<lambda>dbs. AFrom (new_from_clause dbs))"

definition NewWhereClause :: "attrib \<Rightarrow> attrib option" where
  "NewWhereClause triples = assert1 as_triples triples (\<lambda>ts. AWhere (new_where_clause ts))"

definition NewWhereClauseWithGraphGroup :: "attrib \<Rightarrow> attrib \<Rightarrow> attrib option" where
  "NewWhereClauseWithGraphGroup triples grp =
     assert2 as_group grp as_triples triples
       (\<lambda>g ts. AWhere (new_where_clause_with_graph_group ts g))"

definition NewWhereClauseGraphGroup :: "attrib \<Rightarrow> attrib option" where
  "NewWhereClauseGraphGroup grp = assert1 as_group grp (\<lambda>g. AWhere (new_where_clause_graph_group g))"

definition GraphGroupFromTriples :: "attrib \<Rightarrow> attrib option" where
  "GraphGroupFromTriples triples = assert1 as_triples triples (\<lambda>ts. AGroup (graph_group_from_triples ts))"

definition GraphGroupUnion :: "attrib \<Rightarrow> attrib \<Rightarrow> attrib option" where
  "GraphGroupUnion left right = assert2 as_group left as_group right (\<lambda>l r. AGroup (graph_group_union l r))"

definition AddTriplesToGraphGroup :: "attrib \<Rightarrow> attrib \<Rightarrow> attrib option" where
  "AddTriplesToGraphGroup left triples =
     assert2 as_group left as_triples triples (\<lambda>l ts. AGroup (add_triples_to_graph_group l ts))"

definition MergeGraphGroups :: "attrib \<Rightarrow> attrib \<Rightarrow> attrib option" where
  "MergeGraphGroups left right = assert2 as_group left as_group right (\<lambda>l r. AGroup (merge_graph_groups l r))"

definition NewTriple :: "attrib \<Rightarrow> attrib \<Rightarrow> attrib \<Rightarrow> attrib option" where
  "NewTriple subject predicates object =
     assert3 as_uri subject as_paths predicates as_uri object (\<lambda>s p v. ATriple (new_qtriple s p v))"

definition NewTripleBlock :: "attrib \<Rightarrow> attrib option" where
  "NewTripleBlock triple = assert1 as_triple triple (\<lambda>t. ATriples (new_triple_block t))"

definition AppendTripleBlock :: "attrib \<Rightarrow> attrib \<Rightarrow> attrib option" where
  "AppendTripleBlock block triple =
     assert2 as_triples block as_triple triple (\<lambda>ts t. ATriples (append_triple_block ts t))"

definition NewURI :: "attrib \<Rightarrow> attrib option" where
  "NewURI v = assert1 as_str v (\<lambda>s. AUri (new_uri s))"

definition NewVarList :: "attrib \<Rightarrow> attrib option" where
  "NewVarList v = assert1 as_str v (\<lambda>s. AStrs (new_var_list s))"

definition AppendVar :: "attrib \<Rightarrow> attrib \<Rightarrow> attrib option" where
  "AppendVar varlist v = assert2 as_strs varlist as_str v (\<lambda>vs s. AStrs (append_var vs s))"

definition NewStringList :: "attrib \<Rightarrow> attrib option" where
  "NewStringList v = assert1 as_str v (\<lambda>s. AStrs (new_string_list s))"

definition AppendString :: "attrib \<Rightarrow> attrib \<Rightarrow> attrib option" where
  "AppendString strlist v = assert2 as_strs strlist as_str v (\<lambda>vs s. AStrs (append_string vs s))"

definition ParseString :: "attrib \<Rightarrow> attrib option" where
  "ParseString v = assert1 as_tok v (\<lambda>t. AStr (Lit t))"

definition ParseQuotedString :: "attrib \<Rightarrow> attrib option" where
  "ParseQuotedString v = assert1 as_tok v (\<lambda>t. AStr (Lit t))"

definition NewPathSequence :: "attrib \<Rightarrow> attrib option" where
  "NewPathSequence pred = assert1 as_path pred (\<lambda>p. APaths (new_path_sequence p))"

definition AppendPathSequence :: "attrib \<Rightarrow> attrib \<Rightarrow> attrib option" where
  "AppendPathSequence seq pred =
     assert2 as_paths seq as_path pred (\<lambda>ps p. APaths (append_path_sequence ps p))"

definition NewPathPattern :: "attrib \<Rightarrow> attrib option" where
  "NewPathPattern pred = assert1 as_tok pred (\<lambda>t. APath (new_path_pattern (Lit t)))"

definition AddPathMod :: "attrib \<Rightarrow> attrib \<Rightarrow> attrib option" where
  "AddPathMod pred md = assert2 as_path pred as_pattern md (\<lambda>p m. APath (add_path_mod p m))"

definition PathFromVar :: "attrib \<Rightarrow> attrib option" where
  "PathFromVar v = assert1 as_str v (\<lambda>s. APaths (path_from_var s))"

section \<open>The productions\<close>

text \<open>
  \<open>Rhs\<close> is the right-hand side that the entry's \<open>String\<close> shows: terminals by token type, nonterminals
  by their \<open>NTType\<close>. None of the actions returns an error.
\<close>

datatype symbol = T nat | N nat

record prod_entry =
  Id :: string
  NTType :: nat
  Index :: nat
  NumSymbols :: nat
  Rhs :: "symbol list"
  ReduceFunc :: "attrib list \<Rightarrow> attrib option"

definition arg :: "attrib list \<Rightarrow> nat \<Rightarrow> attrib option" where
  "arg X i = (if i < length X then Some (X ! i) else None)"

definition args1 where "args1 X i f = Option.bind (arg X i) f"
definition args2 where "args2 X i j f = Option.bind (arg X i) (\<lambda>a. args1 X j (f a))"
definition args3 where "args3 X i j k f = Option.bind (arg X i) (\<lambda>a. args2 X j k (f a))"

definition productions_0 :: "(string list \<Rightarrow> string list) \<Rightarrow> prod_entry list" where
  "productions_0 ord =
    [\<lparr>Id = ''S'' @ [CHR 0x27], NTType = 0, Index = 0, NumSymbols = 1, Rhs = [N 1],
      ReduceFunc = \<lambda>X. arg X 0\<rparr>,
     \<lparr>Id = ''QueryUnit'', NTType = 1, Index = 1, NumSymbols = 2, Rhs = [N 2, T 2],
      ReduceFunc = \<lambda>X. arg X 0\<rparr>,
     \<lparr>Id = ''QueryUnit'', NTType = 1, Index = 2, NumSymbols = 2, Rhs = [N 3, T 2],
      ReduceFunc = \<lambda>X. arg X 0\<rparr>,
     \<lparr>Id = ''QueryUnit'', NTType = 1, Index = 3, NumSymbols = 2, Rhs = [N 4, T 2],
      ReduceFunc = \<lambda>X. arg X 0\<rparr>,
     \<lparr>Id = ''SelectQuery'', NTType = 2, Index = 4, NumSymbols = 3, Rhs = [N 5, N 12, N 13],
      ReduceFunc = \<lambda>X. args3 X 0 1 2 (\<lambda>a b c. NewQueryMulti ord a b c False)\<rparr>,
     \<lparr>Id = ''SelectQuery'', NTType = 2, Index = 5, NumSymbols = 2, Rhs = [N 5, N 13],
      ReduceFunc = \<lambda>X. args2 X 0 1 (\<lambda>a b. NewQuery ord a b False)\<rparr>,
     \<lparr>Id = ''CountQuery'', NTType = 3, Index = 6, NumSymbols = 3, Rhs = [N 7, N 12, N 13],
      ReduceFunc = \<lambda>X. args3 X 0 1 2 (\<lambda>a b c. NewQueryMulti ord a b c True)\<rparr>,
     \<lparr>Id = ''CountQuery'', NTType = 3, Index = 7, NumSymbols = 2, Rhs = [N 7, N 13],
      ReduceFunc = \<lambda>X. args2 X 0 1 (\<lambda>a b. NewQuery ord a b True)\<rparr>]"

definition productions_8 :: "(string list \<Rightarrow> string list) \<Rightarrow> prod_entry list" where
  "productions_8 ord =
    [\<lparr>Id = ''UpdateQuery'', NTType = 4, Index = 8, NumSymbols = 3, Rhs = [N 6, N 12, N 13],
      ReduceFunc = \<lambda>X. args3 X 0 1 2 (\<lambda>a b c. NewInsertQueryMulti ord a b c False)\<rparr>,
     \<lparr>Id = ''UpdateQuery'', NTType = 4, Index = 9, NumSymbols = 2, Rhs = [N 6, N 13],
      ReduceFunc = \<lambda>X. args2 X 0 1 (\<lambda>a b. NewInsertQuery ord a b False)\<rparr>,
     \<lparr>Id = ''SelectClause'', NTType = 5, Index = 10, NumSymbols = 2, Rhs = [T 3, T 4],
      ReduceFunc = \<lambda>X. NewAllSelectClause\<rparr>,
     \<lparr>Id = ''SelectClause'', NTType = 5, Index = 11, NumSymbols = 2, Rhs = [T 3, N 8],
      ReduceFunc = \<lambda>X. args1 X 1 (\<lambda>a. NewSelectClause a)\<rparr>,
     \<lparr>Id = ''InsertClause'', NTType = 6, Index = 12, NumSymbols = 4, Rhs = [T 5, T 6, N 14, T 7],
      ReduceFunc = \<lambda>X. args1 X 2 (\<lambda>a. NewInsertClause a)\<rparr>,
     \<lparr>Id = ''InsertClause'', NTType = 6, Index = 13, NumSymbols = 5, Rhs = [T 5, T 6, N 14, T 8, T 7],
      ReduceFunc = \<lambda>X. args1 X 2 (\<lambda>a. NewInsertClause a)\<rparr>,
     \<lparr>Id = ''CountClause'', NTType = 7, Index = 14, NumSymbols = 2, Rhs = [T 9, T 4],
      ReduceFunc = \<lambda>X. NewAllSelectClause\<rparr>,
     \<lparr>Id = ''CountClause'', NTType = 7, Index = 15, NumSymbols = 2, Rhs = [T 9, N 8],
      ReduceFunc = \<lambda>X. args1 X 1 (\<lambda>a. NewSelectClause a)\<rparr>]"

definition productions_16 :: "(string list \<Rightarrow> string list) \<Rightarrow> prod_entry list" where
  "productions_16 ord =
    [\<lparr>Id = ''Varlist'', NTType = 8, Index = 16, NumSymbols = 1, Rhs = [N 11],
      ReduceFunc = \<lambda>X. args1 X 0 (\<lambda>a. NewVarList a)\<rparr>,
     \<lparr>Id = ''Varlist'', NTType = 8, Index = 17, NumSymbols = 2, Rhs = [N 8, N 11],
      ReduceFunc = \<lambda>X. args2 X 0 1 (\<lambda>a b. AppendVar a b)\<rparr>,
     \<lparr>Id = ''DBlist'', NTType = 9, Index = 18, NumSymbols = 1, Rhs = [N 10],
      ReduceFunc = \<lambda>X. args1 X 0 (\<lambda>a. NewStringList a)\<rparr>,
     \<lparr>Id = ''DBlist'', NTType = 9, Index = 19, NumSymbols = 2, Rhs = [N 9, N 10],
      ReduceFunc = \<lambda>X. args2 X 0 1 (\<lambda>a b. AppendString a b)\<rparr>,
     \<lparr>Id = ''String'', NTType = 10, Index = 20, NumSymbols = 1, Rhs = [T 10],
      ReduceFunc = \<lambda>X. args1 X 0 (\<lambda>a. ParseString a)\<rparr>,
     \<lparr>Id = ''Var'', NTType = 11, Index = 21, NumSymbols = 1, Rhs = [T 11],
      ReduceFunc = \<lambda>X. args1 X 0 (\<lambda>a. ParseString a)\<rparr>,
     \<lparr>Id = ''DatasetClause'', NTType = 12, Index = 22, NumSymbols = 2, Rhs = [T 12, N 9],
      ReduceFunc = \<lambda>X. args1 X 1 (\<lambda>a. NewFromClause a)\<rparr>,
     \<lparr>Id = ''DatasetClause'', NTType = 12, Index = 23, NumSymbols = 2, Rhs = [T 12, T 4],
      ReduceFunc = \<lambda>X. NewAllFromClause\<rparr>]"

definition productions_24 :: "(string list \<Rightarrow> string list) \<Rightarrow> prod_entry list" where
  "productions_24 ord =
    [\<lparr>Id = ''WhereClause'', NTType = 13, Index = 24, NumSymbols = 3, Rhs = [T 13, T 6, T 7],
      ReduceFunc = \<lambda>X. NewWhereClause (ATriples [])\<rparr>,
     \<lparr>Id = ''WhereClause'', NTType = 13, Index = 25, NumSymbols = 4, Rhs = [T 13, T 6, N 14, T 7],
      ReduceFunc = \<lambda>X. args1 X 2 (\<lambda>a. NewWhereClause a)\<rparr>,
     \<lparr>Id = ''WhereClause'', NTType = 13, Index = 26, NumSymbols = 5, Rhs = [T 13, T 6, N 14, T 8, T 7],
      ReduceFunc = \<lambda>X. args1 X 2 (\<lambda>a. NewWhereClause a)\<rparr>,
     \<lparr>Id = ''WhereClause'', NTType = 13, Index = 27, NumSymbols = 5, Rhs = [T 13, T 6, N 14, N 23, T 7],
      ReduceFunc = \<lambda>X. args2 X 2 3 (\<lambda>a b. NewWhereClauseWithGraphGroup a b)\<rparr>,
     \<lparr>Id = ''WhereClause'', NTType = 13, Index = 28, NumSymbols = 6, Rhs = [T 13, T 6, N 14, T 8, N 23, T 7],
      ReduceFunc = \<lambda>X. args2 X 2 4 (\<lambda>a b. NewWhereClauseWithGraphGroup a b)\<rparr>,
     \<lparr>Id = ''WhereClause'', NTType = 13, Index = 29, NumSymbols = 4, Rhs = [T 13, T 6, N 23, T 7],
      ReduceFunc = \<lambda>X. args1 X 2 (\<lambda>a. NewWhereClauseGraphGroup a)\<rparr>,
     \<lparr>Id = ''TriplesBlock'', NTType = 14, Index = 30, NumSymbols = 1, Rhs = [N 15],
      ReduceFunc = \<lambda>X. args1 X 0 (\<lambda>a. NewTripleBlock a)\<rparr>,
     \<lparr>Id = ''TriplesBlock'', NTType = 14, Index = 31, NumSymbols = 3, Rhs = [N 14, T 8, N 15],
      ReduceFunc = \<lambda>X. args2 X 0 2 (\<lambda>a b. AppendTripleBlock a b)\<rparr>]"

definition productions_32 :: "(string list \<Rightarrow> string list) \<Rightarrow> prod_entry list" where
  "productions_32 ord =
    [\<lparr>Id = ''Triple'', NTType = 15, Index = 32, NumSymbols = 3, Rhs = [N 16, N 18, N 16],
      ReduceFunc = \<lambda>X. args3 X 0 1 2 (\<lambda>a b c. NewTriple a b c)\<rparr>,
     \<lparr>Id = ''VarOrTerm'', NTType = 16, Index = 33, NumSymbols = 1, Rhs = [N 11],
      ReduceFunc = \<lambda>X. args1 X 0 (\<lambda>a. NewURI a)\<rparr>,
     \<lparr>Id = ''VarOrTerm'', NTType = 16, Index = 34, NumSymbols = 1, Rhs = [N 17],
      ReduceFunc = \<lambda>X. args1 X 0 (\<lambda>a. NewURI a)\<rparr>,
     \<lparr>Id = ''GraphTerm'', NTType = 17, Index = 35, NumSymbols = 1, Rhs = [T 14],
      ReduceFunc = \<lambda>X. args1 X 0 (\<lambda>a. ParseString a)\<rparr>,
     \<lparr>Id = ''GraphTerm'', NTType = 17, Index = 36, NumSymbols = 1, Rhs = [T 15],
      ReduceFunc = \<lambda>X. args1 X 0 (\<lambda>a. ParseQuotedString a)\<rparr>,
     \<lparr>Id = ''GraphTerm'', NTType = 17, Index = 37, NumSymbols = 1, Rhs = [T 16],
      ReduceFunc = \<lambda>X. args1 X 0 (\<lambda>a. ParseString a)\<rparr>,
     \<lparr>Id = ''Path'', NTType = 18, Index = 38, NumSymbols = 1, Rhs = [N 19],
      ReduceFunc = \<lambda>X. arg X 0\<rparr>,
     \<lparr>Id = ''Path'', NTType = 18, Index = 39, NumSymbols = 3, Rhs = [N 18, T 17, N 19],
      ReduceFunc = \<lambda>X. arg X 0\<rparr>]"

definition productions_40 :: "(string list \<Rightarrow> string list) \<Rightarrow> prod_entry list" where
  "productions_40 ord =
    [\<lparr>Id = ''Path'', NTType = 18, Index = 40, NumSymbols = 1, Rhs = [N 11],
      ReduceFunc = \<lambda>X. args1 X 0 (\<lambda>a. PathFromVar a)\<rparr>,
     \<lparr>Id = ''PathSequence'', NTType = 19, Index = 41, NumSymbols = 1, Rhs = [N 20],
      ReduceFunc = \<lambda>X. args1 X 0 (\<lambda>a. NewPathSequence a)\<rparr>,
     \<lparr>Id = ''PathSequence'', NTType = 19, Index = 42, NumSymbols = 3, Rhs = [N 19, T 18, N 20],
      ReduceFunc = \<lambda>X. args2 X 0 2 (\<lambda>a b. AppendPathSequence a b)\<rparr>,
     \<lparr>Id = ''PathElt'', NTType = 20, Index = 43, NumSymbols = 2, Rhs = [N 21, N 22],
      ReduceFunc = \<lambda>X. args2 X 0 1 (\<lambda>a b. AddPathMod a b)\<rparr>,
     \<lparr>Id = ''PathElt'', NTType = 20, Index = 44, NumSymbols = 1, Rhs = [N 21],
      ReduceFunc = \<lambda>X. arg X 0\<rparr>,
     \<lparr>Id = ''PathPrimary'', NTType = 21, Index = 45, NumSymbols = 1, Rhs = [T 14],
      ReduceFunc = \<lambda>X. args1 X 0 (\<lambda>a. NewPathPattern a)\<rparr>,
     \<lparr>Id = ''PathPrimary'', NTType = 21, Index = 46, NumSymbols = 1, Rhs = [T 19],
      ReduceFunc = \<lambda>X. args1 X 0 (\<lambda>a. NewPathPattern a)\<rparr>,
     \<lparr>Id = ''PathPrimary'', NTType = 21, Index = 47, NumSymbols = 1, Rhs = [T 16],
      ReduceFunc = \<lambda>X. args1 X 0 (\<lambda>a. NewPathPattern a)\<rparr>]"

definition productions_48 :: "(string list \<Rightarrow> string list) \<Rightarrow> prod_entry list" where
  "productions_48 ord =
    [\<lparr>Id = ''PathPrimary'', NTType = 21, Index = 48, NumSymbols = 3, Rhs = [T 20, N 18, T 21],
      ReduceFunc = \<lambda>X. arg X 1\<rparr>,
     \<lparr>Id = ''PathMod'', NTType = 22, Index = 49, NumSymbols = 1, Rhs = [T 22],
      ReduceFunc = \<lambda>X. Some (APattern PATTERN_ZERO_ONE)\<rparr>,
     \<lparr>Id = ''PathMod'', NTType = 22, Index = 50, NumSymbols = 1, Rhs = [T 4],
      ReduceFunc = \<lambda>X. Some (APattern PATTERN_ZERO_PLUS)\<rparr>,
     \<lparr>Id = ''PathMod'', NTType = 22, Index = 51, NumSymbols = 1, Rhs = [T 23],
      ReduceFunc = \<lambda>X. Some (APattern PATTERN_ONE_PLUS)\<rparr>,
     \<lparr>Id = ''RestOfWhereList'', NTType = 23, Index = 52, NumSymbols = 1, Rhs = [N 24],
      ReduceFunc = \<lambda>X. arg X 0\<rparr>,
     \<lparr>Id = ''RestOfWhereList'', NTType = 23, Index = 53, NumSymbols = 2, Rhs = [N 23, N 24],
      ReduceFunc = \<lambda>X. args2 X 0 1 (\<lambda>a b. MergeGraphGroups a b)\<rparr>,
     \<lparr>Id = ''RestOfWhere'', NTType = 24, Index = 54, NumSymbols = 4, Rhs = [N 26, N 25, N 14, N 25],
      ReduceFunc = \<lambda>X. args2 X 0 2 (\<lambda>a b. AddTriplesToGraphGroup a b)\<rparr>,
     \<lparr>Id = ''RestOfWhere'', NTType = 24, Index = 55, NumSymbols = 2, Rhs = [N 26, N 25],
      ReduceFunc = \<lambda>X. arg X 0\<rparr>]"

definition productions_56 :: "(string list \<Rightarrow> string list) \<Rightarrow> prod_entry list" where
  "productions_56 ord =
    [\<lparr>Id = ''Joiner'', NTType = 25, Index = 56, NumSymbols = 1, Rhs = [T 8],
      ReduceFunc = \<lambda>X. arg X 0\<rparr>,
     \<lparr>Id = ''Joiner'', NTType = 25, Index = 57, NumSymbols = 0, Rhs = [],
      ReduceFunc = \<lambda>X. Some ANil\<rparr>,
     \<lparr>Id = ''GraphPatternNotTriples'', NTType = 26, Index = 58, NumSymbols = 1, Rhs = [N 27],
      ReduceFunc = \<lambda>X. arg X 0\<rparr>,
     \<lparr>Id = ''GraphPatternNotTriples'', NTType = 26, Index = 59, NumSymbols = 3, Rhs = [N 26, T 25, N 27],
      ReduceFunc = \<lambda>X. args2 X 0 2 (\<lambda>a b. GraphGroupUnion a b)\<rparr>,
     \<lparr>Id = ''GroupGraphPattern'', NTType = 27, Index = 60, NumSymbols = 4, Rhs = [T 6, N 28, N 25, T 7],
      ReduceFunc = \<lambda>X. arg X 1\<rparr>,
     \<lparr>Id = ''GroupGraphPatternSub'', NTType = 28, Index = 61, NumSymbols = 1, Rhs = [N 14],
      ReduceFunc = \<lambda>X. args1 X 0 (\<lambda>a. GraphGroupFromTriples a)\<rparr>,
     \<lparr>Id = ''GroupGraphPatternSub'', NTType = 28, Index = 62, NumSymbols = 3, Rhs = [N 26, T 8, N 14],
      ReduceFunc = \<lambda>X. args2 X 0 2 (\<lambda>a b. AddTriplesToGraphGroup a b)\<rparr>,
     \<lparr>Id = ''GroupGraphPatternSub'', NTType = 28, Index = 63, NumSymbols = 4, Rhs = [N 28, N 26, T 8, N 14],
      ReduceFunc = \<lambda>X. arg X 0\<rparr>]"

definition productions_table :: "(string list \<Rightarrow> string list) \<Rightarrow> prod_entry list" where
  "productions_table ord =
     productions_0 ord @ productions_8 ord @ productions_16 ord @
     productions_24 ord @ productions_32 ord @ productions_40 ord @
     productions_48 ord @ productions_56 ord"

lemma productions_lengths [simp]:
  "length (productions_0 ord) = 8" "length (productions_8 ord) = 8" "length (productions_16 ord) = 8"
  "length (productions_24 ord) = 8" "length (productions_32 ord) = 8" "length (productions_40 ord) = 8"
  "length (productions_48 ord) = 8"
  by (simp_all add: productions_0_def productions_8_def productions_16_def productions_24_def
      productions_32_def productions_40_def productions_48_def)

lemma productions_at [code_unfold]:
  "productions_table ord ! p =
     (if p < 8 then productions_0 ord ! p else if p - 8 < 8 then productions_8 ord ! (p - 8)
      else if p - 16 < 8 then productions_16 ord ! (p - 16) else if p - 24 < 8 then productions_24 ord ! (p - 24)
      else if p - 32 < 8 then productions_32 ord ! (p - 32) else if p - 40 < 8 then productions_40 ord ! (p - 40)
      else if p - 48 < 8 then productions_48 ord ! (p - 48) else productions_56 ord ! (p - 56))"
  by (simp only: productions_table_def nth_append productions_lengths diff_diff_left numeral_plus_numeral add_num_simps)

section \<open>The stack\<close>

text \<open>
  The two slices of the stack are one list of pairs, its top first. Popping more than there is, a
  state without a goto entry and an index out of range panic.
\<close>

type_synonym pstack = "(nat \<times> attrib) list"

definition push :: "nat \<Rightarrow> attrib \<Rightarrow> pstack \<Rightarrow> pstack" where
  "push state a s = (state, a) # s"

definition top_state :: "pstack \<Rightarrow> nat option" where
  "top_state s = (case s of [] \<Rightarrow> None | (state, _) # _ \<Rightarrow> Some state)"

definition popN :: "nat \<Rightarrow> pstack \<Rightarrow> (attrib list \<times> pstack) option" where
  "popN items s = (if items \<le> length s then Some (rev (map snd (take items s)), drop items s) else None)"

definition peek :: "nat \<Rightarrow> pstack \<Rightarrow> nat" where
  "peek p s = fst (rev s ! p)"

definition new_stack :: pstack where
  "new_stack = push 0 ANil []"

section \<open>Errors\<close>

text \<open>
  The error that \<open>newError\<close> builds. Its fields \<open>Err\<close> and \<open>ErrorSymbols\<close> are nil in every error that
  \<open>Parse\<close> returns, since no action returns an error, and are left out.
\<close>

record parse_error =
  ErrorToken :: token
  ExpectedTokens :: "string list"
  StackTop :: nat

definition action_for :: "nat \<Rightarrow> nat \<Rightarrow> action option" where
  "action_for state typ = map_of (snd (action_tab ! state)) typ"

definition can_recover :: "nat \<Rightarrow> bool" where
  "can_recover state = fst (action_tab ! state)"

definition goto_for :: "nat \<Rightarrow> nat \<Rightarrow> nat option" where
  "goto_for state nt = map_of (goto_tab ! state) nt"

text \<open>The names of the token types with an action, in the order of the types.\<close>

definition expected_tokens :: "nat \<Rightarrow> string list" where
  "expected_tokens state = map token_id (filter (\<lambda>t. action_for state t \<noteq> None) [0..<55])"

definition new_error :: "nat \<Rightarrow> token \<Rightarrow> parse_error" where
  "new_error state tok =
     \<lparr>ErrorToken = tok, ExpectedTokens = expected_tokens state, StackTop = state\<rparr>"

text \<open>
  \<open>firstRecoveryState\<close> goes down the stack to a state that can recover; \<open>popNonRecoveryStates\<close> pops what
  is above it.
\<close>

fun first_recovery_state :: "pstack \<Rightarrow> nat \<times> bool" where
  "first_recovery_state [] = (0, False)"
| "first_recovery_state [(s, a)] = (0, can_recover s)"
| "first_recovery_state ((s, a) # rest) =
     (if can_recover s then (length rest, True) else first_recovery_state rest)"

definition pop_non_recovery_states :: "pstack \<Rightarrow> pstack" where
  "pop_non_recovery_states s =
     (case first_recovery_state s of
        (rs, True) \<Rightarrow> drop (length s - 1 - rs) s
      | (rs, False) \<Rightarrow> s)"

text \<open>
  \<open>Error\<close>: when the state that is left has a shift on the token type named \<open>error\<close>, it is taken and
  tokens are skipped until one has an action. The map of token types has no such name, and its answer is
  the type \<open>INVALID\<close> then. What is pushed is the error, which no action reads; \<open>ANil\<close> stands for it.
\<close>

partial_function (option) skip_tokens ::
    "('l \<Rightarrow> token \<times> 'l) \<Rightarrow> nat \<Rightarrow> token \<Rightarrow> 'l \<Rightarrow> (bool \<times> token \<times> 'l) option" where
  [code]: "skip_tokens scanf state tok l =
     (if action_for state (TType tok) \<noteq> None then Some (True, tok, l)
      else if TType tok = EOF then Some (False, tok, l)
      else case scanf l of (tok', l') \<Rightarrow> skip_tokens scanf state tok' l')"

text \<open>
  The action on \<open>error\<close> is asserted to be a shift, and the stack must not be empty: otherwise a panic.
\<close>

datatype 'l recovery = Recovery bool pstack token 'l | RecoveryPanic

definition handle_error ::
    "('l \<Rightarrow> token \<times> 'l) \<Rightarrow> pstack \<Rightarrow> token \<Rightarrow> 'l \<Rightarrow> 'l recovery option" where
  "handle_error scanf stk tok l =
     (let stk1 = pop_non_recovery_states stk in
      case stk1 of
        [] \<Rightarrow> Some RecoveryPanic
      | (s, _) # _ \<Rightarrow>
          (case action_for s (token_type ''error'') of
             None \<Rightarrow> Some (Recovery False stk1 tok l)
           | Some (Shift t) \<Rightarrow>
               Option.bind (skip_tokens scanf t tok l)
                 (\<lambda>(recovered, tok', l'). Some (Recovery recovered (push t ANil stk1) tok' l'))
           | Some _ \<Rightarrow> Some RecoveryPanic))"

section \<open>The parser's loop\<close>

datatype outcome = Accepted attrib | Failed parse_error | Panicked

datatype step_result = Done outcome | Shifted pstack | Reduced pstack | NoAction

definition parse_step :: "varorder \<Rightarrow> pstack \<Rightarrow> token \<Rightarrow> step_result" where
  "parse_step ord stk tok =
     (case stk of
        [] \<Rightarrow> Done Panicked
      | (s, a) # _ \<Rightarrow>
          (case action_for s (TType tok) of
             None \<Rightarrow> NoAction
           | Some Accept \<Rightarrow> Done (Accepted a)
           | Some (Shift t) \<Rightarrow> Shifted (push t (ATok tok) stk)
           | Some (Reduce p) \<Rightarrow>
               (case popN (NumSymbols (productions_table ord ! p)) stk of
                  None \<Rightarrow> Done Panicked
                | Some (X, stk1) \<Rightarrow>
                    (case ReduceFunc (productions_table ord ! p) X of
                       None \<Rightarrow> Done Panicked
                     | Some v \<Rightarrow>
                         (case Option.bind (top_state stk1) (\<lambda>q. goto_for q (NTType (productions_table ord ! p))) of
                            None \<Rightarrow> Done Panicked
                          | Some t \<Rightarrow> Reduced (push t v stk1))))))"

fun no_action :: "step_result \<Rightarrow> bool" where
  "no_action NoAction = True"
| "no_action _ = False"

partial_function (option) parse_loop ::
    "('l \<Rightarrow> token \<times> 'l) \<Rightarrow> varorder \<Rightarrow> pstack \<Rightarrow> token \<Rightarrow> 'l \<Rightarrow> outcome option" where
  [code]: "parse_loop scanf ord stk tok l =
     (case parse_step ord stk tok of
        Done r \<Rightarrow> Some r
      | Shifted stk1 \<Rightarrow> (case scanf l of (tok1, l1) \<Rightarrow> parse_loop scanf ord stk1 tok1 l1)
      | Reduced stk1 \<Rightarrow> parse_loop scanf ord stk1 tok l
      | NoAction \<Rightarrow>
          Option.bind (handle_error scanf stk tok l) (\<lambda>r. case r of
            RecoveryPanic \<Rightarrow> Some Panicked
          | Recovery recovered stk1 tok1 l1 \<Rightarrow>
              if \<not> recovered then Some (Failed (new_error (fst (hd stk1)) tok))
              else if no_action (parse_step ord stk1 tok1) then Some Panicked
              else parse_loop scanf ord stk1 tok1 l1))"

definition parser_parse ::
    "('l \<Rightarrow> token \<times> 'l) \<Rightarrow> varorder \<Rightarrow> 'l \<Rightarrow> outcome option" where
  "parser_parse scanf ord l =
     (case scanf l of (tok, l1) \<Rightarrow> parse_loop scanf ord new_stack tok l1)"

section \<open>Parsing a text\<close>

datatype parse_result = ParsedQuery query | ParseError parse_error | ParsePanic

definition parse_text :: "varorder \<Rightarrow> string \<Rightarrow> parse_result option" where
  "parse_text ord s =
     map_option
       (\<lambda>r. case r of
              Accepted a \<Rightarrow> (case as_query a of Some q \<Rightarrow> ParsedQuery q | None \<Rightarrow> ParsePanic)
            | Failed e \<Rightarrow> ParseError e
            | Panicked \<Rightarrow> ParsePanic)
       (parser_parse scan ord (new_lexer s))"

end
