(* ===== verification/ParserCert.thy ===== *)
theory ParserCert
  imports Parser
begin

text \<open>
  A certificate for the parser's tables, checked here entry by entry: the symbol that leads into each
  state, the symbols that are certain to lie below it on the stack, and the nonterminals that the state
  at each depth has to have a goto for. With it a reduction always finds its right-hand side on the
  stack and a state to go to.
\<close>

section \<open>The certificate\<close>

type_synonym cert_entry = "symbol \<times> symbol list \<times> nat list list"

definition cert_0 :: "cert_entry list" where
  "cert_0 =
    [(N 0, [], []), (N 1, [N 1], [[]]), (N 2, [N 2], [[1]]), (N 3, [N 3], [[1]]), (N 4, [N 4],
     [[1]]), (N 5, [N 5], [[2]]), (N 7, [N 7], [[3]]), (N 6, [N 6], [[4]]), (T 3, [T 3],
     [[5]]), (T 5, [T 5], [[6]])]"

definition cert_10 :: "cert_entry list" where
  "cert_10 =
    [(T 9, [T 9], [[7]]), (T 2, [T 2, N 2], [[], [1]]), (T 2, [T 2, N 3], [[], [1]]), (T 2, [T
     2, N 4], [[], [1]]), (N 12, [N 12, N 5], [[], [2]]), (N 13, [N 13, N 5], [[], [2]]), (T
     12, [T 12], [[12]]), (T 13, [T 13], [[13]]), (N 12, [N 12, N 7], [[], [3]]), (N 13, [N 13,
     N 7], [[], [3]])]"

definition cert_20 :: "cert_entry list" where
  "cert_20 =
    [(N 12, [N 12, N 6], [[], [4]]), (N 13, [N 13, N 6], [[], [4]]), (T 4, [T 4, T 3], [[],
     [5]]), (N 8, [N 8, T 3], [[8], [5]]), (N 11, [N 11], [[8]]), (T 11, [T 11], [[11]]), (T 6,
     [T 6, T 5], [[], [6]]), (T 4, [T 4, T 9], [[], [7]]), (N 8, [N 8, T 9], [[8], [7]]), (N
     13, [N 13, N 12, N 5], [[], [], [2]])]"

definition cert_30 :: "cert_entry list" where
  "cert_30 =
    [(T 4, [T 4, T 12], [[], [12]]), (N 9, [N 9, T 12], [[9], [12]]), (N 10, [N 10], [[9]]), (T
     10, [T 10], [[10]]), (T 6, [T 6, T 13], [[], [13]]), (N 13, [N 13, N 12, N 7], [[], [],
     [3]]), (N 13, [N 13, N 12, N 6], [[], [], [4]]), (N 11, [N 11, N 8], [[], [8]]), (N 14, [N
     14, T 6, T 5], [[14], [], [6]]), (N 11, [N 11], [[16]])]"

definition cert_40 :: "cert_entry list" where
  "cert_40 =
    [(T 11, [T 11], [[11]]), (N 15, [N 15], [[14]]), (N 16, [N 16], [[15]]), (N 17, [N 17],
     [[16]]), (T 14, [T 14], [[17]]), (T 15, [T 15], [[17]]), (T 16, [T 16], [[17]]), (N 10, [N
     10, N 9], [[], [9]]), (T 6, [T 6], [[27]]), (N 14, [N 14, T 6, T 13], [[14], [], [13]])]"

definition cert_50 :: "cert_entry list" where
  "cert_50 =
    [(T 7, [T 7, T 6, T 13], [[], [], [13]]), (N 23, [N 23, T 6, T 13], [[23], [], [13]]), (N
     15, [N 15], [[14]]), (N 16, [N 16], [[15]]), (N 24, [N 24], [[23]]), (N 26, [N 26], [[24,
     26]]), (N 27, [N 27], [[26]]), (T 7, [T 7, N 14, T 6, T 5], [[], [], [], [6]]), (T 8, [T
     8, N 14, T 6, T 5], [[], [14], [], [6]]), (N 11, [N 11], [[18]])]"

definition cert_60 :: "cert_entry list" where
  "cert_60 =
    [(T 11, [T 11], [[11]]), (N 18, [N 18, N 16], [[18], [15]]), (T 14, [T 14], [[21]]), (T 16,
     [T 16], [[21]]), (N 19, [N 19], [[18, 19]]), (N 20, [N 20], [[19]]), (N 21, [N 21],
     [[20]]), (T 19, [T 19], [[21]]), (T 20, [T 20], [[21]]), (T 6, [T 6], [[27]])]"

definition cert_70 :: "cert_entry list" where
  "cert_70 =
    [(N 14, [N 14], [[14, 28]]), (N 26, [N 26], [[26, 28]]), (N 27, [N 27], [[26]]), (N 28, [N
     28, T 6], [[28], [27]]), (T 7, [T 7, N 14, T 6, T 13], [[], [], [], [13]]), (T 8, [T 8, N
     14, T 6, T 13], [[], [14], [], [13]]), (N 23, [N 23, N 14, T 6, T 13], [[23], [], [],
     [13]]), (T 7, [T 7, N 23, T 6, T 13], [[], [], [], [13]]), (N 24, [N 24, N 23], [[],
     [23]]), (N 18, [N 18, N 16], [[18], [15]])]"

definition cert_80 :: "cert_entry list" where
  "cert_80 =
    [(T 8, [T 8], [[25]]), (N 25, [N 25, N 26], [[], [24]]), (T 25, [T 25, N 26], [[], [26]]),
     (T 7, [T 7, T 8, N 14, T 6, T 5], [[], [], [], [], [6]]), (N 15, [N 15, T 8, N 14], [[],
     [], [14]]), (N 11, [N 11], [[16]]), (T 11, [T 11], [[11]]), (N 16, [N 16, N 18, N 16],
     [[], [], [15]]), (N 17, [N 17], [[16]]), (T 14, [T 14], [[17]])]"

definition cert_90 :: "cert_entry list" where
  "cert_90 =
    [(T 15, [T 15], [[17]]), (T 16, [T 16], [[17]]), (T 17, [T 17, N 18], [[], [18]]), (T 18,
     [T 18, N 19], [[], [19]]), (T 4, [T 4], [[22]]), (N 22, [N 22, N 21], [[], [20]]), (T 22,
     [T 22], [[22]]), (T 23, [T 23], [[22]]), (N 11, [N 11], [[18]]), (T 11, [T 11], [[11]])]"

definition cert_100 :: "cert_entry list" where
  "cert_100 =
    [(N 18, [N 18, T 20], [[18], [21]]), (T 14, [T 14], [[21]]), (T 16, [T 16], [[21]]), (N 19,
     [N 19], [[18, 19]]), (N 20, [N 20], [[19]]), (N 21, [N 21], [[20]]), (T 19, [T 19],
     [[21]]), (T 20, [T 20], [[21]]), (N 28, [N 28, T 6], [[28], [27]]), (T 8, [T 8, N 14],
     [[], [14]])]"

definition cert_110 :: "cert_entry list" where
  "cert_110 =
    [(T 8, [T 8, N 26], [[], [28]]), (T 25, [T 25, N 26], [[], [26]]), (T 8, [T 8], [[25]]), (N
     26, [N 26, N 28], [[26], [28]]), (N 25, [N 25, N 28, T 6], [[], [], [27]]), (T 7, [T 7, T
     8, N 14, T 6, T 13], [[], [], [], [], [13]]), (N 23, [N 23, T 8, N 14, T 6, T 13], [[23],
     [], [], [], [13]]), (N 15, [N 15, T 8, N 14], [[], [], [14]]), (T 7, [T 7, N 23, N 14, T
     6, T 13], [[], [], [], [], [13]]), (N 11, [N 11], [[16]])]"

definition cert_120 :: "cert_entry list" where
  "cert_120 =
    [(T 11, [T 11], [[11]]), (N 16, [N 16, N 18, N 16], [[], [], [15]]), (N 17, [N 17],
     [[16]]), (T 14, [T 14], [[17]]), (T 15, [T 15], [[17]]), (T 16, [T 16], [[17]]), (N 14, [N
     14, N 25, N 26], [[14], [], [24]]), (N 27, [N 27, T 25, N 26], [[], [], [26]]), (N 19, [N
     19, T 17, N 18], [[19], [], [18]]), (N 20, [N 20, T 18, N 19], [[], [], [19]])]"

definition cert_130 :: "cert_entry list" where
  "cert_130 =
    [(T 17, [T 17, N 18], [[], [18]]), (T 21, [T 21, N 18, T 20], [[], [], [21]]), (T 18, [T
     18, N 19], [[], [19]]), (T 4, [T 4], [[22]]), (N 22, [N 22, N 21], [[], [20]]), (T 22, [T
     22], [[22]]), (T 23, [T 23], [[22]]), (N 18, [N 18, T 20], [[18], [21]]), (N 25, [N 25, N
     28, T 6], [[], [], [27]]), (N 14, [N 14, T 8, N 26], [[14], [], [28]])]"

definition cert_140 :: "cert_entry list" where
  "cert_140 =
    [(N 27, [N 27, T 25, N 26], [[], [], [26]]), (T 8, [T 8, N 26, N 28], [[], [], [28]]), (T
     7, [T 7, N 25, N 28, T 6], [[], [], [], [27]]), (T 7, [T 7, N 23, T 8, N 14, T 6, T 13],
     [[], [], [], [], [], [13]]), (T 8, [T 8, N 14], [[25], [14]]), (N 25, [N 25, N 14, N 25, N
     26], [[], [], [], [24]]), (N 19, [N 19, T 17, N 18], [[19], [], [18]]), (N 20, [N 20, T
     18, N 19], [[], [], [19]]), (T 21, [T 21, N 18, T 20], [[], [], [21]]), (T 7, [T 7, N 25,
     N 28, T 6], [[], [], [], [27]])]"

definition cert_150 :: "cert_entry list" where
  "cert_150 =
    [(N 14, [N 14, T 8, N 26, N 28], [[14], [], [], [28]])]"

definition cert :: "nat \<Rightarrow> cert_entry" where
  "cert i =
     (if i < 80 then (if i < 40 then (if i < 20 then (if i < 10 then cert_0 ! i
      else cert_10 ! (i - 10))
      else (if i < 30 then cert_20 ! (i - 20)
      else cert_30 ! (i - 30)))
      else (if i < 60 then (if i < 50 then cert_40 ! (i - 40)
      else cert_50 ! (i - 50))
      else (if i < 70 then cert_60 ! (i - 60)
      else cert_70 ! (i - 70))))
      else (if i < 120 then (if i < 100 then (if i < 90 then cert_80 ! (i - 80)
      else cert_90 ! (i - 90))
      else (if i < 110 then cert_100 ! (i - 100)
      else cert_110 ! (i - 110)))
      else (if i < 140 then (if i < 130 then cert_120 ! (i - 120)
      else cert_130 ! (i - 130))
      else (if i < 150 then cert_140 ! (i - 140)
      else cert_150 ! (i - 150)))))"


section \<open>The grammar without the actions\<close>

definition shape_of_0 :: "(nat \<times> nat \<times> symbol list) list" where
  "shape_of_0 =
    [(0, 1, [N 1]), (1, 2, [N 2, T 2]), (1, 2, [N 3, T 2]), (1, 2, [N 4, T 2]), (2, 3, [N 5, N
     12, N 13]), (2, 2, [N 5, N 13]), (3, 3, [N 7, N 12, N 13]), (3, 2, [N 7, N 13])]"

definition shape_of_8 :: "(nat \<times> nat \<times> symbol list) list" where
  "shape_of_8 =
    [(4, 3, [N 6, N 12, N 13]), (4, 2, [N 6, N 13]), (5, 2, [T 3, T 4]), (5, 2, [T 3, N 8]),
     (6, 4, [T 5, T 6, N 14, T 7]), (6, 5, [T 5, T 6, N 14, T 8, T 7]), (7, 2, [T 9, T 4]), (7,
     2, [T 9, N 8])]"

definition shape_of_16 :: "(nat \<times> nat \<times> symbol list) list" where
  "shape_of_16 =
    [(8, 1, [N 11]), (8, 2, [N 8, N 11]), (9, 1, [N 10]), (9, 2, [N 9, N 10]), (10, 1, [T 10]),
     (11, 1, [T 11]), (12, 2, [T 12, N 9]), (12, 2, [T 12, T 4])]"

definition shape_of_24 :: "(nat \<times> nat \<times> symbol list) list" where
  "shape_of_24 =
    [(13, 3, [T 13, T 6, T 7]), (13, 4, [T 13, T 6, N 14, T 7]), (13, 5, [T 13, T 6, N 14, T 8,
     T 7]), (13, 5, [T 13, T 6, N 14, N 23, T 7]), (13, 6, [T 13, T 6, N 14, T 8, N 23, T 7]),
     (13, 4, [T 13, T 6, N 23, T 7]), (14, 1, [N 15]), (14, 3, [N 14, T 8, N 15])]"

definition shape_of_32 :: "(nat \<times> nat \<times> symbol list) list" where
  "shape_of_32 =
    [(15, 3, [N 16, N 18, N 16]), (16, 1, [N 11]), (16, 1, [N 17]), (17, 1, [T 14]), (17, 1, [T
     15]), (17, 1, [T 16]), (18, 1, [N 19]), (18, 3, [N 18, T 17, N 19])]"

definition shape_of_40 :: "(nat \<times> nat \<times> symbol list) list" where
  "shape_of_40 =
    [(18, 1, [N 11]), (19, 1, [N 20]), (19, 3, [N 19, T 18, N 20]), (20, 2, [N 21, N 22]), (20,
     1, [N 21]), (21, 1, [T 14]), (21, 1, [T 19]), (21, 1, [T 16])]"

definition shape_of_48 :: "(nat \<times> nat \<times> symbol list) list" where
  "shape_of_48 =
    [(21, 3, [T 20, N 18, T 21]), (22, 1, [T 22]), (22, 1, [T 4]), (22, 1, [T 23]), (23, 1, [N
     24]), (23, 2, [N 23, N 24]), (24, 4, [N 26, N 25, N 14, N 25]), (24, 2, [N 26, N 25])]"

definition shape_of_56 :: "(nat \<times> nat \<times> symbol list) list" where
  "shape_of_56 =
    [(25, 1, [T 8]), (25, 0, []), (26, 1, [N 27]), (26, 3, [N 26, T 25, N 27]), (27, 4, [T 6, N
     28, N 25, T 7]), (28, 1, [N 14]), (28, 3, [N 26, T 8, N 14]), (28, 4, [N 28, N 26, T 8, N
     14])]"

definition shape_of :: "nat \<Rightarrow> nat \<times> nat \<times> symbol list" where
  "shape_of i =
     (if i < 32 then (if i < 16 then (if i < 8 then shape_of_0 ! i
      else shape_of_8 ! (i - 8))
      else (if i < 24 then shape_of_16 ! (i - 16)
      else shape_of_24 ! (i - 24)))
      else (if i < 48 then (if i < 40 then shape_of_32 ! (i - 32)
      else shape_of_40 ! (i - 40))
      else (if i < 56 then shape_of_48 ! (i - 48)
      else shape_of_56 ! (i - 56))))"


definition shape :: "prod_entry \<Rightarrow> nat \<times> nat \<times> symbol list" where
  "shape p = (NTType p, NumSymbols p, Rhs p)"

lemma shape_table: "map shape (productions_table ord) = map shape_of [0..<64]"
proof -
  have "map shape_of [0..<64] =
    shape_of_0 @ shape_of_8 @ shape_of_16 @ shape_of_24 @ shape_of_32 @ shape_of_40 @ shape_of_48 @ shape_of_56"
    by code_simp
  then show ?thesis
    unfolding productions_table_def shape_def
      productions_0_def productions_8_def productions_16_def productions_24_def
      productions_32_def productions_40_def productions_48_def productions_56_def
      shape_of_0_def shape_of_8_def shape_of_16_def shape_of_24_def
      shape_of_32_def shape_of_40_def shape_of_48_def shape_of_56_def
    by simp
qed

section \<open>Checking it\<close>

text \<open>The rows of a state: its actions, its gotos, what lies below it and what that has to offer.\<close>

type_synonym table_row = "nat \<times> action_row \<times> goto_row"

definition table_rows :: "table_row list" where
  "table_rows = zip [0..<151] (zip action_tab goto_tab)"

definition edge_ok :: "table_row \<Rightarrow> symbol \<Rightarrow> nat \<Rightarrow> bool" where
  "edge_ok row X t =
     (case row of (s, acts, gotos) \<Rightarrow>
      case cert s of (_, past, need) \<Rightarrow>
      case cert t of (acc', past', need') \<Rightarrow>
           0 < t \<and> t < 151 \<and> acc' = X \<and>
           past' = take (length past') (X # past) \<and>
           (case need' of
              [] \<Rightarrow> True
            | here # deeper \<Rightarrow>
                list_all (\<lambda>A. map_of gotos A \<noteq> None) here \<and>
                list_all2 (\<lambda>a b. list_all (\<lambda>A. A \<in> set b) a) deeper (take (length deeper) need)) \<and>
           (X = N 1 \<longrightarrow> s = 0))"

definition reduce_ok :: "table_row \<Rightarrow> nat \<Rightarrow> bool" where
  "reduce_ok row p =
     (case row of (s, acts, gotos) \<Rightarrow>
      case cert s of (_, past, need) \<Rightarrow>
        p < 64 \<and>
        (case shape_of p of (A, n, rhs) \<Rightarrow>
           n = length rhs \<and> rev rhs = take n past \<and>
           (if n = 0 then map_of gotos A \<noteq> None else A \<in> set (need ! (n - 1)))))"

definition entry_ok :: "table_row \<Rightarrow> nat \<times> action \<Rightarrow> bool" where
  "entry_ok row e =
     (case e of (a, act) \<Rightarrow>
      case act of
        Accept \<Rightarrow> fst row = 1 \<and> a = 1
      | Shift t \<Rightarrow> 1 < a \<and> edge_ok row (T a) t
      | Reduce p \<Rightarrow> reduce_ok row p)"

definition row_ok :: "table_row \<Rightarrow> bool" where
  "row_ok row =
     (case row of (s, acts, gotos) \<Rightarrow>
      case cert s of (_, past, need) \<Rightarrow>
        \<not> fst acts \<and> length need = length past \<and>
        map_of (snd acts) INVALID = None \<and>
        list_all (entry_ok row) (snd acts) \<and>
        list_all (\<lambda>(A, t). edge_ok row (N A) t) gotos)"

lemma rows_ok_a: "list_all row_ok (take 40 table_rows)"
  by code_simp

lemma rows_ok_b: "list_all row_ok (take 40 (drop 40 table_rows))"
  by code_simp

lemma rows_ok_c: "list_all row_ok (take 36 (drop 80 table_rows))"
  by code_simp

lemma rows_ok_d: "list_all row_ok (drop 116 table_rows)"
  by code_simp

lemma rows_ok: "list_all row_ok table_rows"
proof -
  have "list_all row_ok (drop 80 table_rows)"
    using rows_ok_c rows_ok_d list_all_split[of row_ok 36 "drop 80 table_rows"] by simp
  then have "list_all row_ok (drop 40 table_rows)"
    using rows_ok_b list_all_split[of row_ok 40 "drop 40 table_rows"] by simp
  then show ?thesis using rows_ok_a list_all_split by blast
qed

end
