(* ===== verification/ParserCorrect.thy ===== *)
theory ParserCorrect
  imports ParserCert LexerCorrect
begin

text \<open>
  The parser is correct for the grammar of its productions: it always stops, what it accepts is a
  derivation of the tokens that it has read with the value of the actions along it, and it panics on no
  text without parentheses.
\<close>

section \<open>What the certificate gives\<close>

definition acc :: "nat \<Rightarrow> symbol" where "acc s = fst (cert s)"
definition past :: "nat \<Rightarrow> symbol list" where "past s = fst (snd (cert s))"
definition need :: "nat \<Rightarrow> nat list list" where "need s = snd (snd (cert s))"

definition edge :: "nat \<Rightarrow> symbol \<Rightarrow> nat \<Rightarrow> bool" where
  "edge s X t = (case X of T a \<Rightarrow> action_for s a = Some (Shift t) | N A \<Rightarrow> goto_for s A = Some t)"

lemma table_lengths: "length action_tab = 151" "length goto_tab = 151"
  by code_simp+

lemma row_ok_at: "s < 151 \<Longrightarrow> row_ok (s, action_tab ! s, goto_tab ! s)"
proof -
  assume s: "s < 151"
  have "table_rows ! s = (s, action_tab ! s, goto_tab ! s)" "s < length table_rows"
    using s table_lengths by (simp_all add: table_rows_def)
  then have "(s, action_tab ! s, goto_tab ! s) \<in> set table_rows" by (metis nth_mem)
  then show ?thesis by (rule bspec[OF rows_ok[unfolded list_all_iff]])
qed

lemma action_entry_ok:
  assumes "s < 151" "action_for s a = Some act"
  shows "entry_ok (s, action_tab ! s, goto_tab ! s) (a, act)"
proof -
  have "(a, act) \<in> set (snd (action_tab ! s))"
    using assms(2) by (auto simp: action_for_def dest: map_of_SomeD)
  then show ?thesis using row_ok_at[OF assms(1)] by (fastforce simp: row_ok_def list_all_iff)
qed

lemma no_recovery:
  assumes "s < 151"
  shows "\<not> can_recover s" "action_for s INVALID = None"
  using row_ok_at[OF assms] by (auto simp: row_ok_def can_recover_def action_for_def)

lemma need_past: "s < 151 \<Longrightarrow> length (need s) = length (past s)"
  using row_ok_at[of s] by (auto simp: row_ok_def need_def past_def)

lemma edge_checked:
  assumes "s < 151" "edge s X t"
  shows "edge_ok (s, action_tab ! s, goto_tab ! s) X t"
proof (cases X)
  case (T a)
  then show ?thesis
    using action_entry_ok[OF assms(1), of a "Shift t"] assms(2) by (simp add: edge_def entry_ok_def)
next
  case (N A)
  then have "(A, t) \<in> set (goto_tab ! s)"
    using assms(2) by (auto simp: edge_def goto_for_def dest: map_of_SomeD)
  then show ?thesis using row_ok_at[OF assms(1)] N by (fastforce simp: row_ok_def list_all_iff)
qed

lemma edge_facts:
  assumes "s < 151" "edge s X t"
  shows "0 < t" "t < 151" "acc t = X" "past t = take (length (past t)) (X # past s)" "X = N 1 \<Longrightarrow> s = 0"
  using edge_checked[OF assms] by (auto simp: edge_ok_def acc_def past_def split: prod.splits)

lemma edge_need:
  assumes "s < 151" "edge s X t" "i < length (need t)"
  shows "case i of 0 \<Rightarrow> list_all (\<lambda>A. goto_for s A \<noteq> None) (need t ! 0)
         | Suc j \<Rightarrow> j < length (need s) \<and> set (need t ! i) \<subseteq> set (need s ! j)"
proof (cases "need t")
  case Nil
  then show ?thesis using assms(3) by simp
next
  case (Cons here deeper)
  have "list_all (\<lambda>A. goto_for s A \<noteq> None) here"
    "list_all2 (\<lambda>a b. list_all (\<lambda>A. A \<in> set b) a) deeper (take (length deeper) (need s))"
    using edge_checked[OF assms(1,2)] Cons
    by (auto simp: edge_ok_def need_def goto_for_def split: prod.splits list.splits)
  then show ?thesis
    using Cons assms(3)
    by (auto simp: list_all2_conv_all_nth list_all_iff split: nat.split)
qed

lemma shift_facts:
  assumes "s < 151" "action_for s a = Some (Shift t)"
  shows "1 < a" "edge s (T a) t"
  using action_entry_ok[OF assms] assms(2) by (simp_all add: entry_ok_def edge_def)

lemma accept_facts:
  assumes "s < 151" "action_for s a = Some Accept"
  shows "s = 1" "a = EOF"
  using action_entry_ok[OF assms] by (simp_all add: entry_ok_def)

lemma shape_at: "p < 64 \<Longrightarrow> shape (productions_table ord ! p) = shape_of p"
  using arg_cong[OF shape_table[of ord], of "\<lambda>xs. xs ! p"] arg_cong[OF shape_table[of ord], of length]
  by simp

lemma productions_length: "length (productions_table ord) = 64"
  using arg_cong[OF shape_table[of ord], of length] by simp

lemma reduce_facts:
  fixes ord
  assumes "s < 151" "action_for s a = Some (Reduce p)"
  defines "e \<equiv> productions_table ord ! p"
  shows "e \<in> set (productions_table ord)" "NumSymbols e = length (Rhs e)"
    "rev (Rhs e) = take (length (Rhs e)) (past s)"
    "Rhs e = [] \<Longrightarrow> goto_for s (NTType e) \<noteq> None"
    "Rhs e \<noteq> [] \<Longrightarrow> NTType e \<in> set (need s ! (length (Rhs e) - 1))"
proof -
  have r: "reduce_ok (s, action_tab ! s, goto_tab ! s) p"
    using action_entry_ok[OF assms(1,2)] by (simp add: entry_ok_def)
  then have p: "p < 64" by (auto simp: reduce_ok_def split: prod.splits)
  then show "e \<in> set (productions_table ord)" using productions_length by (auto simp: e_def)
  have "shape_of p = (NTType e, NumSymbols e, Rhs e)"
    using shape_at[OF p, of ord] by (simp add: shape_def e_def)
  then show "NumSymbols e = length (Rhs e)" "rev (Rhs e) = take (length (Rhs e)) (past s)"
    "Rhs e = [] \<Longrightarrow> goto_for s (NTType e) \<noteq> None"
    "Rhs e \<noteq> [] \<Longrightarrow> NTType e \<in> set (need s ! (length (Rhs e) - 1))"
    using r by (auto simp: reduce_ok_def past_def need_def goto_for_def split: prod.splits)
qed

section \<open>The stack\<close>

fun viable :: "pstack \<Rightarrow> bool" where
  "viable [] = False"
| "viable [(s, a)] = (s = 0)"
| "viable ((t, b) # (s, a) # r) = (edge s (acc t) t \<and> viable ((s, a) # r))"

definition symbols :: "pstack \<Rightarrow> symbol list" where
  "symbols stk = map (acc \<circ> fst) (butlast stk)"

lemma viable_state: "viable ((s, a) # r) \<Longrightarrow> s < 151"
  by (induction "(s, a) # r" arbitrary: s a r rule: viable.induct) (auto dest: edge_facts)

lemma viable_tl: "viable (x # y # r) \<Longrightarrow> viable (y # r)"
  by (cases x; cases y) simp

lemma viable_drop: "viable stk \<Longrightarrow> n < length stk \<Longrightarrow> viable (drop n stk)"
proof (induction n arbitrary: stk)
  case (Suc n)
  then obtain x y r where "stk = x # y # r" by (cases stk rule: remdups_adj.cases) auto
  then show ?case using Suc viable_tl by auto
qed simp

lemma past_0: "past 0 = []" "need 0 = []"
  by code_simp+

lemma take_prefix_cons:
  assumes "p = take (length p) (x # q)" "q = take (length q) r"
  shows "p = take (length p) (x # r)"
proof -
  have "length p \<le> Suc (length q)"
    using arg_cong[OF assms(1), of length] by simp
  moreover have "x # q = take (Suc (length q)) (x # r)" using assms(2) by simp
  ultimately show ?thesis using assms(1) by (metis min.absorb1 take_take)
qed

lemma viable_past: "viable ((s, a) # r) \<Longrightarrow> past s = take (length (past s)) (symbols ((s, a) # r))"
proof (induction "(s, a) # r" arbitrary: s a r rule: viable.induct)
  case (3 t b s a r)
  then have e: "edge s (acc t) t" "s < 151" by (auto dest: viable_state)
  have "past t = take (length (past t)) (acc t # past s)" using edge_facts(4)[OF e(2,1)] .
  moreover have "past s = take (length (past s)) (symbols ((s, a) # r))" using 3 by simp
  moreover have "symbols ((t, b) # (s, a) # r) = acc t # symbols ((s, a) # r)"
    by (simp add: symbols_def)
  ultimately show ?case by (metis take_prefix_cons)
qed (simp_all add: past_0)

lemma viable_need:
  "\<lbrakk>viable ((s, a) # r); i < length (need s)\<rbrakk> \<Longrightarrow>
     i < length r \<and> list_all (\<lambda>A. goto_for (fst (r ! i)) A \<noteq> None) (need s ! i)"
proof (induction "(s, a) # r" arbitrary: s a r i rule: viable.induct)
  case (3 t b s a r)
  have e: "s < 151" "edge s (acc t) t" using 3(2) by (auto dest: viable_state)
  show ?case
  proof (cases i)
    case 0
    then show ?thesis using edge_need[OF e, of 0] 3(3) by simp
  next
    case (Suc j)
    then have j: "j < length (need s)" "set (need t ! i) \<subseteq> set (need s ! j)"
      using edge_need[OF e 3(3)] by simp_all
    then have "j < length r \<and> list_all (\<lambda>A. goto_for (fst (r ! j)) A \<noteq> None) (need s ! j)"
      using 3(1)[of j] 3(2) by simp
    then show ?thesis using j(2) Suc by (auto simp: list_all_iff)
  qed
qed (simp_all add: past_0)

lemma symbols_drop: "n < length stk \<Longrightarrow> symbols (drop n stk) = drop n (symbols stk)"
  by (simp add: symbols_def butlast_drop drop_map)

lemma length_symbols [simp]: "length (symbols stk) = length stk - 1"
  by (simp add: symbols_def)

lemma viable_push:
  assumes "viable ((s, a) # r)" "edge s X t"
  shows "viable (push t v ((s, a) # r))" "symbols (push t v ((s, a) # r)) = X # symbols ((s, a) # r)"
  using edge_facts(3)[OF viable_state[OF assms(1)] assms(2)] assms
  by (simp_all add: push_def symbols_def)

text \<open>A reduction finds its right-hand side on top of the stack, and a state to go to below it.\<close>

lemma reduce_stack:
  fixes ord
  assumes "viable stk" "stk = (s, a) # r" "action_for s typ = Some (Reduce p)"
  defines "e \<equiv> productions_table ord ! p"
  obtains q b r' t where
    "drop (NumSymbols e) stk = (q, b) # r'" "edge q (N (NTType e)) t" "NumSymbols e < length stk"
    "rev (Rhs e) = take (NumSymbols e) (symbols stk)" "viable (drop (NumSymbols e) stk)"
    "goto_for q (NTType e) = Some t" "NumSymbols e = length (Rhs e)"
    "e \<in> set (productions_table ord)"
proof -
  have s: "s < 151" using assms(1,2) viable_state by blast
  note rf = reduce_facts[OF s assms(3), of ord, folded e_def]
  let ?n = "NumSymbols e"
  have "?n \<le> length (past s)"
    using arg_cong[OF rf(3), of length] rf(2) by simp
  moreover have pre: "past s = take (length (past s)) (symbols stk)"
    using viable_past assms(1,2) by blast
  ultimately have "?n \<le> length (symbols stk)"
    by (metis le_trans length_take min.cobounded1)
  then have n: "?n < length stk" using assms(2) by simp
  have rhs: "rev (Rhs e) = take ?n (symbols stk)"
    using rf(2,3) pre \<open>?n \<le> length (past s)\<close> by (metis min.absorb1 take_take)
  obtain q b r' where d: "drop ?n stk = (q, b) # r'"
    using n by (metis Cons_nth_drop_Suc surj_pair)
  have "goto_for q (NTType e) \<noteq> None"
  proof (cases "Rhs e = []")
    case True
    then show ?thesis using rf(2,4) d assms(2) by simp
  next
    case False
    then obtain m where m: "?n = Suc m" using rf(2) by (cases "Rhs e") auto
    have "m < length (need s)" using \<open>?n \<le> length (past s)\<close> m need_past[OF s] by simp
    then have "m < length r" "list_all (\<lambda>A. goto_for (fst (r ! m)) A \<noteq> None) (need s ! m)"
      using viable_need assms(1,2) by blast+
    moreover have "r ! m = (q, b)" using d m assms(2) \<open>m < length r\<close>
      by (metis Cons_nth_drop_Suc drop_Suc_Cons list.inject)
    moreover have "NTType e \<in> set (need s ! m)" using rf(5)[OF False] rf(2) m by (metis diff_Suc_1)
    ultimately show ?thesis by (auto simp: list_all_iff)
  qed
  then obtain t where "goto_for q (NTType e) = Some t" by auto
  then show ?thesis
    using that d n rhs rf(1,2) viable_drop[OF assms(1) n] by (simp add: edge_def)
qed

section \<open>The grammar\<close>

text \<open>
  \<open>yields ord X ts v\<close>: the tokens \<open>ts\<close> are derived from the symbol \<open>X\<close> with the productions, and
  \<open>v\<close> is what the actions of the derivation compute.
\<close>

inductive yields :: "varorder \<Rightarrow> symbol \<Rightarrow> token list \<Rightarrow> attrib \<Rightarrow> bool"
  and yields_all :: "varorder \<Rightarrow> symbol list \<Rightarrow> token list \<Rightarrow> attrib list \<Rightarrow> bool"
  for ord :: varorder where
  token: "yields ord (T (TType t)) [t] (ATok t)"
| production:
    "\<lbrakk>e \<in> set (productions_table ord); yields_all ord (Rhs e) ts X; ReduceFunc e X = Some v\<rbrakk>
     \<Longrightarrow> yields ord (N (NTType e)) ts v"
| none: "yields_all ord [] [] []"
| more: "\<lbrakk>yields ord S ts v; yields_all ord Ss ts' vs\<rbrakk> \<Longrightarrow> yields_all ord (S # Ss) (ts @ ts') (v # vs)"

inductive_cases yields_all_NilE: "yields_all ord [] ts vs"
inductive_cases yields_all_ConsE: "yields_all ord (S # Ss) ts vs"

lemma yields_all_append:
  "yields_all ord Ss ts vs \<Longrightarrow> yields_all ord Ss' ts' vs' \<Longrightarrow> yields_all ord (Ss @ Ss') (ts @ ts') (vs @ vs')"
proof (induction Ss arbitrary: ts vs)
  case Nil
  then show ?case by (auto elim: yields_all_NilE)
next
  case (Cons S Ss)
  then show ?case by (auto elim!: yields_all_ConsE intro!: yields_yields_all.more)
qed

lemma yields_all_single: "yields ord S ts v \<Longrightarrow> yields_all ord [S] ts [v]"
  using yields_yields_all.more[OF _ yields_yields_all.none] by fastforce

lemma yields_all_split:
  assumes "yields_all ord (Ss @ Ss') ts vs"
  obtains ts1 ts2 vs1 vs2 where "ts = ts1 @ ts2" "vs = vs1 @ vs2" "yields_all ord Ss ts1 vs1"
    "yields_all ord Ss' ts2 vs2" "length vs1 = length Ss"
  using assms
proof (induction Ss arbitrary: ts vs thesis)
  case Nil
  then show ?case using yields_yields_all.none by fastforce
next
  case (Cons S Ss)
  from Cons.prems(2) obtain t0 v t1 vs' where
    s: "ts = t0 @ t1" "vs = v # vs'" "yields ord S t0 v" "yields_all ord (Ss @ Ss') t1 vs'"
    by (auto elim: yields_all_ConsE)
  obtain ts1 ts2 vs1 vs2 where "t1 = ts1 @ ts2" "vs' = vs1 @ vs2" "yields_all ord Ss ts1 vs1"
    "yields_all ord Ss' ts2 vs2" "length vs1 = length Ss"
    using Cons.IH[OF _ s(4)] by blast
  then show ?case
    using Cons.prems(1)[of "t0 @ ts1" ts2 "v # vs1" vs2] s by (auto intro: yields_yields_all.more)
qed


section \<open>One step of the parser\<close>

text \<open>The stack holds a derivation of the tokens read so far.\<close>

definition stack_ok :: "varorder \<Rightarrow> pstack \<Rightarrow> token list \<Rightarrow> bool" where
  "stack_ok ord stk ts \<longleftrightarrow>
     viable stk \<and> yields_all ord (rev (symbols stk)) ts (map snd (rev (butlast stk)))"

lemma new_stack_ok: "stack_ok ord new_stack []"
  by (simp add: stack_ok_def new_stack_def push_def symbols_def yields_yields_all.none)

lemma stack_ok_push:
  assumes "stack_ok ord ((s, a) # r) ts" "edge s X t" "yields ord X ts' v"
  shows "stack_ok ord (push t v ((s, a) # r)) (ts @ ts')"
proof -
  have "viable (push t v ((s, a) # r))" "symbols (push t v ((s, a) # r)) = X # symbols ((s, a) # r)"
    using assms(1,2) viable_push by (auto simp: stack_ok_def)
  moreover have "yields_all ord (rev (symbols ((s, a) # r)) @ [X]) (ts @ ts')
      (map snd (rev (butlast ((s, a) # r))) @ [v])"
    using assms yields_all_append yields_all_single by (simp add: stack_ok_def)
  ultimately show ?thesis by (simp add: stack_ok_def push_def)
qed

lemma popN_below: "n < length stk \<Longrightarrow> popN n stk = Some (rev (map snd (take n stk)), drop n stk)"
  by (simp add: popN_def)

lemma stack_ok_pop:
  assumes "stack_ok ord stk ts" "n < length stk" "rev Ss = take n (symbols stk)" "n = length Ss"
  obtains ts1 ts2 where "ts = ts1 @ ts2" "stack_ok ord (drop n stk) ts1"
    "yields_all ord Ss ts2 (rev (map snd (take n stk)))"
proof -
  have "rev (symbols stk) = rev (drop n (symbols stk)) @ Ss"
    by (metis append_take_drop_id assms(3) rev_append rev_rev_ident)
  then have "yields_all ord (rev (drop n (symbols stk)) @ Ss) ts (map snd (rev (butlast stk)))"
    using assms(1) by (simp add: stack_ok_def)
  then obtain ts1 ts2 vs1 vs2 where s: "ts = ts1 @ ts2" "map snd (rev (butlast stk)) = vs1 @ vs2"
    "yields_all ord (rev (drop n (symbols stk))) ts1 vs1" "yields_all ord Ss ts2 vs2"
    "length vs1 = length (rev (drop n (symbols stk)))"
    by (rule yields_all_split)
  have "map snd (rev (butlast stk)) =
      map snd (rev (butlast (drop n stk))) @ rev (map snd (take n stk))"
  proof -
    have "butlast stk = take n stk @ butlast (drop n stk)"
      using assms(2) by (metis append_take_drop_id butlast_append drop_eq_Nil not_le)
    then show ?thesis by (metis map_append rev_append rev_map)
  qed
  moreover have "length (map snd (rev (butlast (drop n stk)))) = length vs1" using s(5) by simp
  ultimately have "vs1 = map snd (rev (butlast (drop n stk)))" "vs2 = rev (map snd (take n stk))"
    using s(2) by (metis append_eq_append_conv)+
  then show ?thesis
    using that[OF s(1)] s(3,4) assms(1,2) viable_drop by (simp add: stack_ok_def symbols_drop)
qed

text \<open>What a step does with a good stack.\<close>

lemma step_shift:
  assumes "stack_ok ord stk ts" "parse_step ord stk tok = Shifted stk'"
  shows "stack_ok ord stk' (ts @ [tok])" "1 < TType tok"
proof -
  obtain s a r where stk: "stk = (s, a) # r" using assms(1) by (cases stk) (auto simp: stack_ok_def)
  then obtain t where t: "action_for s (TType tok) = Some (Shift t)" "stk' = push t (ATok tok) stk"
    using assms(2) by (auto simp: parse_step_def split: option.splits action.splits prod.splits)
  have s: "s < 151" using assms(1) stk viable_state by (auto simp: stack_ok_def)
  show "1 < TType tok" using shift_facts(1)[OF s t(1)] .
  show "stack_ok ord stk' (ts @ [tok])"
    unfolding t(2) stk
    using stack_ok_push assms(1) stk shift_facts(2)[OF s t(1)] yields_yields_all.token by blast
qed

lemma step_accept:
  assumes "stack_ok ord stk ts" "parse_step ord stk tok = Done (Accepted v)"
  shows "yields ord (N 1) ts v" "TType tok = EOF"
proof -
  obtain s a r where stk: "stk = (s, a) # r" using assms(1) by (cases stk) (auto simp: stack_ok_def)
  then have t: "action_for s (TType tok) = Some Accept" "v = a"
    using assms(2) by (auto simp: parse_step_def split: option.splits action.splits prod.splits)
  have s: "s < 151" and via: "viable stk"
    using assms(1) stk viable_state by (auto simp: stack_ok_def)
  then have 1: "s = 1" "TType tok = EOF" using accept_facts t(1) by blast+
  then show "TType tok = EOF" by simp
  obtain s' a' r' where r: "r = (s', a') # r'" using via stk 1 by (cases r) auto
  have "edge s' (acc 1) 1" "s' < 151" using via stk r 1 viable_state by auto
  moreover have acc1: "acc 1 = N 1" by code_simp
  ultimately have "s' = 0" using edge_facts(5) by metis
  have "r' = []"
  proof (rule ccontr)
    assume "r' \<noteq> []"
    then obtain y r'' where "r' = y # r''" by (cases r') auto
    then have "edge (fst y) (acc 0) 0" "fst y < 151"
      using via stk r \<open>s' = 0\<close> viable_state by (cases y; force)+
    then show False using edge_facts(1) by blast
  qed
  then have "yields_all ord [N 1] ts [v]"
    using assms(1) stk r 1 t acc1 by (simp add: stack_ok_def symbols_def)
  then show "yields ord (N 1) ts v"
    by (auto elim!: yields_all_ConsE yields_all_NilE)
qed


section \<open>Weights\<close>

text \<open>
  Between two tokens the parser only reduces. Each reduction makes the weight of the stack smaller: a
  symbol weighs more than what it can be reduced to on its own, and a state that may reduce to the empty
  \<open>Joiner\<close> carries an extra.
\<close>

definition nt_weights :: "nat list" where
  "nt_weights =
     [1, 2, 1, 1, 1, 1, 1, 1, 1, 1, 2, 4, 1, 1, 2, 5, 3, 4, 1, 2, 3, 4, 1, 1, 2, 1, 2, 5, 1]"

fun symbol_weight :: "symbol \<Rightarrow> nat" where
  "symbol_weight (T a) = 8"
| "symbol_weight (N A) = (if A < 29 then nt_weights ! A else 0)"

definition extra :: "symbol \<Rightarrow> nat" where
  "extra X = (if X = N 14 \<or> X = N 26 \<or> X = N 28 then 2 else 0)"

definition top_extra :: "symbol list \<Rightarrow> nat" where
  "top_extra Xs = (case Xs of [] \<Rightarrow> 0 | X # _ \<Rightarrow> extra X)"

definition weight :: "pstack \<Rightarrow> nat" where
  "weight stk = sum_list (map symbol_weight (symbols stk)) + top_extra (symbols stk)"

definition shape_weight_ok :: "nat \<Rightarrow> bool" where
  "shape_weight_ok p =
     (case shape_of p of (A, n, rhs) \<Rightarrow>
        if rhs = [] then p = 57 \<and> A = 25
        else symbol_weight (N A) + extra (N A) < sum_list (map symbol_weight rhs) + extra (last rhs))"

lemma shape_weights_ok: "list_all shape_weight_ok [0..<64]"
  by code_simp

fun is_empty_joiner :: "nat \<times> action \<Rightarrow> bool" where
  "is_empty_joiner (a, Reduce p) = (p = 57)"
| "is_empty_joiner _ = False"

definition joiner_row_ok :: "table_row \<Rightarrow> bool" where
  "joiner_row_ok row =
     (case row of (s, acts, gotos) \<Rightarrow>
        if list_ex is_empty_joiner (snd acts) then 0 < s \<and> extra (acc s) = 2 else True)"

lemma joiner_rows_ok: "list_all joiner_row_ok table_rows"
  by code_simp

lemma extra_le: "extra X \<le> 2" and symbol_weight_le: "symbol_weight X \<le> 8"
proof -
  show "extra X \<le> 2" by (simp add: extra_def)
  have "list_all (\<lambda>A. nt_weights ! A \<le> 8) [0..<29]" by code_simp
  then show "symbol_weight X \<le> 8"
    by (cases X) (auto simp: list_all_iff)
qed


lemma weight_reduce:
  assumes via: "viable stk" and stk: "stk = (s, a) # r"
    and act: "action_for s typ = Some (Reduce p)"
    and e: "e = productions_table ord ! p"
    and rhs: "rev (Rhs e) = take (NumSymbols e) (symbols stk)" "NumSymbols e = length (Rhs e)"
    and new: "symbols stk' = N (NTType e) # drop (NumSymbols e) (symbols stk)"
  shows "weight stk' < weight stk"
proof -
  have s: "s < 151" using via stk viable_state by blast
  have "reduce_ok (s, action_tab ! s, goto_tab ! s) p"
    using action_entry_ok[OF s act] by (simp add: entry_ok_def)
  then have p: "p < 64" by (auto simp: reduce_ok_def split: prod.splits)
  have "shape_of p = (NTType e, NumSymbols e, Rhs e)"
    using shape_at[OF p, of ord] e by (simp add: shape_def)
  moreover have "shape_weight_ok p" using shape_weights_ok p by (simp add: list_all_iff)
  ultimately have w: "if Rhs e = [] then p = 57 \<and> NTType e = 25
      else symbol_weight (N (NTType e)) + extra (N (NTType e))
        < sum_list (map symbol_weight (Rhs e)) + extra (last (Rhs e))"
    by (simp add: shape_weight_ok_def)
  have new_w: "weight stk' = symbol_weight (N (NTType e)) + extra (N (NTType e)) +
      sum_list (map symbol_weight (drop (NumSymbols e) (symbols stk)))"
    using new by (simp add: weight_def top_extra_def)
  show ?thesis
  proof (cases "Rhs e = []")
    case True
    then have "p = 57" "NTType e = 25" using w by auto
    moreover have "joiner_row_ok (s, action_tab ! s, goto_tab ! s)"
    proof -
      have "table_rows ! s = (s, action_tab ! s, goto_tab ! s)" "s < length table_rows"
        using s table_lengths by (simp_all add: table_rows_def)
      then show ?thesis using joiner_rows_ok by (metis list_all_length)
    qed
    moreover have "(typ, Reduce 57) \<in> set (snd (action_tab ! s))"
      using act \<open>p = 57\<close> by (auto simp: action_for_def dest: map_of_SomeD)
    ultimately have x: "0 < s" "extra (acc s) = 2"
      by (auto simp: joiner_row_ok_def list_ex_iff split: if_split_asm)
    then have "symbols stk = acc s # map (acc \<circ> fst) (butlast r)"
      using via stk by (cases r) (auto simp: symbols_def)
    then show ?thesis using new_w x True rhs \<open>NTType e = 25\<close>
      by (simp add: weight_def top_extra_def extra_def[of "N 25"] nt_weights_def)
  next
    case False
    have "symbols stk = rev (Rhs e) @ drop (NumSymbols e) (symbols stk)"
      using rhs(1) by simp
    moreover have "rev (Rhs e) = last (Rhs e) # tl (rev (Rhs e))"
      using False by (metis hd_rev list.collapse rev_is_Nil_conv)
    ultimately have "weight stk = sum_list (map symbol_weight (Rhs e)) +
        sum_list (map symbol_weight (drop (NumSymbols e) (symbols stk))) + extra (last (Rhs e))"
      unfolding weight_def top_extra_def
      by (metis (no_types, lifting) append_Cons list.simps(5) map_append rev_map sum_list_append sum_list_rev)
    then show ?thesis using w False new_w by simp
  qed
qed

text \<open>What a step that reduces has done, and why a step may panic.\<close>

lemma parse_step_reduce:
  assumes "stack_ok ord stk ts" "stk = (s, a) # r" "action_for s (TType tok) = Some (Reduce p)"
  defines "e \<equiv> productions_table ord ! p"
  obtains ts1 ts2 X where "ts = ts1 @ ts2" "e \<in> set (productions_table ord)" "yields_all ord (Rhs e) ts2 X"
    "parse_step ord stk tok = Done Panicked \<Longrightarrow> ReduceFunc e X = None"
    "\<And>stk'. parse_step ord stk tok = Reduced stk' \<Longrightarrow>
       stack_ok ord stk' ts \<and> weight stk' < weight stk"
    "\<exists>stk'. parse_step ord stk tok \<in> {Done Panicked, Reduced stk'}"
proof -
  have via: "viable stk" using assms(1) by (simp add: stack_ok_def)
  obtain q b r' t where d: "drop (NumSymbols e) stk = (q, b) # r'" "edge q (N (NTType e)) t"
    "NumSymbols e < length stk" "rev (Rhs e) = take (NumSymbols e) (symbols stk)"
    "goto_for q (NTType e) = Some t" "NumSymbols e = length (Rhs e)" "e \<in> set (productions_table ord)"
    using reduce_stack[OF via assms(2,3), of ord] unfolding e_def by metis
  obtain ts1 ts2 where ts: "ts = ts1 @ ts2" "stack_ok ord (drop (NumSymbols e) stk) ts1"
    "yields_all ord (Rhs e) ts2 (rev (map snd (take (NumSymbols e) stk)))"
    using stack_ok_pop[OF assms(1) d(3,4,6)] by blast
  let ?X = "rev (map snd (take (NumSymbols e) stk))"
  have step: "parse_step ord stk tok =
      (case ReduceFunc e ?X of None \<Rightarrow> Done Panicked
       | Some v \<Rightarrow> Reduced (push t v (drop (NumSymbols e) stk)))"
    using assms(2,3) d(1,3,5)
    by (simp add: parse_step_def e_def popN_def top_state_def split: option.split)
  show ?thesis
  proof (rule that[OF ts(1) d(7) ts(3)])
    show "parse_step ord stk tok = Done Panicked \<Longrightarrow> ReduceFunc e ?X = None"
      using step by (simp split: option.split_asm)
    show "\<exists>stk'. parse_step ord stk tok \<in> {Done Panicked, Reduced stk'}"
      using step by (simp split: option.split)
    fix stk'
    assume "parse_step ord stk tok = Reduced stk'"
    then obtain v where v: "ReduceFunc e ?X = Some v" "stk' = push t v (drop (NumSymbols e) stk)"
      using step by (auto split: option.split_asm)
    have y: "yields ord (N (NTType e)) ts2 v"
      using yields_yields_all.production[OF d(7) ts(3) v(1)] .
    have ok: "stack_ok ord stk' (ts1 @ ts2)"
      using stack_ok_push[OF ts(2)[unfolded d(1)] d(2) y] v(2) d(1) by simp
    have "symbols stk' = N (NTType e) # symbols (drop (NumSymbols e) stk)"
      using viable_push(2)[of q b r' "N (NTType e)" t v] ts(2) d(1,2) v(2) by (simp add: stack_ok_def)
    then have "weight stk' < weight stk"
      using weight_reduce[OF via assms(2,3) e_def[THEN meta_eq_to_obj_eq] d(4,6)] symbols_drop[OF d(3)] by simp
    then show "stack_ok ord stk' ts \<and> weight stk' < weight stk" using ok ts(1) by simp
  qed
qed


section \<open>Panics\<close>

text \<open>
  The type of an attribute that a symbol is meant to have. The actions keep to it, with one exception:
  \<open>PathPrimary : "(" Path ")"\<close> passes on a list of patterns where one pattern is asserted.
\<close>

fun kind :: "symbol \<Rightarrow> attrib \<Rightarrow> bool" where
  "kind (T a) v = (as_tok v \<noteq> None)"
| "kind (N A) v =
     (if A \<in> {0, 1, 2, 3, 4} then as_query v \<noteq> None
      else if A \<in> {5, 7} then as_select v \<noteq> None
      else if A = 6 then as_insert v \<noteq> None
      else if A \<in> {8, 9} then as_strs v \<noteq> None
      else if A \<in> {10, 11, 17} then as_str v \<noteq> None
      else if A = 12 then as_from v \<noteq> None
      else if A = 13 then as_where v \<noteq> None
      else if A = 14 then as_triples v \<noteq> None
      else if A = 15 then as_triple v \<noteq> None
      else if A = 16 then as_uri v \<noteq> None
      else if A \<in> {18, 19} then as_paths v \<noteq> None
      else if A \<in> {20, 21} then as_path v \<noteq> None
      else if A = 22 then as_pattern v \<noteq> None
      else if A = 25 then True
      else as_group v \<noteq> None)"

abbreviation (input) OPEN_PAREN :: nat where "OPEN_PAREN \<equiv> 20"

definition action_kind_ok :: "prod_entry \<Rightarrow> bool" where
  "action_kind_ok e \<longleftrightarrow>
     T OPEN_PAREN \<in> set (Rhs e) \<or>
     (\<forall>X. list_all2 kind (Rhs e) X \<longrightarrow> (\<exists>v. ReduceFunc e X = Some v \<and> kind (N (NTType e)) v))"

lemmas action_defs =
  args1_def args2_def args3_def arg_def assert1_def assert2_def assert3_def
  NewQuery_def NewInsertQuery_def NewQueryMulti_def NewInsertQueryMulti_def NewAllSelectClause_def
  NewSelectClause_def NewInsertClause_def NewAllFromClause_def NewFromClause_def NewWhereClause_def
  NewWhereClauseWithGraphGroup_def NewWhereClauseGraphGroup_def GraphGroupFromTriples_def
  GraphGroupUnion_def AddTriplesToGraphGroup_def MergeGraphGroups_def NewTriple_def NewTripleBlock_def
  AppendTripleBlock_def NewURI_def NewVarList_def AppendVar_def NewStringList_def AppendString_def
  ParseString_def ParseQuotedString_def NewPathSequence_def AppendPathSequence_def NewPathPattern_def
  AddPathMod_def PathFromVar_def

lemma productions_0_kinds: "list_all action_kind_ok (productions_0 ord)"
  unfolding productions_0_def
  by (auto simp: action_kind_ok_def action_defs list_all2_Cons1)

lemma productions_8_kinds: "list_all action_kind_ok (productions_8 ord)"
  unfolding productions_8_def
  by (auto simp: action_kind_ok_def action_defs list_all2_Cons1)

lemma productions_16_kinds: "list_all action_kind_ok (productions_16 ord)"
  unfolding productions_16_def
  by (auto simp: action_kind_ok_def action_defs list_all2_Cons1)

lemma productions_24_kinds: "list_all action_kind_ok (productions_24 ord)"
  unfolding productions_24_def
  by (auto simp: action_kind_ok_def action_defs list_all2_Cons1)

lemma productions_32_kinds: "list_all action_kind_ok (productions_32 ord)"
  unfolding productions_32_def
  by (auto simp: action_kind_ok_def action_defs list_all2_Cons1)

lemma productions_40_kinds: "list_all action_kind_ok (productions_40 ord)"
  unfolding productions_40_def
  by (auto simp: action_kind_ok_def action_defs list_all2_Cons1)

lemma productions_48_kinds: "list_all action_kind_ok (productions_48 ord)"
  unfolding productions_48_def
  by (auto simp: action_kind_ok_def action_defs list_all2_Cons1)

lemma productions_56_kinds: "list_all action_kind_ok (productions_56 ord)"
  unfolding productions_56_def
  by (auto simp: action_kind_ok_def action_defs list_all2_Cons1)

lemma action_kinds: "e \<in> set (productions_table ord) \<Longrightarrow> action_kind_ok e"
  using productions_0_kinds[of ord] productions_8_kinds[of ord] productions_16_kinds[of ord]
    productions_24_kinds[of ord] productions_32_kinds[of ord] productions_40_kinds[of ord]
    productions_48_kinds[of ord] productions_56_kinds[of ord]
  by (auto simp: productions_table_def list_all_iff)

lemma yields_terminals:
  "yields ord S ts v \<Longrightarrow> S = T a \<Longrightarrow> \<exists>t \<in> set ts. TType t = a"
  "yields_all ord Ss ts X \<Longrightarrow> T a \<in> set Ss \<Longrightarrow> \<exists>t \<in> set ts. TType t = a"
  by (induction rule: yields_yields_all.inducts) auto

lemma yields_kind:
  "yields ord S ts v \<Longrightarrow> \<forall>t \<in> set ts. TType t \<noteq> OPEN_PAREN \<Longrightarrow> kind S v"
  "yields_all ord Ss ts X \<Longrightarrow> \<forall>t \<in> set ts. TType t \<noteq> OPEN_PAREN \<Longrightarrow> list_all2 kind Ss X"
proof (induction rule: yields_yields_all.inducts)
  case (production e ts X v)
  then have "T OPEN_PAREN \<notin> set (Rhs e)" using yields_terminals(2) by blast
  then show ?case
    using action_kinds[OF production(1)] production by (fastforce simp: action_kind_ok_def)
qed auto

lemma no_paren_no_panic:
  assumes "e \<in> set (productions_table ord)" "yields_all ord (Rhs e) ts X" "ReduceFunc e X = None"
  shows "\<exists>t \<in> set ts. TType t = OPEN_PAREN"
proof (rule ccontr)
  assume "\<not> ?thesis"
  then have "list_all2 kind (Rhs e) X" "T OPEN_PAREN \<notin> set (Rhs e)"
    using yields_kind(2)[OF assms(2)] yields_terminals(2)[OF assms(2)] by blast+
  then show False using action_kinds[OF assms(1)] assms(3) by (auto simp: action_kind_ok_def)
qed


section \<open>Errors\<close>

lemma no_recovery_state: "viable stk \<Longrightarrow> \<not> snd (first_recovery_state stk)"
proof (induction stk rule: first_recovery_state.induct)
  case (2 s a)
  then show ?case using no_recovery(1)[of s] by simp
next
  case (3 s a y r)
  then have "s < 151" "viable (y # r)" using viable_state viable_tl by blast+
  then show ?case using 3(1) no_recovery(1)[of s] by simp
qed simp

lemma error_type: "token_type ''error'' = INVALID"
  by code_simp

lemma handle_error_fails:
  assumes "viable stk" "stk = (s, a) # r"
  shows "handle_error scanf stk tok l = Some (Recovery False stk tok l)"
proof -
  have "pop_non_recovery_states stk = stk"
    using no_recovery_state[OF assms(1)] by (auto simp: pop_non_recovery_states_def split: prod.splits bool.splits)
  moreover have "action_for s INVALID = None" using assms viable_state no_recovery(2) by blast
  ultimately show ?thesis using assms(2) by (simp add: handle_error_def error_type)
qed

section \<open>The loop\<close>

text \<open>The tokens that a scanner gives before the end of its input.\<close>

inductive reads :: "('l \<Rightarrow> token \<times> 'l) \<Rightarrow> 'l \<Rightarrow> token list \<Rightarrow> 'l \<Rightarrow> bool"
  for scanf :: "'l \<Rightarrow> token \<times> 'l" where
  reads_none: "reads scanf l [] l"
| reads_more: "\<lbrakk>reads scanf l ts l1; scanf l1 = (t, l2); TType t \<noteq> EOF\<rbrakk> \<Longrightarrow> reads scanf l (ts @ [t]) l2"

definition outcome_ok :: "('l \<Rightarrow> token \<times> 'l) \<Rightarrow> varorder \<Rightarrow> 'l \<Rightarrow> outcome \<Rightarrow> bool" where
  "outcome_ok scanf ord l0 r =
     (case r of
        Accepted v \<Rightarrow>
          \<exists>ts l. reads scanf l0 ts l \<and> TType (fst (scanf l)) = EOF \<and> yields ord (N 1) ts v
      | Failed e \<Rightarrow>
          \<exists>ts l. reads scanf l0 ts l \<and> ErrorToken e = fst (scanf l) \<and>
            action_for (StackTop e) (TType (ErrorToken e)) = None \<and>
            ExpectedTokens e = expected_tokens (StackTop e)
      | Panicked \<Rightarrow> \<exists>ts l. reads scanf l0 ts l \<and> (\<exists>t \<in> set ts. TType t = OPEN_PAREN))"

text \<open>What the parser needs of a scanner: that it gets to the end of its input.\<close>

locale scanner =
  fixes scanf :: "'l \<Rightarrow> token \<times> 'l" and remaining :: "'l \<Rightarrow> nat"
  assumes scan_less: "TType (fst (scanf l)) \<noteq> EOF \<Longrightarrow> remaining (snd (scanf l)) < remaining l"
    and scan_le: "remaining (snd (scanf l)) \<le> remaining l"
begin

definition ahead :: "token \<Rightarrow> 'l \<Rightarrow> nat" where
  "ahead tok l = remaining l + (if TType tok = EOF then 0 else 1)"

lemma ahead_scan: "TType tok \<noteq> EOF \<Longrightarrow> scanf l = (tok', l') \<Longrightarrow> ahead tok' l' < ahead tok l"
  using scan_less[of l] scan_le[of l] by (auto simp: ahead_def)

lemma loop_error:
  assumes "stack_ok ord stk ts" "stk = (s, a) # r" "reads scanf l0 ts l" "scanf l = (tok, l1)"
    and "action_for s (TType tok) = None"
  shows "parse_loop scanf ord stk tok l1 = Some (Failed (new_error s tok))"
    and "outcome_ok scanf ord l0 (Failed (new_error s tok))"
proof -
  have "viable stk" using assms(1) by (simp add: stack_ok_def)
  moreover have "parse_step ord stk tok = NoAction"
    using assms(2,5) by (simp add: parse_step_def)
  ultimately show "parse_loop scanf ord stk tok l1 = Some (Failed (new_error s tok))"
    using handle_error_fails[OF _ assms(2), of scanf tok l1] assms(2)
    by (subst parse_loop.simps) simp
  have "reads scanf l0 ts l \<and> tok = fst (scanf l)" using assms(3,4) by simp
  then have "\<exists>ts l. reads scanf l0 ts l \<and> tok = fst (scanf l)" by blast
  then show "outcome_ok scanf ord l0 (Failed (new_error s tok))"
    using assms(5) by (simp add: outcome_ok_def new_error_def)
qed

lemma loop_accept:
  assumes "stack_ok ord stk ts" "reads scanf l0 ts l" "scanf l = (tok, l1)"
    and "parse_step ord stk tok = Done (Accepted v)"
  shows "outcome_ok scanf ord l0 (Accepted v)"
proof -
  have "reads scanf l0 ts l \<and> TType (fst (scanf l)) = EOF \<and> yields ord (N 1) ts v"
    using step_accept[OF assms(1,4)] assms(2,3) by simp
  then show ?thesis unfolding outcome_ok_def outcome.case by blast
qed

lemma loop_panic:
  assumes "stack_ok ord stk ts" "stk = (s, a) # r" "reads scanf l0 ts l"
    and "action_for s (TType tok) = Some (Reduce p)"
    and "parse_step ord stk tok = Done Panicked"
  shows "outcome_ok scanf ord l0 Panicked"
proof -
  have "\<exists>t \<in> set ts. TType t = OPEN_PAREN"
    using parse_step_reduce[OF assms(1,2,4)] no_paren_no_panic assms(5)
    by (metis Un_iff set_append)
  then show ?thesis using assms(3) by (auto simp: outcome_ok_def)
qed

lemma weight_shift:
  assumes "stack_ok ord stk ts" "parse_step ord stk tok = Shifted stk'"
  shows "weight stk' \<le> weight stk + 8"
proof -
  obtain s a r where stk: "stk = (s, a) # r" using assms(1) by (cases stk) (auto simp: stack_ok_def)
  then obtain t where t: "action_for s (TType tok) = Some (Shift t)" "stk' = push t (ATok tok) stk"
    using assms(2) by (auto simp: parse_step_def split: option.splits action.splits prod.splits)
  have "viable stk" using assms(1) by (simp add: stack_ok_def)
  then have "symbols stk' = T (TType tok) # symbols stk"
    using viable_push(2) shift_facts(2)[OF _ t(1)] t(2) stk viable_state by blast
  then show ?thesis by (simp add: weight_def top_extra_def extra_def)
qed

lemma parse_loop_ok:
  "\<lbrakk>stack_ok ord stk ts; reads scanf l0 ts l; scanf l = (tok, l1)\<rbrakk> \<Longrightarrow>
   \<exists>r. parse_loop scanf ord stk tok l1 = Some r \<and> outcome_ok scanf ord l0 r"
proof (induction "9 * ahead tok l1 + weight stk" arbitrary: stk ts l tok l1 rule: less_induct)
  case less
  obtain s a r where stk: "stk = (s, a) # r" using less.prems(1) by (cases stk) (auto simp: stack_ok_def)
  let ?step = "parse_step ord stk tok"
  note unfold = parse_loop.simps[of scanf ord stk tok l1]
  consider (err) "action_for s (TType tok) = None"
    | (acc) "?step = Done (Accepted a)"
    | (shift) stk' where "?step = Shifted stk'"
    | (red) p where "action_for s (TType tok) = Some (Reduce p)"
  proof (cases "action_for s (TType tok)")
    case (Some act)
    then show ?thesis using that stk by (cases act) (simp_all add: parse_step_def)
  qed simp
  then show ?case
  proof cases
    case err
    then show ?thesis using loop_error[OF less.prems(1) stk less.prems(2,3)] by blast
  next
    case acc
    then show ?thesis using loop_accept[OF less.prems acc] unfold by simp
  next
    case shift
    note ok = step_shift[OF less.prems(1) shift]
    obtain tok' l2 where sc: "scanf l1 = (tok', l2)" by force
    have "reads scanf l0 (ts @ [tok]) l1"
      using less.prems(2,3) ok(2) by (auto intro: reads_more)
    moreover have "ahead tok' l2 < ahead tok l1" using ahead_scan sc ok(2) by simp
    ultimately show ?thesis
      using less.hyps[of tok' l2 stk' "ts @ [tok]" l1] ok(1) sc weight_shift[OF less.prems(1) shift]
        unfold shift by simp
  next
    case red
    show ?thesis
    proof (cases "?step = Done Panicked")
      case True
      then show ?thesis using loop_panic[OF less.prems(1) stk less.prems(2) red] unfold by simp
    next
      case False
      then obtain stk' where go: "?step = Reduced stk'" "stack_ok ord stk' ts" "weight stk' < weight stk"
        using parse_step_reduce[OF less.prems(1) stk red] by (metis empty_iff insert_iff)
      then show ?thesis using less.hyps[of tok l1 stk' ts l] less.prems(2,3) unfold by simp
    qed
  qed
qed

lemma parser_parse_ok: "\<exists>r. parser_parse scanf ord l = Some r \<and> outcome_ok scanf ord l r"
proof -
  obtain tok l1 where sc: "scanf l = (tok, l1)" by force
  show ?thesis
    unfolding parser_parse_def sc prod.case
    by (rule parse_loop_ok[OF new_stack_ok reads_none sc])
qed

end

section \<open>The lexer is a scanner\<close>

interpretation query_lexer: scanner scan rest
proof
  fix l
  show "TType (fst (scan l)) \<noteq> EOF \<Longrightarrow> rest (snd (scan l)) < rest l" by (rule scan_rest)
  show "rest (snd (scan l)) \<le> rest l"
  proof (cases "TType (fst (scan l)) = EOF")
    case False
    then show ?thesis using scan_rest by (simp add: less_imp_le)
  next
    case True
    show ?thesis
    proof (cases "length (src l) \<le> lpos l")
      case True
      then show ?thesis using scan_at_end by simp
    next
      case False
      then have "lexer_ok l" by (simp add: lexer_ok_def)
      then obtain gap where "src (snd (scan l)) = src l" "lpos (snd (scan l)) = length (src l)"
        using scan_splits True by metis
      then show ?thesis by (simp add: rest_def)
    qed
  qed
qed


end
