(* ===== verification/QueryParser.thy ===== *)
theory QueryParser
  imports ParserCorrect LexTokens
begin

text \<open>
  Parsing a text, end to end: what \<open>Parse\<close> (lang/parser.go) gives for every text, and the inputs on which
  it does not do what the grammar says.
\<close>

section \<open>From the scanner to the tokens of a text\<close>

lemma reads_tokens: "reads scan l ts l' \<Longrightarrow> tokens l = ts @ tokens l'"
proof (induction rule: reads.induct)
  case (reads_more l ts l1 t l2)
  then have "tokens l1 = t # tokens l2" by (simp add: tokens_step[of l1])
  then show ?case using reads_more by simp
qed simp

lemma tokens_hd: "\<exists>ts. tokens l = fst (scan l) # ts"
  by (cases "TType (fst (scan l)) = EOF") (simp_all add: tokens_step[of l])

lemma tokens_at_end: "TType (fst (scan l)) = EOF \<Longrightarrow> tokens l = [fst (scan l)]"
  by (simp add: tokens_step[of l])


lemma parse_text_cases:
  obtains (query) ts q where "parse_text ord s = Some (ParsedQuery q)"
      "butlast (tokens (new_lexer s)) = ts" "yields ord (N 1) ts (AQuery q)"
  | (error) e ts ts' where "parse_text ord s = Some (ParseError e)"
      "tokens (new_lexer s) = ts @ ErrorToken e # ts'"
      "action_for (StackTop e) (TType (ErrorToken e)) = None"
      "ExpectedTokens e = expected_tokens (StackTop e)"
  | (panic) t where "parse_text ord s = Some ParsePanic"
      "t \<in> set (tokens (new_lexer s))" "TType t = OPEN_PAREN"
proof -
  let ?l = "new_lexer s"
  obtain r where r: "parser_parse scan ord ?l = Some r" "outcome_ok scan ord ?l r"
    using query_lexer.parser_parse_ok by blast
  show ?thesis
  proof (cases r)
    case (Accepted v)
    then obtain ts l where acc: "reads scan ?l ts l" "TType (fst (scan l)) = EOF" "yields ord (N 1) ts v"
      using r(2) by (auto simp: outcome_ok_def)
    have toks: "tokens ?l = ts @ [fst (scan l)]" using reads_tokens[OF acc(1)] tokens_at_end[OF acc(2)] by simp
    show ?thesis
    proof (cases "as_query v")
      case None
      then have "\<not> kind (N 1) v" by simp
      then have "\<not> (\<forall>t \<in> set ts. TType t \<noteq> OPEN_PAREN)" using yields_kind(1)[OF acc(3)] by blast
      moreover have "parse_text ord s = Some ParsePanic" using r(1) Accepted None by (simp add: parse_text_def)
      ultimately show ?thesis using panic toks by auto
    next
      case (Some q)
      then have "v = AQuery q" by (cases v) simp_all
      then show ?thesis using query[of q ts] r(1) Accepted toks acc(3) by (simp add: parse_text_def)
    qed
  next
    case (Failed e)
    then obtain ts l where f: "reads scan ?l ts l" "ErrorToken e = fst (scan l)"
      "action_for (StackTop e) (TType (ErrorToken e)) = None" "ExpectedTokens e = expected_tokens (StackTop e)"
      using r(2) by (auto simp: outcome_ok_def)
    obtain ts' where "tokens l = fst (scan l) # ts'" using tokens_hd by blast
    then show ?thesis
      using error[of e ts ts'] reads_tokens[OF f(1)] f r(1) Failed by (simp add: parse_text_def)
  next
    case Panicked
    then obtain ts l t where "reads scan ?l ts l" "t \<in> set ts" "TType t = OPEN_PAREN"
      using r(2) by (auto simp: outcome_ok_def)
    then show ?thesis using panic[of t] reads_tokens r(1) Panicked by (simp add: parse_text_def)
  qed
qed

section \<open>Parentheses\<close>















text \<open>The grammar does have them: whatever a path derives, its parenthesised form derives as well.\<close>

lemma parenthesised_derives:
  assumes "yields ord (N 18) ts v" "TType open_t = OPEN_PAREN" "TType close_t = 21"
  shows "yields ord (N 21) (open_t # ts @ [close_t]) v"
proof -
  let ?e = "productions_table ord ! 48"
  have e: "Rhs ?e = [T 20, N 18, T 21]" "NTType ?e = 21" "ReduceFunc ?e = (\<lambda>X. arg X 1)"
    by (simp_all add: productions_at productions_48_def)
  have "yields ord (T 20) [open_t] (ATok open_t)" "yields ord (T 21) [close_t] (ATok close_t)"
    using yields_yields_all.token[of ord open_t] yields_yields_all.token[of ord close_t] assms(2,3) by simp_all
  then have "yields_all ord ([T 20] @ [N 18] @ [T 21]) ([open_t] @ ts @ [close_t]) ([ATok open_t] @ [v] @ [ATok close_t])"
    by (intro yields_all_append yields_all_single assms(1))
  then have "yields_all ord (Rhs ?e) (open_t # ts @ [close_t]) [ATok open_t, v, ATok close_t]" using e(1) by simp
  moreover have "ReduceFunc ?e [ATok open_t, v, ATok close_t] = Some v" using e(3) by (simp add: arg_def)
  moreover have "?e \<in> set (productions_table ord)" by (simp add: productions_length)
  ultimately show ?thesis using yields_yields_all.production e(2) by metis
qed

lemma parenthesised_path_panics:
  "parse_text ord ''SELECT ?x WHERE { ?x (rdf:type) ?y };'' = Some ParsePanic"
  by code_simp

section \<open>Properties\<close>

text \<open>
  C17: \<open>Parse\<close> stops on every text: the lexer and the parser's loop end with a query that the grammar
  derives from the tokens, with an error on one of the tokens, or with a panic, and a panic only when the
  text has an opening parenthesis.
\<close>

theorem parse_returns:
  "case parse_text ord s of
     None \<Rightarrow> False
   | Some (ParsedQuery q) \<Rightarrow> yields ord (N 1) (butlast (tokens (new_lexer s))) (AQuery q)
   | Some (ParseError e) \<Rightarrow> ErrorToken e \<in> set (tokens (new_lexer s))
   | Some ParsePanic \<Rightarrow> list_ex (\<lambda>t. TType t = OPEN_PAREN) (tokens (new_lexer s))"
  by (cases rule: parse_text_cases[of ord s]) (auto simp: list_ex_iff)

text \<open>
  C4: What \<open>Parse\<close> accepts is a query of the grammar, and the syntax tree it returns is the one that the
  actions of the grammar compute: the tokens of the text, all of them up to the end, are derived from
  \<open>QueryUnit\<close> (nonterminal 1) with the returned query as the value of the derivation.
\<close>

theorem parse_sound:
  assumes "parse_text ord s = Some (ParsedQuery q)"
  shows "yields ord (N 1) (butlast (tokens (new_lexer s))) (AQuery q)"
  using assms by (cases rule: parse_text_cases[of ord s]) auto

definition example_text :: string where
  "example_text = ''SELECT ?x WHERE { ?x rdf:type brick:Room };''"

definition example_query :: query where
  "example_query =
     \<lparr>Select = \<lparr>SelectVars = [''?x''], AllVars = False\<rparr>, From = \<lparr>Databases = [], AllDBs = True\<rparr>,
      QCount = False, InsertTerms = [],
      Where = \<lparr>WhereTerms = [\<lparr>QSubject = mkURI [] ''?x'',
          QPredicates = [\<lparr>PathPredicate = mkURI ''rdf'' ''type'', PathMod = PATTERN_SINGLE\<rparr>],
          QObject = mkURI ''brick'' ''Room''\<rparr>], WhereGroup = None\<rparr>,
      Variables = [''?x''], QType = 1\<rparr>"

lemma example_parsed: "parse_text (\<lambda>vs. vs) example_text = Some (ParsedQuery example_query)"
  by code_simp

lemma parse_sound_witness:
  "yields (\<lambda>vs. vs) (N 1) (butlast (tokens (new_lexer example_text))) (AQuery example_query)"
  by (rule parse_sound[OF example_parsed])

text \<open>
  C16: \<open>Parse\<close> panics on no text that has no opening parenthesis among its tokens: every type assertion of
  the actions holds, also the one on the result.
\<close>

theorem parse_no_panic:
  assumes "list_all (\<lambda>t. TType t \<noteq> OPEN_PAREN) (tokens (new_lexer s))"
  shows "parse_text ord s \<noteq> Some ParsePanic"
  using assms by (cases rule: parse_text_cases[of ord s]) (auto simp: list_all_iff)

lemma parse_no_panic_witness:
  "parse_text (\<lambda>vs. vs) ''SELECT foo;'' \<noteq> Some ParsePanic"
proof (rule parse_no_panic)
  show "list_all (\<lambda>t. TType t \<noteq> OPEN_PAREN) (tokens (new_lexer ''SELECT foo;''))" by code_simp
qed

text \<open>
  C39: A syntax error names a token of the text for which the state on top of the stack has no action, and
  lists as expected the names that the token map has for the types with an action.
\<close>

theorem parse_error_token:
  assumes "parse_text ord s = Some (ParseError e)"
  shows "ErrorToken e \<in> set (tokens (new_lexer s)) \<and>
         action_for (StackTop e) (TType (ErrorToken e)) = None \<and>
         ExpectedTokens e = map token_id (filter (\<lambda>t. action_for (StackTop e) t \<noteq> None) [0..<55])"
  using assms by (cases rule: parse_text_cases[of ord s]) (auto simp: expected_tokens_def)

text \<open>
  The names are those of an older grammar: after SELECT the parser expects a variable (type 11) or a star,
  and the message says that it expects a closing brace or a star.
\<close>

definition example_error :: parse_error where
  "example_error =
     \<lparr>ErrorToken = \<lparr>TType = 10, Lit = ''foo'', TPos = \<lparr>Offset = 7, Line = 1, Column = 8\<rparr>\<rparr>,
      ExpectedTokens = [''*'', [CHR 0x7D]], StackTop = 8\<rparr>"

lemma example_fails: "parse_text (\<lambda>vs. vs) ''SELECT foo;'' = Some (ParseError example_error)"
  by code_simp

lemma parse_error_token_witness:
  "ErrorToken example_error \<in> set (tokens (new_lexer ''SELECT foo;'')) \<and>
   action_for 8 10 = None \<and> ExpectedTokens example_error = [''*'', [CHR 0x7D]]"
  using parse_error_token[OF example_fails] by (simp add: example_error_def)

lemma select_expects_variable: "action_for 8 11 = Some (Shift 25) \<and> token_id 11 = [CHR 0x7D]"
  by code_simp



text \<open>
  The alternatives of a path are parsed and dropped: whatever path follows the bar (type 17), the value of
  the longer path is that of the first one.
\<close>

lemma path_alternatives_dropped:
  assumes "yields ord (N 18) ts v" "yields ord (N 19) ts' v'" "TType bar = 17"
  shows "yields ord (N 18) (ts @ bar # ts') v"
proof -
  let ?e = "productions_table ord ! 39"
  have e: "Rhs ?e = [N 18, T 17, N 19]" "NTType ?e = 18" "ReduceFunc ?e = (\<lambda>X. arg X 0)"
    by (simp_all add: productions_at productions_32_def)
  have "yields ord (T 17) [bar] (ATok bar)"
    using yields_yields_all.token[of ord bar] assms(3) by simp
  then have "yields_all ord ([N 18] @ [T 17] @ [N 19]) (ts @ [bar] @ ts') ([v] @ [ATok bar] @ [v'])"
    by (intro yields_all_append yields_all_single assms(1,2))
  then have "yields_all ord (Rhs ?e) (ts @ bar # ts') [v, ATok bar, v']" using e(1) by simp
  moreover have "ReduceFunc ?e [v, ATok bar, v'] = Some v" using e(3) by (simp add: arg_def)
  moreover have "?e \<in> set (productions_table ord)" by (simp add: productions_length)
  ultimately show ?thesis using yields_yields_all.production e(2) by metis
qed

end
