(* ===== verification/Cache.thy ===== *)
theory Cache
  imports Traversal
begin

text \<open>
  The cache in front of a database (db/cache.go) and the reads that go through it (the first part of
  db/traversal.go). The cache outlives a snapshot: all queries and the evictions of transactions share
  it. Locks make each operation atomic.
\<close>

section \<open>The cache\<close>

record dbcache =
  entityHashCache :: "(uri, key) gomap"
  entityObjectCache :: "(key, entity) gomap"
  entityIndexCache :: "(key, extended_index option) gomap"
  uriCache :: "(key, uri) gomap"
  predCache :: "(key, predicate_entity) gomap"
  hit :: u64
  total :: u64
  pendingEvict :: "key list"

definition new_cache :: dbcache where
  "new_cache = \<lparr>entityHashCache = [], entityObjectCache = [], entityIndexCache = [], uriCache = [],
     predCache = [], hit = 0, total = 0, pendingEvict = []\<rparr>"

definition mark_hit_or_miss :: "bool \<Rightarrow> dbcache \<Rightarrow> dbcache" where
  "mark_hit_or_miss b c =
     (let c1 = (if b then c\<lparr>hit := hit c + 1\<rparr> else c) in c1\<lparr>total := total c1 + 1\<rparr>)"

text \<open>What every lookup does: look, and count a hit or a miss.\<close>

definition counted :: "'v option \<Rightarrow> dbcache \<Rightarrow> 'v option \<times> dbcache" where
  "counted found c = (found, mark_hit_or_miss (found \<noteq> None) c)"

definition cache_get_hash :: "uri \<Rightarrow> dbcache \<Rightarrow> key option \<times> dbcache" where
  "cache_get_hash u c = counted (gm_get (entityHashCache c) u) c"

definition cache_set_hash :: "uri \<Rightarrow> key \<Rightarrow> dbcache \<Rightarrow> dbcache" where
  "cache_set_hash u hash c = c\<lparr>entityHashCache := gm_put u hash (entityHashCache c)\<rparr>"

definition cache_get_uri :: "key \<Rightarrow> dbcache \<Rightarrow> uri option \<times> dbcache" where
  "cache_get_uri hash c = counted (gm_get (uriCache c) hash) c"

definition cache_set_uri :: "key \<Rightarrow> uri \<Rightarrow> dbcache \<Rightarrow> dbcache" where
  "cache_set_uri hash u c = c\<lparr>uriCache := gm_put hash u (uriCache c)\<rparr>"

definition cache_get_entity :: "key \<Rightarrow> dbcache \<Rightarrow> entity option \<times> dbcache" where
  "cache_get_entity hash c = counted (gm_get (entityObjectCache c) hash) c"

definition cache_set_entity :: "key \<Rightarrow> entity \<Rightarrow> dbcache \<Rightarrow> dbcache" where
  "cache_set_entity hash ent c = c\<lparr>entityObjectCache := gm_put hash ent (entityObjectCache c)\<rparr>"

definition cache_get_index :: "key \<Rightarrow> dbcache \<Rightarrow> extended_index option option \<times> dbcache" where
  "cache_get_index hash c = counted (gm_get (entityIndexCache c) hash) c"

definition cache_set_index :: "key \<Rightarrow> extended_index option \<Rightarrow> dbcache \<Rightarrow> dbcache" where
  "cache_set_index hash ext c = c\<lparr>entityIndexCache := gm_put hash ext (entityIndexCache c)\<rparr>"

definition cache_get_predicate :: "key \<Rightarrow> dbcache \<Rightarrow> predicate_entity option \<times> dbcache" where
  "cache_get_predicate hash c = counted (gm_get (predCache c) hash) c"

definition cache_set_predicate :: "key \<Rightarrow> predicate_entity \<Rightarrow> dbcache \<Rightarrow> dbcache" where
  "cache_set_predicate hash pred c = c\<lparr>predCache := gm_put hash pred (predCache c)\<rparr>"

text \<open>
  \<open>evict\<close> only queues the key; the goroutine that \<open>newCache\<close> starts takes keys from the queue, at some
  later time, and deletes their entries.
\<close>

definition cache_evict :: "key \<Rightarrow> dbcache \<Rightarrow> dbcache" where
  "cache_evict hash c = c\<lparr>pendingEvict := pendingEvict c @ [hash]\<rparr>"

definition evict_next :: "dbcache \<Rightarrow> dbcache" where
  "evict_next c =
     (case pendingEvict c of
        [] \<Rightarrow> c
      | hash # rest \<Rightarrow>
          c\<lparr>pendingEvict := rest, entityObjectCache := gm_del hash (entityObjectCache c),
            entityIndexCache := gm_del hash (entityIndexCache c), predCache := gm_del hash (predCache c)\<rparr>)"

section \<open>Reading through the cache\<close>

definition read_through ::
    "('k \<Rightarrow> 'c \<Rightarrow> 'v option \<times> 'c) \<Rightarrow> ('k \<Rightarrow> 'v \<Rightarrow> 'c \<Rightarrow> 'c) \<Rightarrow> ('k \<Rightarrow> 'v res) \<Rightarrow> 'k \<Rightarrow> 'c \<Rightarrow> 'v res \<times> 'c" where
  "read_through get put base k c =
     (case get k c of
        (Some v, c1) \<Rightarrow> (Inr v, c1)
      | (None, c1) \<Rightarrow>
          (case base k of
             Inr v \<Rightarrow> (Inr v, put k v c1)
           | Inl e \<Rightarrow> (Inl e, c1)))"

definition t_get_hash :: "view \<Rightarrow> uri \<Rightarrow> dbcache \<Rightarrow> key res \<times> dbcache" where
  "t_get_hash v = read_through cache_get_hash cache_set_hash (vw_hash v)"

definition t_get_uri :: "view \<Rightarrow> key \<Rightarrow> dbcache \<Rightarrow> uri res \<times> dbcache" where
  "t_get_uri v = read_through cache_get_uri cache_set_uri (vw_uri v)"

definition t_get_entity_by_hash :: "view \<Rightarrow> key \<Rightarrow> dbcache \<Rightarrow> entity res \<times> dbcache" where
  "t_get_entity_by_hash v = read_through cache_get_entity cache_set_entity (get_entity_by_hash v)"

definition t_get_extended_index_by_hash ::
    "view \<Rightarrow> key \<Rightarrow> dbcache \<Rightarrow> extended_index option res \<times> dbcache" where
  "t_get_extended_index_by_hash v = read_through cache_get_index cache_set_index (vw_ext v)"

definition t_get_predicate_by_hash :: "view \<Rightarrow> key \<Rightarrow> dbcache \<Rightarrow> predicate_entity res \<times> dbcache" where
  "t_get_predicate_by_hash v = read_through cache_get_predicate cache_set_predicate (vw_pred v)"

definition then_read ::
    "'a res \<times> dbcache \<Rightarrow> ('a \<Rightarrow> dbcache \<Rightarrow> 'b res \<times> dbcache) \<Rightarrow> 'b res \<times> dbcache" where
  "then_read m f = (case m of (Inl e, c) \<Rightarrow> (Inl e, c) | (Inr x, c) \<Rightarrow> f x c)"

definition t_get_entity_by_uri :: "view \<Rightarrow> uri \<Rightarrow> dbcache \<Rightarrow> entity res \<times> dbcache" where
  "t_get_entity_by_uri v u c = then_read (t_get_hash v u c) (t_get_entity_by_hash v)"

definition t_get_extended_index_by_uri ::
    "view \<Rightarrow> uri \<Rightarrow> dbcache \<Rightarrow> extended_index option res \<times> dbcache" where
  "t_get_extended_index_by_uri v u c = then_read (t_get_hash v u c) (t_get_extended_index_by_hash v)"

definition t_get_predicate_by_uri :: "view \<Rightarrow> uri \<Rightarrow> dbcache \<Rightarrow> predicate_entity res \<times> dbcache" where
  "t_get_predicate_by_uri v u c = then_read (t_get_hash v u c) (t_get_predicate_by_hash v)"

section \<open>A cache that agrees with what lies under it\<close>

text \<open>The contract of one of the cache's maps, and what reading through it then gives.\<close>

locale cached_read =
  fixes get :: "'k \<Rightarrow> 'c \<Rightarrow> 'v option \<times> 'c" and put :: "'k \<Rightarrow> 'v \<Rightarrow> 'c \<Rightarrow> 'c"
    and base :: "'k \<Rightarrow> 'v res" and agrees :: "'c \<Rightarrow> bool"
  assumes get_agrees: "agrees c \<Longrightarrow> agrees (snd (get k c))"
    and get_sound: "agrees c \<Longrightarrow> fst (get k c) = Some v \<Longrightarrow> base k = Inr v"
    and put_agrees: "agrees c \<Longrightarrow> base k = Inr v \<Longrightarrow> agrees (put k v c)"
begin

lemma read_through_ok:
  assumes "agrees c"
  shows "fst (read_through get put base k c) = base k \<and> agrees (snd (read_through get put base k c))"
proof -
  obtain found c1 where g: "get k c = (found, c1)" by force
  have c1: "agrees c1" using get_agrees[OF assms, of k] g by simp
  show ?thesis
  proof (cases found)
    case None
    then show ?thesis using g c1 put_agrees[OF c1]
      by (cases "base k") (simp_all add: read_through_def)
  next
    case (Some v)
    then show ?thesis using g c1 get_sound[OF assms, of k v] by (simp add: read_through_def)
  qed
qed

end

definition coherent :: "view \<Rightarrow> dbcache \<Rightarrow> bool" where
  "coherent v c \<longleftrightarrow>
     (\<forall>u k. gm_get (entityHashCache c) u = Some k \<longrightarrow> vw_hash v u = Inr k) \<and>
     (\<forall>k u. gm_get (uriCache c) k = Some u \<longrightarrow> vw_uri v k = Inr u) \<and>
     (\<forall>k e. gm_get (entityObjectCache c) k = Some e \<longrightarrow> get_entity_by_hash v k = Inr e) \<and>
     (\<forall>k x. gm_get (entityIndexCache c) k = Some x \<longrightarrow> vw_ext v k = Inr x) \<and>
     (\<forall>k p. gm_get (predCache c) k = Some p \<longrightarrow> vw_pred v k = Inr p)"

lemma coherent_new_cache: "coherent v new_cache"
  by (simp add: coherent_def new_cache_def)

lemma coherent_counted: "coherent v c \<Longrightarrow> coherent v (snd (counted found c))"
  by (simp add: coherent_def counted_def mark_hit_or_miss_def Let_def)

lemma fst_counted [simp]: "fst (counted found c) = found"
  by (simp add: counted_def)

interpretation hash_reads: cached_read cache_get_hash cache_set_hash "vw_hash v" "coherent v" for v
  by unfold_locales
    (simp_all add: cache_get_hash_def cache_set_hash_def coherent_counted, simp_all add: coherent_def)

interpretation uri_reads: cached_read cache_get_uri cache_set_uri "vw_uri v" "coherent v" for v
  by unfold_locales
    (simp_all add: cache_get_uri_def cache_set_uri_def coherent_counted, simp_all add: coherent_def)

interpretation entity_reads:
  cached_read cache_get_entity cache_set_entity "get_entity_by_hash v" "coherent v" for v
  by unfold_locales
    (simp_all add: cache_get_entity_def cache_set_entity_def coherent_counted, simp_all add: coherent_def)

interpretation index_reads: cached_read cache_get_index cache_set_index "vw_ext v" "coherent v" for v
  by unfold_locales
    (simp_all add: cache_get_index_def cache_set_index_def coherent_counted, simp_all add: coherent_def)

interpretation predicate_reads:
  cached_read cache_get_predicate cache_set_predicate "vw_pred v" "coherent v" for v
  by unfold_locales
    (simp_all add: cache_get_predicate_def cache_set_predicate_def coherent_counted, simp_all add: coherent_def)

lemma then_read_ok:
  assumes "fst m = r \<and> coherent v (snd m)"
    and "\<And>x c. coherent v c \<Longrightarrow> fst (f x c) = g x \<and> coherent v (snd (f x c))"
  shows "fst (then_read m f) = bind_res r g \<and> coherent v (snd (then_read m f))"
proof (cases m)
  case (Pair a c)
  then show ?thesis using assms by (cases a) (auto simp: then_read_def)
qed

lemmas read_defs =
  t_get_hash_def t_get_uri_def t_get_entity_by_hash_def t_get_extended_index_by_hash_def
  t_get_predicate_by_hash_def

lemma coherent_evict: "coherent v c \<Longrightarrow> coherent v (cache_evict k c)"
  by (simp add: coherent_def cache_evict_def)

lemma coherent_evict_next: "coherent v c \<Longrightarrow> coherent v (evict_next c)"
  by (auto simp: coherent_def evict_next_def split: list.split)

section \<open>What a query reads\<close>

text \<open>
  What a query sees of a snapshot through the cache: the value in the cache where there is one, whether it
  agrees with the snapshot or not, and the snapshot's otherwise.
\<close>

definition cached_view :: "dbcache \<Rightarrow> view \<Rightarrow> view" where
  "cached_view c v =
     v\<lparr>vw_hash := (\<lambda>u. case gm_get (entityHashCache c) u of Some k \<Rightarrow> Inr k | None \<Rightarrow> vw_hash v u),
       vw_uri := (\<lambda>k. case gm_get (uriCache c) k of Some u \<Rightarrow> Inr u | None \<Rightarrow> vw_uri v k),
       vw_graph := foldr (\<lambda>(k, e). gm_put k e) (AList.clearjunk (entityObjectCache c)) (vw_graph v),
       vw_ext := (\<lambda>k. case gm_get (entityIndexCache c) k of Some x \<Rightarrow> Inr x | None \<Rightarrow> vw_ext v k),
       vw_pred := (\<lambda>k. case gm_get (predCache c) k of Some p \<Rightarrow> Inr p | None \<Rightarrow> vw_pred v k)\<rparr>"

text \<open>The reads that a query makes, and the cache after them.\<close>

datatype cache_read = ReadHash uri | ReadURI key | ReadEntity key | ReadIndex key | ReadPredicate key

fun read_cached :: "view \<Rightarrow> cache_read \<Rightarrow> dbcache \<Rightarrow> dbcache" where
  "read_cached v (ReadHash u) c = snd (t_get_hash v u c)"
| "read_cached v (ReadURI k) c = snd (t_get_uri v k c)"
| "read_cached v (ReadEntity k) c = snd (t_get_entity_by_hash v k c)"
| "read_cached v (ReadIndex k) c = snd (t_get_extended_index_by_hash v k c)"
| "read_cached v (ReadPredicate k) c = snd (t_get_predicate_by_hash v k c)"







text \<open>Through a cache that agrees with the snapshot a query sees the snapshot, and it leaves such a cache.\<close>

lemma put_same: "gm_get g k = Some e \<Longrightarrow> gm_put k e g = g"
  by (induction g) auto

lemma overlay_same:
  "list_all (\<lambda>(k, e). gm_get g k = Some e) m \<Longrightarrow> foldr (\<lambda>(k, e). gm_put k e) m g = g"
  by (induction m) (auto simp: put_same)

lemma coherent_cached_view:
  assumes "coherent v c"
  shows "cached_view c v = v"
proof -
  have "list_all (\<lambda>(k, e). gm_get (vw_graph v) k = Some e) (AList.clearjunk (entityObjectCache c))"
    unfolding list_all_iff
  proof (clarify)
    fix k e assume "(k, e) \<in> set (AList.clearjunk (entityObjectCache c))"
    then have "gm_get (entityObjectCache c) k = Some e"
      using map_of_is_SomeI[OF distinct_clearjunk] by (metis map_of_clearjunk)
    then have "get_entity_by_hash v k = Inr e" using assms by (simp add: coherent_def)
    then show "gm_get (vw_graph v) k = Some e" by (simp add: get_entity_by_hash_def split: option.splits)
  qed
  then have "vw_graph (cached_view c v) = vw_graph v" by (simp add: cached_view_def overlay_same)
  then show ?thesis
    using assms by (auto intro!: view.equality simp: coherent_def cached_view_def fun_eq_iff split: option.split)
qed

lemma coherent_read_cached: "coherent v c \<Longrightarrow> coherent v (read_cached v r c)"
  by (cases r)
    (simp_all add: read_defs hash_reads.read_through_ok uri_reads.read_through_ok entity_reads.read_through_ok
      index_reads.read_through_ok predicate_reads.read_through_ok)

lemma coherent_fold_reads: "coherent v c \<Longrightarrow> coherent v (fold (read_cached v) rs c)"
  by (induction rs arbitrary: c) (simp_all add: coherent_read_cached)

lemma coherent_evictions: "coherent v c \<Longrightarrow> coherent v ((evict_next ^^ n) c)"
  by (induction n) (simp_all add: coherent_evict_next)

section \<open>Readers and a writer\<close>

text \<open>
  Queries and a transaction that share the cache. A query reads the snapshot that it took when it began;
  the transaction writes entities aside, queues the evictions of the keys it writes, and commits later;
  the goroutine evicts at any time.
\<close>

record world =
  committed :: "(key, entity) gomap"
  writing :: "(key, entity) gomap"
  snapshots :: "(key, entity) gomap list"
  shared :: dbcache

definition graph_view :: "(key, entity) gomap \<Rightarrow> view" where
  "graph_view g =
     \<lparr>vw_hash = (\<lambda>u. Inl LdbNotFound), vw_uri = (\<lambda>k. Inl LdbNotFound), vw_graph = g, vw_all = g,
      vw_missing = LdbNotFound, vw_ext = (\<lambda>k. Inr None), vw_pred = (\<lambda>k. Inl LdbNotFound),
      vw_reverse = (\<lambda>u. None)\<rparr>"

inductive world_step :: "world \<Rightarrow> world \<Rightarrow> bool" where
  begin_query: "world_step w (w\<lparr>snapshots := committed w # snapshots w\<rparr>)"
| end_query: "snapshots w = ss @ s # ss' \<Longrightarrow> world_step w (w\<lparr>snapshots := ss @ ss'\<rparr>)"
| read: "s \<in> set (snapshots w) \<Longrightarrow>
    world_step w (w\<lparr>shared := snd (t_get_entity_by_hash (graph_view s) k (shared w))\<rparr>)"
| write_entity:
    "world_step w (w\<lparr>writing := gm_put (PK e) e (writing w), shared := cache_evict (PK e) (shared w)\<rparr>)"
| evict: "world_step w (w\<lparr>shared := evict_next (shared w)\<rparr>)"
| commit_write: "world_step w (w\<lparr>committed := writing w\<rparr>)"

inductive reachable :: "world \<Rightarrow> bool" where
  start: "reachable \<lparr>committed = g, writing = g, snapshots = [], shared = new_cache\<rparr>"
| step: "reachable w \<Longrightarrow> world_step w w' \<Longrightarrow> reachable w'"

text \<open>
  Keys that no transaction has written are safe: whatever the interleaving, the cache holds for them what
  the database has. \<open>untouched\<close> says it with the first contents \<open>g\<close>.
\<close>

inductive run_from :: "(key, entity) gomap \<Rightarrow> key set \<Rightarrow> world \<Rightarrow> bool" for g :: "(key, entity) gomap" where
  run_start: "run_from g {} \<lparr>committed = g, writing = g, snapshots = [], shared = new_cache\<rparr>"
| run_write: "run_from g ks w \<Longrightarrow>
    run_from g (insert (PK e) ks)
      (w\<lparr>writing := gm_put (PK e) e (writing w), shared := cache_evict (PK e) (shared w)\<rparr>)"
| run_other: "\<lbrakk>run_from g ks w; world_step w w'; writing w' = writing w\<rbrakk> \<Longrightarrow> run_from g ks w'"

definition untouched :: "(key, entity) gomap \<Rightarrow> key set \<Rightarrow> world \<Rightarrow> bool" where
  "untouched g ks w \<longleftrightarrow>
     (\<forall>k. k \<notin> ks \<longrightarrow>
        gm_get (committed w) k = gm_get g k \<and> gm_get (writing w) k = gm_get g k \<and>
        (\<forall>s \<in> set (snapshots w). gm_get s k = gm_get g k) \<and>
        (\<forall>e. gm_get (entityObjectCache (shared w)) k = Some e \<longrightarrow> gm_get g k = Some e))"

lemma entity_read_cache:
  "gm_get (entityObjectCache (snd (t_get_entity_by_hash (graph_view s) k c))) k' = Some e \<Longrightarrow>
   gm_get (entityObjectCache c) k' = Some e \<or> gm_get s k' = Some e"
  by (auto simp: t_get_entity_by_hash_def read_through_def cache_get_entity_def cache_set_entity_def
      counted_def mark_hit_or_miss_def Let_def get_entity_by_hash_def graph_view_def
      split: option.splits if_split_asm)

lemma untouched_step:
  "\<lbrakk>world_step w w'; writing w' = writing w; untouched g ks w\<rbrakk> \<Longrightarrow> untouched g ks w'"
proof (induction rule: world_step.induct)
  case (read s w k)
  show ?case
    unfolding untouched_def
  proof (intro allI impI conjI)
    fix k' e
    assume k': "k' \<notin> ks"
    show "gm_get (committed (w\<lparr>shared := snd (t_get_entity_by_hash (graph_view s) k (shared w))\<rparr>)) k' = gm_get g k'"
      "gm_get (writing (w\<lparr>shared := snd (t_get_entity_by_hash (graph_view s) k (shared w))\<rparr>)) k' = gm_get g k'"
      "\<forall>x \<in> set (snapshots (w\<lparr>shared := snd (t_get_entity_by_hash (graph_view s) k (shared w))\<rparr>)).
         gm_get x k' = gm_get g k'"
      using read k' by (simp_all add: untouched_def)
    assume "gm_get (entityObjectCache (shared (w\<lparr>shared :=
        snd (t_get_entity_by_hash (graph_view s) k (shared w))\<rparr>))) k' = Some e"
    then have "gm_get (entityObjectCache (shared w)) k' = Some e \<or> gm_get s k' = Some e"
      using entity_read_cache by simp
    then show "gm_get g k' = Some e" using read k' by (auto simp: untouched_def)
  qed
next
  case (write_entity w e)
  then show ?case by (simp add: untouched_def cache_evict_def)
next
  case (evict w)
  then show ?case by (auto simp: untouched_def evict_next_def split: list.split)
qed (auto simp: untouched_def)

lemma run_from_untouched: "run_from g ks w \<Longrightarrow> untouched g ks w"
proof (induction rule: run_from.induct)
  case run_start
  then show ?case by (simp add: untouched_def new_cache_def)
next
  case (run_write ks w e)
  then show ?case by (simp add: untouched_def cache_evict_def)
next
  case (run_other ks w w')
  then show ?case using untouched_step by blast
qed

section \<open>Properties\<close>

text \<open>
  C13: Through a cache that agrees with the snapshot under it, every read of a traversal gives what the
  snapshot gives, errors included, and leaves a cache that agrees with it: hashes, names, entities,
  extended indexes and predicates, by key and by URI.
\<close>

theorem cached_reads_transparent:
  assumes "coherent v c"
  shows "fst (t_get_hash v u c) = vw_hash v u \<and> coherent v (snd (t_get_hash v u c)) \<and>
    fst (t_get_uri v k c) = vw_uri v k \<and> coherent v (snd (t_get_uri v k c)) \<and>
    fst (t_get_entity_by_hash v k c) = get_entity_by_hash v k \<and> coherent v (snd (t_get_entity_by_hash v k c)) \<and>
    fst (t_get_extended_index_by_hash v k c) = vw_ext v k \<and>
      coherent v (snd (t_get_extended_index_by_hash v k c)) \<and>
    fst (t_get_predicate_by_hash v k c) = vw_pred v k \<and> coherent v (snd (t_get_predicate_by_hash v k c)) \<and>
    fst (t_get_entity_by_uri v u c) = get_entity_by_uri v u \<and> coherent v (snd (t_get_entity_by_uri v u c)) \<and>
    fst (t_get_extended_index_by_uri v u c) = get_extended_index_by_uri v u \<and>
      coherent v (snd (t_get_extended_index_by_uri v u c)) \<and>
    fst (t_get_predicate_by_uri v u c) = get_predicate_by_uri v u \<and>
      coherent v (snd (t_get_predicate_by_uri v u c))"
proof -
  have h: "coherent v c' \<Longrightarrow> fst (t_get_hash v x c') = vw_hash v x \<and> coherent v (snd (t_get_hash v x c'))"
    for x c' unfolding read_defs by (rule hash_reads.read_through_ok)
  have n: "coherent v c' \<Longrightarrow> fst (t_get_uri v x c') = vw_uri v x \<and> coherent v (snd (t_get_uri v x c'))"
    for x c' unfolding read_defs by (rule uri_reads.read_through_ok)
  have e: "coherent v c' \<Longrightarrow> fst (t_get_entity_by_hash v x c') = get_entity_by_hash v x \<and>
      coherent v (snd (t_get_entity_by_hash v x c'))"
    for x c' unfolding read_defs by (rule entity_reads.read_through_ok)
  have i: "coherent v c' \<Longrightarrow> fst (t_get_extended_index_by_hash v x c') = vw_ext v x \<and>
      coherent v (snd (t_get_extended_index_by_hash v x c'))"
    for x c' unfolding read_defs by (rule index_reads.read_through_ok)
  have p: "coherent v c' \<Longrightarrow> fst (t_get_predicate_by_hash v x c') = vw_pred v x \<and>
      coherent v (snd (t_get_predicate_by_hash v x c'))"
    for x c' unfolding read_defs by (rule predicate_reads.read_through_ok)
  have by_uri:
    "fst (t_get_entity_by_uri v u c) = get_entity_by_uri v u \<and> coherent v (snd (t_get_entity_by_uri v u c))"
    "fst (t_get_extended_index_by_uri v u c) = get_extended_index_by_uri v u \<and>
       coherent v (snd (t_get_extended_index_by_uri v u c))"
    "fst (t_get_predicate_by_uri v u c) = get_predicate_by_uri v u \<and>
       coherent v (snd (t_get_predicate_by_uri v u c))"
    unfolding t_get_entity_by_uri_def t_get_extended_index_by_uri_def t_get_predicate_by_uri_def
      get_entity_by_uri_def get_extended_index_by_uri_def get_predicate_by_uri_def
    by (rule then_read_ok[OF h[OF assms]]; erule e i p)+
  show ?thesis
    using h[OF assms] n[OF assms] e[OF assms] i[OF assms] p[OF assms] by_uri by simp
qed


definition some_entity :: entity where
  "some_entity = \<lparr>PK = Key CHR ''a'' nul nul nul nul nul nul nul, InEdges = [], OutEdges = []\<rparr>"

lemma cached_reads_transparent_witness:
  "fst (t_get_entity_by_hash (graph_view [(PK some_entity, some_entity)]) (PK some_entity)
     (cache_set_entity (PK some_entity) some_entity new_cache)) = Inr some_entity"
proof -
  have "coherent (graph_view [(PK some_entity, some_entity)])
      (cache_set_entity (PK some_entity) some_entity new_cache)"
    by (simp add: coherent_def cache_set_entity_def new_cache_def graph_view_def get_entity_by_hash_def)
  from cached_reads_transparent[OF this] show ?thesis
    by (simp add: get_entity_by_hash_def graph_view_def)
qed

text \<open>
  C14: However queries, a transaction, commits and the evicting goroutine interleave, an entity that no
  transaction has written is read right: every snapshot in use gives, through the shared cache, what the
  database had at first.
\<close>

theorem untouched_entities_read_right:
  assumes "run_from g ks w" "k \<notin> ks" "s \<in> set (snapshots w)"
  shows "fst (t_get_entity_by_hash (graph_view s) k (shared w)) = get_entity_by_hash (graph_view g) k"
proof -
  have u: "untouched g ks w" using assms(1) by (rule run_from_untouched)
  then have s: "gm_get s k = gm_get g k" using assms(2,3) by (simp add: untouched_def)
  show ?thesis
  proof (cases "gm_get (entityObjectCache (shared w)) k")
    case None
    then show ?thesis using s
      by (simp add: t_get_entity_by_hash_def read_through_def cache_get_entity_def counted_def
          get_entity_by_hash_def graph_view_def split: option.split)
  next
    case (Some e)
    then have "gm_get g k = Some e" using u assms(2) by (simp add: untouched_def)
    then show ?thesis using Some
      by (simp add: t_get_entity_by_hash_def read_through_def cache_get_entity_def counted_def
          get_entity_by_hash_def graph_view_def)
  qed
qed

abbreviation (input) first_world :: "(key, entity) gomap \<Rightarrow> world" where
  "first_world g \<equiv> \<lparr>committed = g, writing = g, snapshots = [], shared = new_cache\<rparr>"

lemma untouched_entities_read_right_witness:
  "fst (t_get_entity_by_hash (graph_view [(PK some_entity, some_entity)]) (PK some_entity) new_cache)
     = Inr some_entity"
proof -
  let ?g = "[(PK some_entity, some_entity)]"
  have "run_from ?g {} ((first_world ?g)\<lparr>snapshots := [?g]\<rparr>)"
    using run_other[OF run_start world_step.begin_query, of ?g] by simp
  from untouched_entities_read_right[OF this, of "PK some_entity" ?g] show ?thesis
    by (simp add: get_entity_by_hash_def graph_view_def)
qed

text \<open>
  For written entities this fails. A query that began before the commit may fill the cache again after the
  eviction, with the entity of its snapshot; nothing evicts it later. In the state below no query and no
  eviction is pending, and the cache still holds the old entity.
\<close>

definition newer_entity :: entity where
  "newer_entity = some_entity\<lparr>InEdges := [(''b'', [empty_key])]\<rparr>"

lemma stale_entity_reachable:
  "\<exists>w. reachable w \<and> snapshots w = [] \<and> pendingEvict (shared w) = [] \<and>
     get_entity_by_hash (graph_view (committed w)) (PK some_entity) = Inr newer_entity \<and>
     fst (t_get_entity_by_hash (graph_view (committed w)) (PK some_entity) (shared w)) = Inr some_entity"
proof -
  let ?k = "PK some_entity" and ?g = "[(PK some_entity, some_entity)]"
  let ?w0 = "first_world ?g"
  let ?w1 = "?w0\<lparr>writing := gm_put (PK newer_entity) newer_entity (writing ?w0),
      shared := cache_evict (PK newer_entity) (shared ?w0)\<rparr>"
  let ?w2 = "?w1\<lparr>snapshots := committed ?w1 # snapshots ?w1\<rparr>"
  let ?w3 = "?w2\<lparr>shared := evict_next (shared ?w2)\<rparr>"
  let ?w4 = "?w3\<lparr>shared := snd (t_get_entity_by_hash (graph_view ?g) ?k (shared ?w3))\<rparr>"
  let ?w5 = "?w4\<lparr>committed := writing ?w4\<rparr>"
  let ?w6 = "?w5\<lparr>snapshots := []\<rparr>"
  have "reachable ?w1" using step[OF start world_step.write_entity] .
  then have "reachable ?w2" using step[OF _ world_step.begin_query] by blast
  then have "reachable ?w3" using step[OF _ world_step.evict] by blast
  moreover have "world_step ?w3 ?w4" by (rule world_step.read) simp
  ultimately have "reachable ?w4" by (rule step)
  then have "reachable ?w5" using step[OF _ world_step.commit_write] by blast
  moreover have "world_step ?w5 ?w6"
    using world_step.end_query[of ?w5 "[]" ?g "[]"] by simp
  ultimately have "reachable ?w6" by (rule step)
  moreover have "snapshots ?w6 = []" "pendingEvict (shared ?w6) = []"
    "get_entity_by_hash (graph_view (committed ?w6)) ?k = Inr newer_entity"
    "fst (t_get_entity_by_hash (graph_view (committed ?w6)) ?k (shared ?w6)) = Inr some_entity"
    by code_simp+
  ultimately show ?thesis by blast
qed

end
