(* ===== verification/Handles.thy ===== *)
theory Handles
  imports Prelude
begin

text \<open>
  The handles of the five LevelDB databases: taking a snapshot of each (db/snapshot.go), opening a
  transaction on each (db/transaction.go), and giving them back. A handle is named after its database;
  which calls of LevelDB fail is an argument.
\<close>

datatype db_name = EntityDB | PkDB | PredDB | GraphDB | ExtendedDB

text \<open>
  Take handles in the order of a list until one fails; then give back, in the order of another list, those
  that are there. \<open>Inl\<close>: the handles still held and those given back. \<open>Inr\<close>: the handles taken.
\<close>

fun acquire ::
    "db_name list \<Rightarrow> (db_name \<Rightarrow> bool) \<Rightarrow> db_name list \<Rightarrow> db_name list
      \<Rightarrow> (db_name list \<times> db_name list) + db_name list" where
  "acquire rels fails [] held = Inr held"
| "acquire rels fails (d # ds) held =
     (if fails d then
        (let given = filter (\<lambda>b. b \<in> set held) rels
         in Inl (filter (\<lambda>h. h \<notin> set given) held, given))
      else acquire rels fails ds (held @ [d]))"

definition take_snapshot :: "(db_name \<Rightarrow> bool) \<Rightarrow> (db_name list \<times> db_name list) + db_name list" where
  "take_snapshot fails =
     acquire [EntityDB, PkDB, PredDB, PkDB, ExtendedDB] fails [EntityDB, PkDB, PredDB, GraphDB, ExtendedDB] []"

text \<open>\<open>Close\<close> and \<open>done\<close>.\<close>

definition snapshot_done :: "db_name list" where
  "snapshot_done = [EntityDB, PkDB, PredDB, GraphDB, ExtendedDB]"

definition take_transaction :: "(db_name \<Rightarrow> bool) \<Rightarrow> (db_name list \<times> db_name list) + db_name list" where
  "take_transaction fails =
     acquire [EntityDB, PkDB, GraphDB, ExtendedDB, PredDB] fails [EntityDB, PkDB, GraphDB, ExtendedDB, PredDB] []"

text \<open>
  \<open>discard\<close> on the handles that a transaction has: a handle that was never taken is a nil pointer, and
  discarding it ends the program (\<open>None\<close>). Every caller of \<open>openTransaction\<close> calls it after an error.
\<close>

definition discard :: "db_name list \<Rightarrow> db_name list option" where
  "discard held =
     (if {EntityDB, PkDB, GraphDB, ExtendedDB, PredDB} \<subseteq> set held then Some [EntityDB, PkDB, GraphDB, ExtendedDB, PredDB]
      else None)"

section \<open>What is held afterwards\<close>

lemma acquire_fails:
  "acquire rels fails ds held = Inl (kept, given) \<Longrightarrow>
     \<exists>xs d ys. ds = xs @ d # ys \<and> fails d \<and> (\<forall>x \<in> set xs. \<not> fails x) \<and>
       kept = filter (\<lambda>h. h \<notin> set rels) (held @ xs) \<and> given = filter (\<lambda>b. b \<in> set (held @ xs)) rels"
proof (induction ds arbitrary: held)
  case (Cons d ds)
  show ?case
  proof (cases "fails d")
    case True
    then have "kept = filter (\<lambda>h. h \<notin> set rels) held" "given = filter (\<lambda>b. b \<in> set held) rels"
      using Cons.prems by (auto simp: Let_def intro!: filter_cong)
    then show ?thesis using True by (intro exI[of _ "[]"] exI[of _ d] exI[of _ ds]) simp
  next
    case False
    then have "acquire rels fails ds (held @ [d]) = Inl (kept, given)" using Cons.prems by simp
    from Cons.IH[OF this] obtain xs e ys where "ds = xs @ e # ys" "fails e" "\<forall>x \<in> set xs. \<not> fails x"
      "kept = filter (\<lambda>h. h \<notin> set rels) ((held @ [d]) @ xs)" "given = filter (\<lambda>b. b \<in> set ((held @ [d]) @ xs)) rels"
      by (elim exE conjE)
    then show ?thesis using False by (intro exI[of _ "d # xs"] exI[of _ e] exI[of _ ys]) simp
  qed
qed simp

text \<open>A transaction that cannot be opened keeps no handle, and discards each it had once.\<close>

lemma take_transaction_fails:
  assumes "take_transaction fails = Inl (kept, given)"
  shows "kept = [] \<and> distinct given"
proof -
  let ?rels = "[EntityDB, PkDB, GraphDB, ExtendedDB, PredDB]"
  from acquire_fails[OF assms[unfolded take_transaction_def]] obtain xs
    where "kept = filter (\<lambda>h. h \<notin> set ?rels) ([] @ xs)" "given = filter (\<lambda>b. b \<in> set ([] @ xs)) ?rels"
    by (elim exE conjE)
  moreover have "x \<in> set [EntityDB, PkDB, GraphDB, ExtendedDB, PredDB]" for x by (cases x) simp_all
  ultimately show ?thesis by simp
qed

text \<open>But the callers then discard it once more, and the handle that was not taken is nil.\<close>

lemma failed_open_then_discard:
  "fails EntityDB \<Longrightarrow> take_transaction fails = Inl ([], []) \<and> discard [] = None"
  by (simp add: take_transaction_def discard_def)

text \<open>
  A snapshot whose last part fails keeps the snapshot of the graph for ever and releases that of the keys
  twice.
\<close>

lemma snapshot_leaks_graph:
  assumes "fails ExtendedDB" "\<not> fails EntityDB" "\<not> fails PkDB" "\<not> fails PredDB" "\<not> fails GraphDB"
  shows "take_snapshot fails = Inl ([GraphDB], [EntityDB, PkDB, PredDB, PkDB])"
  using assms by (simp add: take_snapshot_def)

lemma snapshot_taken:
  "take_snapshot (\<lambda>d. False) = Inr snapshot_done" "take_transaction (\<lambda>d. False) = Inr ts \<Longrightarrow> discard ts \<noteq> None"
  by (auto simp: take_snapshot_def snapshot_done_def take_transaction_def discard_def)

end
