(* ===== verification/FrontEnd.thy ===== *)
theory FrontEnd
  imports Parser Transaction Engine ResultCodec Cache
begin

text \<open>
  The front end (db/hoddb.go, db/insert.go and what they use of db/result.go, db/util.go, db/db.go and
  db/db_api.go): the databases of a HodDB, loading a data set, running a query on some or all of
  them, collecting the rows, and inserting. Both the query parser and the planner have a result
  \<open>Done\<close>; here it is always that of \<open>exec\<close>.
\<close>

section \<open>Databases and services\<close>

text \<open>
  One database: its store, the cache in front of it, the maps it keeps in memory and what was handed to
  the text index.
\<close>

record hod_db =
  db_store :: store
  db_cache :: dbcache
  db_namespaces :: "(string, string) gomap"
  db_relationships :: "(uri, uri) gomap"
  db_predIndex :: "(uri, predicate_entity) gomap"
  db_text :: "(string \<times> string) list"

text \<open>
  What the code calls but does not define, and what Go leaves open: the hash of rows and URIs, the
  orders of map iteration, the commits that fail, the text index (Bleve), the index files, the texts
  of errors, the rows of a B-tree in the order \<open>DeleteMax\<close> gives them, and what a pooled result row
  holds beyond the columns that were set. For each database by its name, \<open>svc_drained\<close> is how many queued
  keys the cache's goroutine has evicted when a query begins, and \<open>svc_reads\<close> the reads the query makes.
\<close>

record services =
  svc_hash :: "bytes \<Rightarrow> u32"
  svc_runtime :: runtime
  svc_vars :: varorder
  svc_branches :: "qtriple list list \<Rightarrow> qtriple list list"
  svc_orders :: orders
  svc_dbs :: "string list \<Rightarrow> string list"
  svc_faults :: commit_faults
  svc_text :: "(string \<times> string) list \<Rightarrow> err option"
  svc_save :: "hod_db \<Rightarrow> err option"
  svc_message :: "string \<Rightarrow> err \<Rightarrow> string"
  svc_tree :: "uri list list \<Rightarrow> uri list list"
  svc_stale :: "nat \<Rightarrow> uri"
  svc_drained :: "string \<Rightarrow> nat"
  svc_reads :: "string \<Rightarrow> cache_read list"

section \<open>Writing a data set\<close>

definition RDF_TYPE :: string where
  "RDF_TYPE = ''http://www.w3.org/1999/02/22-rdf-syntax-ns#type''"

definition OWL_CLASS :: string where
  "OWL_CLASS = ''http://www.w3.org/2002/07/owl#Class''"

text \<open>The classes of a data set, with the words of their names.\<close>

definition text_entries :: "dataset \<Rightarrow> (string \<times> string) list" where
  "text_entries ds =
     map (\<lambda>t. (uri_string (Subject t),
              map (\<lambda>c. if c = CHR ''_'' then CHR '' '' else c) (Value (Subject t))))
       (filter (\<lambda>t. uri_string (Predicate t) = RDF_TYPE \<and> uri_string (Object t) = OWL_CLASS \<and>
                    Namespace (Subject t) \<noteq> '''') (Triples ds))"

definition build_text_index :: "services \<Rightarrow> dataset \<Rightarrow> hod_db \<Rightarrow> err option \<times> hod_db" where
  "build_text_index svc ds db =
     (case svc_text svc (text_entries ds) of
        Some e \<Rightarrow> (Some (Wrapped e), db)
      | None \<Rightarrow> (None, db\<lparr>db_text := db_text db @ text_entries ds\<rparr>))"

text \<open>
  A transaction with the triples of a data set, then the text index: the steps that loading, the
  ontologies and an insertion share. \<open>None\<close> when the search for a free key does not end. Every triple
  queues its keys for eviction, whatever becomes of the transaction; when a triple fails, those before it
  have done so.
\<close>

fun evicted_before_error :: "(bytes \<Rightarrow> u32) \<Rightarrow> triple list \<Rightarrow> transaction \<Rightarrow> key list" where
  "evicted_before_error hf [] tx = tx_evicted tx"
| "evicted_before_error hf (t # ts) tx =
     (case add_triple hf t tx of
        Some (Inr tx1) \<Rightarrow> evicted_before_error hf ts (note_inverse t tx1)
      | _ \<Rightarrow> tx_evicted tx)"

definition queue_evictions :: "key list \<Rightarrow> hod_db \<Rightarrow> hod_db" where
  "queue_evictions ks db = db\<lparr>db_cache := fold cache_evict ks (db_cache db)\<rparr>"

definition write_dataset :: "services \<Rightarrow> dataset \<Rightarrow> hod_db \<Rightarrow> (err option \<times> hod_db) option" where
  "write_dataset svc ds db =
     (case add_triples (svc_hash svc) (svc_orders svc) ds (open_transaction (db_store db)) of
        None \<Rightarrow> None
      | Some (Inl e) \<Rightarrow>
          Some (Some e, queue_evictions
            (evicted_before_error (svc_hash svc) (Triples ds) (open_transaction (db_store db))) db)
      | Some (Inr tx) \<Rightarrow>
          (let db1 = queue_evictions (tx_evicted tx) db
           in case tx_done (svc_faults svc) tx (db_store db) of
                (Some e, st) \<Rightarrow> Some (Some e, db1\<lparr>db_store := st\<rparr>)
              | (None, st) \<Rightarrow> Some (build_text_index svc ds (db1\<lparr>db_store := st\<rparr>))))"

definition add_namespaces :: "dataset \<Rightarrow> hod_db \<Rightarrow> hod_db" where
  "add_namespaces ds db =
     db\<lparr>db_namespaces := fold (\<lambda>(abbr, full). gm_put abbr full)
         (filter (\<lambda>(abbr, full). abbr \<noteq> '''') (Namespaces ds)) (db_namespaces db)\<rparr>"

text \<open>
  \<open>HodDB.loadDataset\<close> on the database that \<open>newDB\<close> opened, with what the Turtle parser reports; the
  database is stored under its name only when everything succeeded.
\<close>

definition load_dataset ::
    "services \<Rightarrow> string \<Rightarrow> raptor_event list \<Rightarrow> hod_db \<Rightarrow> (string, hod_db) gomap
      \<Rightarrow> (err option \<times> (string, hod_db) gomap) option" where
  "load_dataset svc name evs db dbs =
     (let ds = Turtle.parser_parse evs
      in case write_dataset svc ds db of
           None \<Rightarrow> None
         | Some (Some e, db1) \<Rightarrow> Some (Some e, dbs)
         | Some (None, db1) \<Rightarrow>
             (let db2 = add_namespaces ds db1
              in case svc_save svc db2 of
                   Some e \<Rightarrow> Some (Some e, dbs)
                 | None \<Rightarrow> Some (None, gm_put name db2 dbs)))"

text \<open>
  The ontologies \<open>newDB\<close> loads into a database it has opened. A triple that cannot be added ends the
  program, a commit or the text index that fails ends the opening with an error.
\<close>

fun load_ontologies ::
    "services \<Rightarrow> raptor_event list list \<Rightarrow> hod_db \<Rightarrow> (err option \<times> hod_db) exec option" where
  "load_ontologies svc [] db = Some (exec.Done (svc_save svc db, db))"
| "load_ontologies svc (evs # files) db =
     (let ds = Turtle.parser_parse evs
      in case add_triples (svc_hash svc) (svc_orders svc) ds (open_transaction (db_store db)) of
           None \<Rightarrow> None
         | Some (Inl e) \<Rightarrow> Some Panic
         | Some (Inr tx) \<Rightarrow>
             (case write_dataset svc ds db of
                None \<Rightarrow> None
              | Some (Some e, db1) \<Rightarrow> Some (exec.Done (Some e, db1))
              | Some (None, db1) \<Rightarrow> load_ontologies svc files (add_namespaces ds db1)))"

section \<open>Starting\<close>

text \<open>
  \<open>NewHodDB\<close> opens or loads one database for each building of the configuration. The files, SHA-256, the
  Turtle parser and the opening of a database are arguments; \<open>opened reload name\<close> is what \<open>newDB\<close> returns.
  The twenty workers are modelled one building after the other.
\<close>

record hod_state =
  hod_buildings :: "string list"
  hod_dbs :: "(string, hod_db) gomap"
  hod_hashes :: "(string, bytes) gomap"

record hod_files =
  file_content :: "string \<Rightarrow> bytes option"
  file_sha256 :: "bytes \<Rightarrow> bytes"
  file_events :: "bytes \<Rightarrow> raptor_event list"
  opened :: "bool \<Rightarrow> string \<Rightarrow> hod_db res"

definition load_building ::
    "services \<Rightarrow> hod_files \<Rightarrow> string \<times> string \<Rightarrow> hod_state \<Rightarrow> (err option \<times> hod_state) option" where
  "load_building svc fs bldg st =
     (case bldg of (name, ttlfile) \<Rightarrow>
        (case file_content fs ttlfile of
           None \<Rightarrow> Some (Some (Wrapped (Failure ''open'')), st)
         | Some data \<Rightarrow>
             (let filehash = file_sha256 fs data
              in if gm_get (hod_hashes st) ttlfile = Some filehash then
                   (case opened fs False name of
                      Inl e \<Rightarrow> Some (Some (Wrapped e), st)
                    | Inr db \<Rightarrow> Some (None, st\<lparr>hod_dbs := gm_put name db (hod_dbs st),
                                                hod_buildings := hod_buildings st @ [name]\<rparr>))
                 else
                   (let st1 = st\<lparr>hod_buildings := hod_buildings st @ [name],
                                 hod_hashes := gm_put ttlfile filehash (hod_hashes st)\<rparr>
                    in case opened fs True name of
                         Inl e \<Rightarrow> Some (Some (Wrapped e), st1)
                       | Inr db \<Rightarrow>
                           map_option (\<lambda>(er, dbs). (er, st1\<lparr>hod_dbs := dbs\<rparr>))
                             (load_dataset svc name (file_events fs data) db (hod_dbs st1))))))"

fun load_buildings ::
    "services \<Rightarrow> hod_files \<Rightarrow> (string \<times> string) list \<Rightarrow> hod_state \<Rightarrow> (err list \<times> hod_state) option" where
  "load_buildings svc fs [] st = Some ([], st)"
| "load_buildings svc fs (bldg # bldgs) st =
     (case load_building svc fs bldg st of
        None \<Rightarrow> None
      | Some (er, st1) \<Rightarrow>
          map_option (\<lambda>(ers, st2). (case er of None \<Rightarrow> ers | Some e \<Rightarrow> e # ers, st2))
            (load_buildings svc fs bldgs st1))"

text \<open>
  The \<open>select\<close> takes the first error or the end of the loading; when both are there, Go chooses:
  \<open>sees_error\<close>. Without an error it writes the file hashes.
\<close>

definition new_hod ::
    "services \<Rightarrow> hod_files \<Rightarrow> bool \<Rightarrow> (string \<times> string) list \<Rightarrow> (string, bytes) gomap \<Rightarrow> hod_state res option" where
  "new_hod svc fs sees_error bldgs saved =
     (case load_buildings svc fs bldgs \<lparr>hod_buildings = [], hod_dbs = [], hod_hashes = saved\<rparr> of
        None \<Rightarrow> None
      | Some ([], st) \<Rightarrow> Some (Inr st)
      | Some (e # ers, st) \<Rightarrow> Some (if sees_error then Inl e else Inr st))"

text \<open>
  A file that was loaded once and has not changed is not loaded again, whatever the other services do.
\<close>

lemma unchanged_file_not_loaded:
  assumes "file_content fs ttlfile = Some data" "gm_get (hod_hashes st) ttlfile = Some (file_sha256 fs data)"
    and "opened fs False name = Inr db"
  shows "load_building svc fs (name, ttlfile) st =
    Some (None, st\<lparr>hod_dbs := gm_put name db (hod_dbs st), hod_buildings := hod_buildings st @ [name]\<rparr>)"
  using assms by (simp add: load_building_def)

text \<open>
  The hash of a file is recorded before the file is loaded. When the loading fails and the \<open>select\<close> does
  not see the error, the hash is saved and the next start takes the file for loaded.
\<close>

lemma failed_load_recorded:
  assumes "file_content fs ttlfile = Some data" "gm_get saved ttlfile \<noteq> Some (file_sha256 fs data)"
    and "opened fs True name = Inl e"
  shows "\<exists>st. new_hod svc fs False [(name, ttlfile)] saved = Some (Inr st) \<and>
    gm_get (hod_hashes st) ttlfile = Some (file_sha256 fs data) \<and> hod_dbs st = []"
  using assms by (simp add: new_hod_def load_building_def Let_def update_conv')

section \<open>Inserting\<close>

text \<open>A variable is replaced by its value in a row, when the row has one.\<close>

definition substitute :: "result_map \<Rightarrow> uri \<Rightarrow> uri" where
  "substitute row u =
     (if is_variable u then (case gm_get row (Value u) of Some value \<Rightarrow> value | None \<Rightarrow> u) else u)"

text \<open>
  The triples to add: with a result count of zero the terms as they are, else every term with every row
  of the result, and their number. A term without a predicate panics, where one is read.
\<close>

fun insert_term :: "query_result \<Rightarrow> qtriple \<Rightarrow> dataset \<times> nat \<Rightarrow> (dataset \<times> nat) exec" where
  "insert_term result t (ds, n) =
     (case QPredicates t of
        [] \<Rightarrow> if Count result = 0 \<or> Rows result \<noteq> [] then Panic else exec.Done (ds, n)
      | pp # pps \<Rightarrow>
          if Count result = 0 then
            exec.Done (add_triple_uris (QSubject t) (PathPredicate pp) (QObject t) ds, n)
          else
            exec.Done
              (fold (\<lambda>row. add_triple_uris (substitute row (QSubject t))
                             (substitute row (PathPredicate pp)) (substitute row (QObject t)))
                 (Rows result) ds, n + length (Rows result)))"

fun insert_terms :: "query_result \<Rightarrow> qtriple list \<Rightarrow> dataset \<times> nat \<Rightarrow> (dataset \<times> nat) exec" where
  "insert_terms result [] acc = exec.Done acc"
| "insert_terms result (t # ts) acc =
     (case insert_term result t acc of Panic \<Rightarrow> Panic | exec.Done acc1 \<Rightarrow> insert_terms result ts acc1)"

definition store_additions :: "services \<Rightarrow> dataset \<Rightarrow> hod_db \<Rightarrow> (err option \<times> hod_db) option" where
  "store_additions svc additions db =
     (case write_dataset svc additions db of
        None \<Rightarrow> None
      | Some (Some e, db1) \<Rightarrow> Some (Some e, db1)
      | Some (None, db1) \<Rightarrow> Some (svc_save svc db1, db1))"

text \<open>\<open>handleInsert\<close>: the error, the number of triples counted as inserted and the database.\<close>

definition handle_insert ::
    "services \<Rightarrow> qtriple list \<Rightarrow> query_result \<Rightarrow> hod_db \<Rightarrow> (err option \<times> nat \<times> hod_db) exec option" where
  "handle_insert svc terms result db =
     (case insert_terms result terms (new_dataset, 0) of
        Panic \<Rightarrow> Some Panic
      | exec.Done (additions, n) \<Rightarrow>
          (case store_additions svc additions db of
             None \<Rightarrow> None
           | Some (e, db1) \<Rightarrow> Some (exec.Done (e, n, db1))))"

section \<open>A query on one database\<close>

text \<open>
  \<open>DB.runQuery\<close> returns rows and an error together: when a branch of the unions fails, the rows of the
  others are kept, with the error of the branch that failed last.
\<close>

fun gather_branches :: "uri list list res exec option list \<Rightarrow> (uri list list \<times> err option) exec option" where
  "gather_branches [] = Some (exec.Done ([], None))"
| "gather_branches (b # bs) =
     (case (b, gather_branches bs) of
        (Some Panic, _) \<Rightarrow> Some Panic
      | (_, Some Panic) \<Rightarrow> Some Panic
      | (None, _) \<Rightarrow> None
      | (_, None) \<Rightarrow> None
      | (Some (exec.Done (Inl e)), Some (exec.Done (rs, er))) \<Rightarrow>
          Some (exec.Done (rs, Some (case er of Some e' \<Rightarrow> e' | None \<Rightarrow> e)))
      | (Some (exec.Done (Inr r)), Some (exec.Done (rs, er))) \<Rightarrow> Some (exec.Done (r @ rs, er)))"

definition expand_query :: "hod_db \<Rightarrow> query \<Rightarrow> query" where
  "expand_query db = iter_triples (expand_triple (db_namespaces db))"

text \<open>
  A query takes a snapshot and reads it through the cache of the database. By \<open>query_reads_fixed\<close>
  (theory Cache) it sees one view of the database while it runs, as long as no key is evicted meanwhile;
  the evictions are taken to happen between the queries. The entries that its reads have added stay.
\<close>

definition db_snapshot :: "hod_db \<Rightarrow> view" where
  "db_snapshot db = snapshot_view (db_relationships db) (db_store db)"

definition db_view :: "hod_db \<Rightarrow> view" where
  "db_view db = cached_view (db_cache db) (db_snapshot db)"

definition before_query :: "services \<Rightarrow> string \<Rightarrow> hod_db \<Rightarrow> hod_db" where
  "before_query svc dbname db = db\<lparr>db_cache := (evict_next ^^ svc_drained svc dbname) (db_cache db)\<rparr>"

definition after_query :: "services \<Rightarrow> string \<Rightarrow> hod_db \<Rightarrow> hod_db" where
  "after_query svc dbname db =
     db\<lparr>db_cache := fold (read_cached (db_snapshot db)) (svc_reads svc dbname) (db_cache db)\<rparr>"

definition db_run_query ::
    "services \<Rightarrow> hod_db \<Rightarrow> query \<Rightarrow> (uri list list \<times> err option) exec option" where
  "db_run_query svc db q0 =
     (let q = expand_query db q0;
          ors = query_branches q;
          run = get_query_results (svc_hash svc) (svc_runtime svc) (db_view db) (db_predIndex db)
      in if ors \<noteq> [] then
           gather_branches (map (\<lambda>alt. run (branch_query (svc_vars svc) q alt)) (svc_branches svc ors))
         else gather_branches [run q])"

text \<open>\<open>DB.runQueryString\<close>.\<close>

definition db_run_query_string ::
    "services \<Rightarrow> hod_db \<Rightarrow> string \<Rightarrow> (uri list list \<times> err option) exec option" where
  "db_run_query_string svc db s =
     (case parse_text (svc_vars svc) s of
        None \<Rightarrow> None
      | Some ParsePanic \<Rightarrow> Some Panic
      | Some (ParseError e) \<Rightarrow> Some (exec.Done ([], Some (Wrapped (Failure ''parse''))))
      | Some (ParsedQuery q) \<Rightarrow>
          (case db_run_query svc db q of
             Some (exec.Done (rs, Some e)) \<Rightarrow> Some (exec.Done (rs, Some (Wrapped e)))
           | r \<Rightarrow> r))"

section \<open>Collecting the rows\<close>

text \<open>
  A result row as a map from the selected variables. A row that came from a branch with fewer
  variables gives what its pooled array held.
\<close>

definition row_column :: "(nat \<Rightarrow> uri) \<Rightarrow> uri list \<Rightarrow> nat \<Rightarrow> uri" where
  "row_column stale row idx = (if idx < length row then row ! idx else stale idx)"

definition row_to_map :: "(nat \<Rightarrow> uri) \<Rightarrow> string list \<Rightarrow> uri list \<Rightarrow> result_map" where
  "row_to_map stale cols row =
     fold (\<lambda>(idx, x). gm_put x (row_column stale row idx)) (enumerate 0 cols) []"

definition no_result :: query_result where
  "no_result = \<lparr>Rows = [], Count = 0, Elapsed = 0, Errors = []\<rparr>"

text \<open>
  What \<open>RunQuery\<close> does with the tree after each database: it empties the tree into the result, or only
  reads its size when the query counts. More than sixteen variables panic at the first row.
\<close>

definition collect_rows ::
    "services \<Rightarrow> query \<Rightarrow> uri list list \<Rightarrow> query_result \<Rightarrow> (uri list list \<times> query_result) exec" where
  "collect_rows svc q tree result =
     (let ordered = svc_tree svc tree; cols = SelectVars (Select q)
      in if QCount q then exec.Done (tree, result\<lparr>Count := of_nat (length ordered)\<rparr>)
         else if \<not> is_insert q \<and> ordered \<noteq> [] \<and> length cols > result_columns then Panic
         else exec.Done ([], result\<lparr>Rows := Rows result @
                     (if is_insert q then [] else map (row_to_map (svc_stale svc) cols) ordered),
                   Count := Count result + of_nat (length ordered)\<rparr>))"

section \<open>A query on several databases\<close>

definition add_error :: "services \<Rightarrow> string \<Rightarrow> err option \<Rightarrow> query_result \<Rightarrow> query_result" where
  "add_error svc dbname er result =
     (case er of
        None \<Rightarrow> result
      | Some e \<Rightarrow> result\<lparr>Errors := Errors result @ [svc_message svc dbname e]\<rparr>)"

text \<open>
  The loop of \<open>RunQuery\<close>. The syntax tree is shared: the prefixes that one database expands stay
  expanded for the next. \<open>dbs\<close> are the databases still to visit and \<open>seen\<close> those visited, as the query
  left them.
\<close>

type_synonym run_result = "(query_result \<times> err option \<times> (string \<times> hod_db) list) exec option"

fun run_databases ::
    "services \<Rightarrow> (string \<times> hod_db) list \<Rightarrow> query \<Rightarrow> uri list list \<Rightarrow> query_result \<Rightarrow> run_result" where
  "run_databases svc [] q tree result = Some (exec.Done (result, None, []))"
| "run_databases svc ((dbname, db0) # dbs) q tree result =
     (case db_run_query svc (before_query svc dbname db0) q of
        None \<Rightarrow> None
      | Some Panic \<Rightarrow> Some Panic
      | Some (exec.Done (single, er)) \<Rightarrow>
          (case collect_rows svc q (tree @ single) (add_error svc dbname er result) of
             Panic \<Rightarrow> Some Panic
           | exec.Done (tree1, result1) \<Rightarrow>
               (let db = after_query svc dbname (before_query svc dbname db0);
                    q1 = expand_query db q;
                    rest = (\<lambda>db1. map_option (\<lambda>r. case r of Panic \<Rightarrow> Panic
                              | exec.Done (res, e, seen) \<Rightarrow> exec.Done (res, e, (dbname, db1) # seen))
                              (run_databases svc dbs q1 tree1 result1))
                in if \<not> is_insert q then rest db
                   else case handle_insert svc (InsertTerms q1) result1 db of
                          None \<Rightarrow> None
                        | Some Panic \<Rightarrow> Some Panic
                        | Some (exec.Done (Some e, n, db1)) \<Rightarrow>
                            Some (exec.Done (result1, Some e, (dbname, db1) # dbs))
                        | Some (exec.Done (None, n, db1)) \<Rightarrow> rest db1)))"

definition choose_databases :: "services \<Rightarrow> query \<Rightarrow> (string, hod_db) gomap \<Rightarrow> string list" where
  "choose_databases svc q dbs =
     svc_dbs svc (if AllDBs (From q) then gm_keys dbs else filter (gm_has dbs) (remdups (Databases (From q))))"

definition database_named :: "(string, hod_db) gomap \<Rightarrow> string \<Rightarrow> (string \<times> hod_db) list" where
  "database_named dbs name = (case gm_get dbs name of None \<Rightarrow> [] | Some db \<Rightarrow> [(name, db)])"

text \<open>\<open>HodDB.RunQuery\<close> and \<open>HodDB.RunQueryString\<close>.\<close>

definition hod_run_query ::
    "services \<Rightarrow> (string, hod_db) gomap \<Rightarrow> query \<Rightarrow> run_result" where
  "hod_run_query svc dbs q =
     run_databases svc (concat (map (database_named dbs) (choose_databases svc q dbs))) q [] no_result"

definition hod_run_query_string ::
    "services \<Rightarrow> (string, hod_db) gomap \<Rightarrow> string \<Rightarrow> run_result" where
  "hod_run_query_string svc dbs s =
     (case parse_text (svc_vars svc) s of
        None \<Rightarrow> None
      | Some ParsePanic \<Rightarrow> Some Panic
      | Some (ParseError e) \<Rightarrow> Some (exec.Done (no_result, Some (Wrapped (Failure ''parse'')), []))
      | Some (ParsedQuery q) \<Rightarrow>
          (case hod_run_query svc dbs q of
             Some (exec.Done (res, Some e, seen)) \<Rightarrow> Some (exec.Done (res, Some (Wrapped e), seen))
           | r \<Rightarrow> r))"

section \<open>Helpers of the results\<close>

definition from_rows :: "(nat \<Rightarrow> uri) \<Rightarrow> string list \<Rightarrow> bool \<Rightarrow> uri list list \<Rightarrow> query_result \<Rightarrow> query_result" where
  "from_rows stale cols to_map rws qr =
     (let qr1 = qr\<lparr>Count := of_nat (length rws)\<rparr>
      in if to_map then qr1\<lparr>Rows := Rows qr1 @ map (row_to_map stale cols) rws\<rparr> else qr1)"

text \<open>
  \<open>HodDB.abbreviate\<close> asks the first database only; \<open>DumpToCSV\<close> writes one record for each row (a variable
  that the row has no value for is the zero URI). The CSV writer is Go's.
\<close>

definition hod_abbreviate :: "(string \<times> hod_db) list \<Rightarrow> uri \<Rightarrow> string" where
  "hod_abbreviate dbs u = (case dbs of [] \<Rightarrow> '''' | (dbname, db) # _ \<Rightarrow> abbreviate (db_namespaces db) u)"

definition csv_records :: "bool \<Rightarrow> (string \<times> hod_db) list \<Rightarrow> string list \<Rightarrow> result_map list \<Rightarrow> string list list" where
  "csv_records use_prefixes dbs cols rws =
     map (\<lambda>row. map (\<lambda>x.
       let u = (case gm_get row x of None \<Rightarrow> zero_uri | Some u \<Rightarrow> u)
       in if use_prefixes then hod_abbreviate dbs u else uri_string u) cols) rws"

definition compare_result_map :: "result_map \<Rightarrow> result_map \<Rightarrow> bool" where
  "compare_result_map rm1 rm2 =
     (length rm1 = length rm2 \<and> list_all (\<lambda>(k, v). gm_get rm2 k = Some v) rm1)"

definition compare_result_map_list :: "result_map list \<Rightarrow> result_map list \<Rightarrow> bool" where
  "compare_result_map_list rml1 rml2 =
     (length rml1 = length rml2 \<and> list_all (\<lambda>val1. list_ex (compare_result_map val1) rml2) rml1)"

definition row_is_full :: "key list \<Rightarrow> bool" where
  "row_is_full row = list_all (\<lambda>entry. entry \<noteq> empty_key) row"

text \<open>
  \<open>ResultRow.Less\<close>: strings are compared byte by byte. The row compared with has sixteen columns, so it is
  never the shorter one.
\<close>

fun bytes_less :: "string \<Rightarrow> string \<Rightarrow> bool" where
  "bytes_less xs [] = False"
| "bytes_less [] (y # ys) = True"
| "bytes_less (x # xs) (y # ys) = ((of_char x :: nat) < of_char y \<or> x = y \<and> bytes_less xs ys)"

fun result_row_less :: "bool \<Rightarrow> uri list \<Rightarrow> uri list \<Rightarrow> bool" where
  "result_row_less before [] row = before"
| "result_row_less before (item # items) row =
     (if before then before
      else (case row of
              [] \<Rightarrow> False
            | u # us \<Rightarrow>
                result_row_less (bytes_less (Value item) (Value u) \<or> bytes_less (Namespace item) (Namespace u))
                  items us))"

text \<open>It is not an order: each of two rows can be less than the other.\<close>

lemma result_row_less_not_asymmetric:
  "result_row_less False [mkURI ''a'' ''y''] [mkURI ''b'' ''x''] \<and>
   result_row_less False [mkURI ''b'' ''x''] [mkURI ''a'' ''y'']"
  by code_simp

text \<open>
  But two rows of which neither is less are equal, so the tree, which takes such rows for one, drops no
  row that differs from the others.
\<close>

lemma bytes_less_total: "\<not> bytes_less xs ys \<Longrightarrow> \<not> bytes_less ys xs \<Longrightarrow> xs = ys"
proof (induction xs ys rule: bytes_less.induct)
  case (1 xs)
  then show ?case by (cases xs) simp_all
next
  case (3 x xs y ys)
  then have "\<not> (of_char x :: nat) < of_char y" "\<not> (of_char y :: nat) < of_char x" by simp_all
  then have "(of_char x :: nat) = of_char y" by linarith
  then have "x = y" by simp
  then show ?case using 3 by simp
qed simp

lemma result_row_less_total:
  "length r = length s \<Longrightarrow> \<not> result_row_less False r s \<Longrightarrow> \<not> result_row_less False s r \<Longrightarrow> r = s"
proof (induction r s rule: list_induct2)
  case (Cons u r v s)
  have early: "result_row_less True xs ys" for xs ys by (cases xs) simp_all
  have "\<not> bytes_less (Value u) (Value v)" "\<not> bytes_less (Namespace u) (Namespace v)"
    "\<not> bytes_less (Value v) (Value u)" "\<not> bytes_less (Namespace v) (Namespace u)"
    using Cons.prems early by auto
  then have "u = v" "\<not> result_row_less False r s" "\<not> result_row_less False s r"
    using Cons.prems bytes_less_total by (auto intro: uri.equality)
  then show ?case using Cons.IH by simp
qed simp

record query_stats =
  WhereTime :: int
  InsertTime :: int
  ExpandTime :: int
  NumResults :: int
  NumInserted :: int
  NumDeleted :: int

definition stats_merge :: "query_stats \<Rightarrow> query_stats \<Rightarrow> query_stats" where
  "stats_merge other mq =
     \<lparr>WhereTime = max (WhereTime mq) (WhereTime other), InsertTime = max (InsertTime mq) (InsertTime other),
      ExpandTime = max (ExpandTime mq) (ExpandTime other), NumResults = NumResults mq + NumResults other,
      NumInserted = NumInserted mq + NumInserted other, NumDeleted = NumDeleted mq + NumDeleted other\<rparr>"

section \<open>Selecting and counting\<close>

lemma expand_query_fields [simp]:
  "Select (expand_query db q) = Select q" "From (expand_query db q) = From q"
  "QCount (expand_query db q) = QCount q" "QType (expand_query db q) = QType q"
  "is_insert (expand_query db q) = is_insert q"
  by (simp_all add: expand_query_def iter_triples_def is_insert_def)

lemma InsertTerms_expand_query:
  "InsertTerms (expand_query db q) = map (expand_triple (db_namespaces db)) (InsertTerms q)"
  by (simp add: expand_query_def iter_triples_def)

lemma update_absent: "x \<notin> set (map fst m) \<Longrightarrow> gm_put x v m = m @ [(x, v)]"
  by (induction m) auto

lemma row_to_map_zip:
  "\<lbrakk>distinct cols; length row = length cols\<rbrakk> \<Longrightarrow> row_to_map stale cols row = zip cols row"
proof -
  have "\<lbrakk>distinct cs; n + length cs = length row; set (map fst m) \<inter> set cs = {}\<rbrakk> \<Longrightarrow>
      fold (\<lambda>(idx, x). gm_put x (row_column stale row idx)) (enumerate n cs) m = m @ zip cs (drop n row)"
    for cs n m
  proof (induction cs arbitrary: n m)
    case (Cons c cs)
    then have "drop n row = row ! n # drop (Suc n) row" by (metis Cons_nth_drop_Suc less_add_Suc1 list.size(4) add_Suc_right)
    then show ?case
      using Cons.IH[of "Suc n" "m @ [(c, row ! n)]"] Cons.prems
      by (auto simp: row_column_def update_absent)
  qed simp
  from this[of cols 0 "[]"] show "\<lbrakk>distinct cols; length row = length cols\<rbrakk> \<Longrightarrow> ?thesis"
    by (simp add: row_to_map_def)
qed

text \<open>What each database answers to the query, as the query reaches it.\<close>

definition queried :: "services \<Rightarrow> string \<times> hod_db \<Rightarrow> string \<times> hod_db" where
  "queried svc = (\<lambda>(dbname, db). (dbname, after_query svc dbname (before_query svc dbname db)))"

lemma expand_query_cached [simp]:
  "expand_query (before_query svc dbname db) = expand_query db" "expand_query (after_query svc dbname db) = expand_query db"
  by (simp_all add: expand_query_def before_query_def after_query_def)

text \<open>A query changes nothing of a database but its cache.\<close>

lemma queried_fields:
  "fst (queried svc x) = fst x" "db_store (snd (queried svc x)) = db_store (snd x)"
  "db_namespaces (snd (queried svc x)) = db_namespaces (snd x)"
  "db_relationships (snd (queried svc x)) = db_relationships (snd x)"
  "db_predIndex (snd (queried svc x)) = db_predIndex (snd x)" "db_text (snd (queried svc x)) = db_text (snd x)"
  by (simp_all add: queried_def before_query_def after_query_def split: prod.split)

lemma db_snapshot_cached [simp]:
  "db_snapshot (before_query svc dbname db) = db_snapshot db" "db_snapshot (after_query svc dbname db) = db_snapshot db"
  by (simp_all add: db_snapshot_def before_query_def after_query_def)

text \<open>A cache that agrees with the snapshot: the query sees the snapshot, and the cache agrees afterwards.\<close>

definition cache_agrees :: "hod_db \<Rightarrow> bool" where
  "cache_agrees db \<longleftrightarrow> coherent (db_snapshot db) (db_cache db)"

lemma cache_agrees_view: "cache_agrees db \<Longrightarrow> db_view db = db_snapshot db"
  by (simp add: cache_agrees_def db_view_def coherent_cached_view)

lemma cache_agrees_before: "cache_agrees db \<Longrightarrow> cache_agrees (before_query svc dbname db)"
  by (simp add: cache_agrees_def) (simp add: before_query_def coherent_evictions)

lemma cache_agrees_after: "cache_agrees db \<Longrightarrow> cache_agrees (after_query svc dbname db)"
  by (simp add: cache_agrees_def) (simp add: after_query_def coherent_fold_reads)

fun answered :: "services \<Rightarrow> query \<Rightarrow> (string \<times> hod_db) list \<Rightarrow> uri list list list \<Rightarrow> bool" where
  "answered svc q [] [] = True"
| "answered svc q ((dbname, db) # dbs) (rs # answers) =
     (db_run_query svc (before_query svc dbname db) q = Some (exec.Done (rs, None)) \<and> answered svc (expand_query db q) dbs answers)"
| "answered svc q _ _ = False"

lemma run_select:
  assumes "\<not> is_insert q" "\<not> QCount q" "length (SelectVars (Select q)) \<le> result_columns"
  shows "answered svc q dbs answers \<Longrightarrow>
    run_databases svc dbs q [] result = Some (exec.Done
      (result\<lparr>Rows := Rows result @
           concat (map (\<lambda>rs. map (row_to_map (svc_stale svc) (SelectVars (Select q))) (svc_tree svc rs)) answers),
         Count := Count result + of_nat (length (concat (map (svc_tree svc) answers)))\<rparr>, None,
       map (queried svc) dbs))"
  using assms
proof (induction svc q dbs answers arbitrary: result rule: answered.induct)
  case (2 svc q dbname db dbs rs answers)
  then show ?case
    by (simp add: collect_rows_def add_error_def queried_def Let_def algebra_simps)
qed simp_all

lemma run_count:
  assumes "\<not> is_insert q" "QCount q"
  shows "answered svc q dbs answers \<Longrightarrow>
    run_databases svc dbs q tree result = Some (exec.Done
      (if answers = [] then result
       else result\<lparr>Count := of_nat (length (svc_tree svc (tree @ concat answers)))\<rparr>, None,
       map (queried svc) dbs))"
  using assms
proof (induction svc q dbs answers arbitrary: tree result rule: answered.induct)
  case (2 svc q dbname db dbs rs answers)
  then show ?case
    by (simp add: collect_rows_def add_error_def queried_def Let_def)
qed simp_all

section \<open>Agreement with the evaluation of a query\<close>

definition rows_or_error :: "uri list list \<times> err option \<Rightarrow> uri list list res" where
  "rows_or_error r = (case r of (rs, None) \<Rightarrow> Inr rs | (rs, Some e) \<Rightarrow> Inl e)"

lemma gather_branches_merge:
  "merge_branches bs = map_option (\<lambda>x. case x of Panic \<Rightarrow> Panic | exec.Done r \<Rightarrow> exec.Done (rows_or_error r))
     (gather_branches bs)"
  by (induction bs) (auto simp: rows_or_error_def split: option.splits exec.splits sum.splits)

lemma gather_single:
  "gather_branches [b] = map_option (\<lambda>x. case x of Panic \<Rightarrow> Panic
       | exec.Done (Inl e) \<Rightarrow> exec.Done ([], Some e) | exec.Done (Inr rs) \<Rightarrow> exec.Done (rs, None)) b"
  by (auto split: option.splits exec.splits sum.splits)

text \<open>Without the rows that come with an error, it is the evaluation of theory Engine.\<close>

lemma db_run_query_agrees:
  "run_query (svc_hash svc) (svc_runtime svc) (svc_vars svc) (svc_branches svc) (db_namespaces db) (db_view db)
     (db_predIndex db) q =
   map_option (\<lambda>x. case x of Panic \<Rightarrow> Panic | exec.Done r \<Rightarrow> exec.Done (rows_or_error r)) (db_run_query svc db q)"
  by (auto simp: run_query_def db_run_query_def expand_query_def gather_branches_merge gather_single
      rows_or_error_def Let_def split: option.splits exec.splits sum.splits)

section \<open>Properties\<close>

text \<open>
  C9: A SELECT query over several databases returns, for each database in turn, its rows in the order of
  the tree, each as a map from the selected variables to the columns, and their number; a COUNT query
  returns no rows and the size of the tree that holds the rows of all databases. Neither changes a
  database, but for its cache (\<open>queried\<close>).
\<close>

theorem select_query_correct:
  assumes "\<not> is_insert q" "distinct (SelectVars (Select q))" "length (SelectVars (Select q)) \<le> result_columns"
    and "\<And>rs. set (svc_tree svc rs) \<subseteq> set rs"
    and "visited = concat (map (database_named dbs) (choose_databases svc q dbs))"
    and "answered svc q visited answers"
    and "\<forall>rs \<in> set answers. \<forall>row \<in> set rs. length row = length (SelectVars (Select q))"
  shows "hod_run_query svc dbs q = Some (exec.Done
    (\<lparr>Rows = (if QCount q then []
               else concat (map (\<lambda>rs. map (zip (SelectVars (Select q))) (svc_tree svc rs)) answers)),
      Count = of_nat (if \<not> QCount q then length (concat (map (svc_tree svc) answers))
                      else if answers = [] then 0 else length (svc_tree svc (concat answers))),
      Elapsed = 0, Errors = []\<rparr>, None, map (queried svc) visited))"
proof (cases "QCount q")
  case True
  then show ?thesis using run_count[OF assms(1) True assms(6)] assms(5)
    by (simp add: hod_run_query_def no_result_def)
next
  case False
  let ?cols = "SelectVars (Select q)"
  have "map (row_to_map (svc_stale svc) ?cols) (svc_tree svc rs) = map (zip ?cols) (svc_tree svc rs)"
    if "rs \<in> set answers" for rs
    using that assms(2,4,7) by (auto intro!: row_to_map_zip)
  then have same: "concat (map (\<lambda>rs. map (row_to_map (svc_stale svc) ?cols) (svc_tree svc rs)) answers) =
      concat (map (\<lambda>rs. map (zip ?cols) (svc_tree svc rs)) answers)"
    by (intro arg_cong[where f = concat] map_cong refl) simp
  show ?thesis
    using run_select[OF assms(1) False assms(3,6), of no_result] False assms(5)
    by (simp add: hod_run_query_def no_result_def same)
qed

lemma insert_terms_plain:
  "\<lbrakk>Count result = 0; list_all (\<lambda>t. QPredicates t \<noteq> []) ts\<rbrakk> \<Longrightarrow>
   insert_terms result ts (ds, n) = exec.Done
     (fold (\<lambda>t. add_triple_uris (QSubject t) (PathPredicate (hd (QPredicates t))) (QObject t)) ts ds, n)"
proof (induction ts arbitrary: ds)
  case (Cons t ts)
  then show ?case by (cases "QPredicates t") simp_all
qed simp

lemma insert_terms_no_rows:
  "\<lbrakk>Count result \<noteq> 0; Rows result = []\<rbrakk> \<Longrightarrow> insert_terms result ts (ds, n) = exec.Done (ds, n)"
proof (induction ts)
  case (Cons t ts)
  then show ?case by (cases "QPredicates t") simp_all
qed simp

lemma fold_add_triples:
  "fold (\<lambda>t. add_triple_uris (f t) (g t) (h t)) ts ds =
     ds\<lparr>triplecount := triplecount ds + length ts,
        Triples := Triples ds @ map (\<lambda>t. \<lparr>Subject = f t, Predicate = g t, Object = h t\<rparr>) ts\<rparr>"
  by (induction ts arbitrary: ds) (simp_all add: add_triple_uris_def)

text \<open>The terms as triples, their variables left as they are.\<close>

definition terms_as_dataset :: "qtriple list \<Rightarrow> dataset" where
  "terms_as_dataset ts = \<lparr>triplecount = length ts, nscount = 0, Namespaces = [],
     Triples = map (\<lambda>t. \<lparr>Subject = QSubject t, Predicate = PathPredicate (hd (QPredicates t)),
                          Object = QObject t\<rparr>) ts\<rparr>"

text \<open>
  What an insertion stores in each database in turn, given how many rows each of them had: \<open>n\<close> is the
  number of rows so far. An error ends it.
\<close>

fun insert_each ::
    "services \<Rightarrow> query \<Rightarrow> nat \<Rightarrow> (string \<times> hod_db) list \<Rightarrow> nat list
      \<Rightarrow> (nat \<times> err option \<times> (string \<times> hod_db) list) option" where
  "insert_each svc q n ((dbname, db) # dbs) (c # cs) =
     (case store_additions svc
          (if n + c = 0 then terms_as_dataset (InsertTerms (expand_query db q)) else new_dataset)
          (snd (queried svc (dbname, db))) of
        None \<Rightarrow> None
      | Some (Some e, db1) \<Rightarrow> Some (n + c, Some e, (dbname, db1) # dbs)
      | Some (None, db1) \<Rightarrow>
          map_option (\<lambda>(m, e, seen). (m, e, (dbname, db1) # seen)) (insert_each svc (expand_query db q) (n + c) dbs cs))"
| "insert_each svc q n dbs cs = Some (n, None, dbs)"

lemma insert_terms_by_count:
  assumes "Rows result = []" "Count result = of_nat n" "n < 2 ^ 64"
    and "list_all (\<lambda>t. QPredicates t \<noteq> []) ts"
  shows "insert_terms result ts (new_dataset, 0) =
     exec.Done (if n = 0 then terms_as_dataset ts else new_dataset, 0)"
proof -
  have count: "of_nat n = (0 :: 64 word) \<longleftrightarrow> n = 0"
    using assms(3) by (simp add: word_of_nat_eq_0_iff nat_dvd_not_less)
      (metis dvd_0_right nat_dvd_not_less not_gr_zero)
  show ?thesis
  proof (cases "n = 0")
    case True
    then show ?thesis using insert_terms_plain[of result ts new_dataset 0] assms count
      by (simp add: fold_add_triples terms_as_dataset_def new_dataset_def)
  next
    case False
    then show ?thesis using insert_terms_no_rows[of result ts new_dataset 0] assms count by simp
  qed
qed

lemma run_insert:
  assumes "is_insert q" "\<not> QCount q" "list_all (\<lambda>t. QPredicates t \<noteq> []) (InsertTerms q)"
  shows "answered svc q dbs answers \<Longrightarrow> n + length (concat (map (svc_tree svc) answers)) < 2 ^ 64 \<Longrightarrow>
    run_databases svc dbs q [] (no_result\<lparr>Count := of_nat n\<rparr>) =
    map_option (\<lambda>(m, e, seen). exec.Done (no_result\<lparr>Count := of_nat m\<rparr>, e, seen))
      (insert_each svc q n dbs (map (\<lambda>rs. length (svc_tree svc rs)) answers))"
  using assms
proof (induction svc q dbs answers arbitrary: n rule: answered.induct)
  case (2 svc q dbname db dbs rs answers)
  let ?c = "length (svc_tree svc rs)" and ?q = "expand_query db q"
  let ?r = "no_result\<lparr>Count := of_nat (n + ?c)\<rparr>"
  have preds: "list_all (\<lambda>t. QPredicates t \<noteq> []) (InsertTerms ?q)"
    using 2(6) by (simp add: InsertTerms_expand_query expand_triple_def list_all_iff)
  have terms: "insert_terms ?r (InsertTerms ?q) (new_dataset, 0) =
      exec.Done (if n + ?c = 0 then terms_as_dataset (InsertTerms ?q) else new_dataset, 0)"
    using 2(3) preds by (intro insert_terms_by_count) (simp_all add: no_result_def)
  have coll: "collect_rows svc q rs (no_result\<lparr>Count := of_nat n\<rparr>) = exec.Done ([], ?r)"
    using 2(4,5) by (simp add: collect_rows_def no_result_def Let_def)
  have IH: "run_databases svc dbs ?q [] ?r =
      map_option (\<lambda>(m, e, seen). exec.Done (no_result\<lparr>Count := of_nat m\<rparr>, e, seen))
        (insert_each svc ?q (n + ?c) dbs (map (\<lambda>rs. length (svc_tree svc rs)) answers))"
    using 2 preds by (intro "2.IH") simp_all
  have run: "db_run_query svc (before_query svc dbname db) q = Some (exec.Done (rs, None))"
    using 2(2) by simp
  show ?case
    using 2(4) coll terms run IH
    by (auto simp: add_error_def handle_insert_def queried_def Let_def option.map_comp comp_def split_def
        split: option.splits intro!: option.map_cong)
qed simp_all

text \<open>
  Without triples and without a predicate \<open>owl:inverseOf\<close> in the database nothing is stored.
\<close>

lemma store_nothing:
  assumes "gm_get (entityDB (db_store db)) (uri_bytes INVERSEOF) = None"
    and "ord_inverse (svc_orders svc) [] = []" "ord_preds (svc_orders svc) [] = []"
  shows "\<exists>e db1. store_additions svc new_dataset db = Some (e, db1) \<and> db_store db1 = db_store db"
proof -
  let ?tx = "open_transaction (db_store db)"
  have "load_inverses (svc_orders svc) ?tx = ?tx"
    using assms by (simp add: load_inverses_def tx_get_predicate_by_uri_def tx_get_hash_def open_transaction_def)
  then have "add_triples (svc_hash svc) (svc_orders svc) new_dataset ?tx = Some (Inr ?tx)"
    using assms(2,3) by (simp add: add_triples_def new_dataset_def build_inverses_def open_transaction_def bind_res_def)
  moreover have "snd (tx_done (svc_faults svc) ?tx (db_store db)) = db_store db"
    by (simp add: tx_done_def commit_def flush_batch_def open_transaction_def Let_def)
  ultimately show ?thesis
    by (auto simp: store_additions_def write_dataset_def build_text_index_def Let_def
        split: prod.splits option.splits)
qed

text \<open>
  C24: What an INSERT query stores does not depend on what its WHERE clause binds, only on the number of
  rows: over the databases of the query in turn, the terms themselves are stored, with their variables,
  as long as no database so far has had a row; from the first row on nothing is inserted, because the
  rows are counted but not kept. (Storing the empty data set leaves a database as it is, unless it has
  inverse relationships to complete: lemma \<open>store_nothing\<close>.)
\<close>

theorem insert_ignores_answers:
  assumes "is_insert q" "\<not> QCount q"
    and "visited = concat (map (database_named dbs) (choose_databases svc q dbs))"
    and "answered svc q visited answers"
    and "list_all (\<lambda>t. QPredicates t \<noteq> []) (InsertTerms q)"
    and "length (concat (map (svc_tree svc) answers)) < 2 ^ 64"
    and "ord_inverse (svc_orders svc) [] = []" "ord_preds (svc_orders svc) [] = []"
  shows "hod_run_query svc dbs q =
    map_option (\<lambda>(m, e, seen). exec.Done (no_result\<lparr>Count := of_nat m\<rparr>, e, seen))
      (insert_each svc q 0 visited (map (\<lambda>rs. length (svc_tree svc rs)) answers)) \<and>
    (\<forall>db \<in> snd ` set visited. gm_get (entityDB (db_store db)) (uri_bytes INVERSEOF) = None \<longrightarrow>
       (\<exists>e db1. store_additions svc new_dataset db = Some (e, db1) \<and> db_store db1 = db_store db))"
proof
  have "no_result\<lparr>Count := of_nat 0\<rparr> = no_result" by (simp add: no_result_def)
  then show "hod_run_query svc dbs q =
    map_option (\<lambda>(m, e, seen). exec.Done (no_result\<lparr>Count := of_nat m\<rparr>, e, seen))
      (insert_each svc q 0 visited (map (\<lambda>rs. length (svc_tree svc rs)) answers))"
    using run_insert[OF assms(1,2,5,4), of 0] assms(3,6) by (simp add: hod_run_query_def)
qed (use store_nothing assms(7,8) in blast)

section \<open>An example\<close>

text \<open>A database with the one triple \<open>a p b\<close>.\<close>

abbreviation (input) small_key :: "char \<Rightarrow> key" where
  "small_key c \<equiv> Key c nul nul nul nul nul nul nul"

definition small_store :: store where
  "small_store = \<lparr>entityDB = map (\<lambda>c. (uri_bytes (const_uri [c]), small_key c)) ''abp'',
     pkDB = map (\<lambda>c. (small_key c, uri_bytes (const_uri [c]))) ''abp'',
     graphDB = [(small_key CHR ''a'', \<lparr>PK = small_key CHR ''a'', InEdges = [],
                   OutEdges = [(key_string (small_key CHR ''p''), [small_key CHR ''b''])]\<rparr>),
                (small_key CHR ''b'', \<lparr>PK = small_key CHR ''b'',
                   InEdges = [(key_string (small_key CHR ''p''), [small_key CHR ''a''])], OutEdges = []\<rparr>)],
     extendedDB = [], predDB = []\<rparr>"

definition small_db :: hod_db where
  "small_db = \<lparr>db_store = small_store, db_cache = new_cache, db_namespaces = [(''pre'', ''n'')], db_relationships = [],
     db_predIndex = [], db_text = []\<rparr>"

definition plain_services :: services where
  "plain_services = \<lparr>svc_hash = (\<lambda>b. of_char (hd b)),
     svc_runtime = \<lparr>iter_keys = id, iter_vars = id, iter_edges = id, pool_new = (\<lambda>_. True),
       pool_copy = (\<lambda>_ _. False)\<rparr>,
     svc_vars = id, svc_branches = id,
     svc_orders = \<lparr>ord_inverse = id, ord_pairs = (\<lambda>p. id), ord_preds = id, ord_ents = (\<lambda>d p. id),
       pick_max = (\<lambda>d p e ks. hd ks), pick_del = (\<lambda>d p e ks. hd ks)\<rparr>,
     svc_dbs = id,
     svc_faults = \<lparr>fail_write = False, fail_entity = False, fail_pk = False, fail_graph = False, fail_ext = False, fail_pred = False\<rparr>,
     svc_text = (\<lambda>_. None), svc_save = (\<lambda>_. None), svc_message = (\<lambda>name e. name), svc_tree = remdups,
     svc_stale = (\<lambda>_. zero_uri), svc_drained = (\<lambda>_. 0),
     svc_reads = (\<lambda>_. [ReadHash (const_uri ''b''), ReadEntity (small_key CHR ''b'')])\<rparr>"

text \<open>\<open>SELECT ?x WHERE { ?x p b }\<close>, with a prefix for \<open>p\<close>, and an insertion for every such \<open>?x\<close>.\<close>

definition small_pattern :: qtriple where
  "small_pattern = \<lparr>QSubject = var_uri ''x'',
     QPredicates = [\<lparr>PathPredicate = mkURI ''pre'' ''p'', PathMod = PATTERN_SINGLE\<rparr>], QObject = const_uri ''b''\<rparr>"

definition small_select :: query where
  "small_select = select_where [''?x''] [small_pattern]"

definition small_insert :: query where
  "small_insert = new_insert_query id [step_triple (var_uri ''x'') ''q'' (const_uri ''b'')]
     \<lparr>WhereTerms = [small_pattern], WhereGroup = None\<rparr> False"

abbreviation (input) two_homes :: "(string \<times> hod_db) list" where
  "two_homes \<equiv> [(''home'', small_db), (''work'', small_db\<lparr>db_namespaces := []\<rparr>)]"

lemma small_answers:
  "answered plain_services small_select [(''home'', small_db)] [[[const_uri ''a'']]]"
  "answered plain_services small_insert two_homes [[[const_uri ''a'']], [[const_uri ''a'']]]"
  by code_simp+

theorem select_query_correct_witness:
  "hod_run_query plain_services [(''home'', small_db)] small_select =
     Some (exec.Done (\<lparr>Rows = [[(''?x'', const_uri ''a'')]], Count = 1, Elapsed = 0, Errors = []\<rparr>, None,
       [queried plain_services (''home'', small_db)]))"
proof -
  have q: "\<not> is_insert small_select" "SelectVars (Select small_select) = [''?x'']" "\<not> QCount small_select"
    by code_simp+
  have d: "concat (map (database_named [(''home'', small_db)])
      (choose_databases plain_services small_select [(''home'', small_db)])) = [(''home'', small_db)]"
    by code_simp
  have t: "svc_tree plain_services = remdups" by (simp add: plain_services_def)
  show ?thesis
    using select_query_correct[OF q(1), of plain_services, OF _ _ _ d[symmetric] small_answers(1)] q
    by (simp add: t result_columns_def)
qed

theorem insert_ignores_answers_witness:
  "hod_run_query plain_services two_homes small_insert =
    map_option (\<lambda>(m, e, seen). exec.Done (no_result\<lparr>Count := of_nat m\<rparr>, e, seen))
      (insert_each plain_services small_insert 0 two_homes [1, 1])"
proof -
  have q: "is_insert small_insert" "\<not> QCount small_insert"
    "list_all (\<lambda>t. QPredicates t \<noteq> []) (InsertTerms small_insert)"
    by code_simp+
  have d: "concat (map (database_named two_homes) (choose_databases plain_services small_insert two_homes)) = two_homes"
    by code_simp
  have t: "svc_tree plain_services = remdups" by (simp add: plain_services_def)
  show ?thesis
    using insert_ignores_answers[OF q(1,2) d[symmetric] small_answers(2) q(3)]
    by (simp add: t) (simp add: plain_services_def)
qed

end
