(* ===== verification/EndToEnd.thy ===== *)
theory EndToEnd
  imports FrontEnd EngineCorrect
begin

text \<open>
  A query from its text to its answers: the parser, the expansion of prefixes, the plan, the engine on a
  snapshot of the database, the rows and the result of the front end, composed.
\<close>

lemma db_run_plain:
  assumes "WhereGroup (Where q) = None"
    and "get_query_results (svc_hash svc) (svc_runtime svc) (db_view db) (db_predIndex db) (expand_query db q) =
      Some (exec.Done (Inr rs))"
  shows "db_run_query svc db q = Some (exec.Done (rs, None))"
proof -
  have "query_branches (expand_query db q) = []"
    using assms(1) by (simp add: query_branches_def expand_query_def iter_triples_def)
  then show ?thesis using assms(2) by (simp add: db_run_query_def gather_single Let_def)
qed

text \<open>
  C2: The text of a SELECT query with a tree-shaped plan, run on a database, is answered with the solutions
  of its WHERE clause (with the prefixes of the database expanded) in the snapshot: every row maps the
  selected variables to the names of a solution, up to the hash of rows every solution has a row (every
  solution has one when no two have the same hash), there are no errors, and the database is unchanged but
  for its cache, which stays right. This needs what C1 needs of the snapshot (\<open>fine\<close>: in particular an
  exact extended index) and of the query (\<open>answerable\<close>); a cache that agrees with the snapshot, which
  concurrent commits can break (theory Cache); and a tree that keeps every row it is given, although the
  comparison it uses is not an order (theory FrontEnd).
\<close>

theorem query_text_correct:
  assumes "parse_text (svc_vars svc) s = Some (ParsedQuery q)"
    and "\<not> is_insert q" "\<not> QCount q" "WhereGroup (Where q) = None" "distinct (SelectVars (Select q))"
    and "choose_databases svc q [(dbname, db)] = [dbname]" "\<And>rs. set (svc_tree svc rs) = set rs"
    and "make_dependency_graph (expand_query db q) = Some (exec.Done dg)"
    and "form_query_plan dg (expand_query db q) = Inr qp" "tree_plan {} (operations qp)"
    and "cache_agrees db" "fine (db_snapshot db) (svc_runtime svc)"
    and "answerable (db_snapshot db) (expand_query db q)"
  shows "\<exists>res kss. hod_run_query_string svc [(dbname, db)] s =
      Some (exec.Done (res, None, [(dbname, snd (queried svc (dbname, db)))])) \<and>
    set (Rows res) = (\<lambda>ks. zip (SelectVars (Select q)) (map (name_of (db_snapshot db)) ks)) ` kss \<and>
    kss \<subseteq> solution_rows (db_snapshot db) (expand_query db q) \<and>
    row_hash (svc_hash svc) ` kss = row_hash (svc_hash svc) ` solution_rows (db_snapshot db) (expand_query db q) \<and>
    (inj_on (row_hash (svc_hash svc)) (solution_rows (db_snapshot db) (expand_query db q)) \<longrightarrow>
       kss = solution_rows (db_snapshot db) (expand_query db q)) \<and>
    Count res = of_nat (length (Rows res)) \<and> Errors res = [] \<and> cache_agrees (snd (queried svc (dbname, db)))"
proof -
  let ?sel = "SelectVars (Select q)" and ?db = "before_query svc dbname db" and ?v = "db_snapshot db"
  let ?S = "solution_rows ?v (expand_query db q)" and ?h = "row_hash (svc_hash svc)"
  have view: "db_view ?db = ?v" using cache_agrees_view[OF cache_agrees_before[OF assms(11)]] by simp
  obtain kss where kss: "get_query_results (svc_hash svc) (svc_runtime svc) ?v (db_predIndex ?db)
        (expand_query db q) = Some (exec.Done (Inr (map (map (name_of ?v)) kss)))"
    "set kss \<subseteq> ?S" "?h ` set kss = ?h ` ?S"
    using tree_query_answers[OF assms(8-10,12,13), of "svc_hash svc" "db_predIndex ?db"] by blast
  let ?rs = "map (map (name_of ?v)) kss"
  have len: "length ?sel \<le> result_columns" using assms(13) by (simp add: answerable_def)
  have width: "length ks = length ?sel" if "ks \<in> set kss" for ks
    using kss(2) that by (auto simp: solution_rows_def)
  have "answered svc q [(dbname, db)] [?rs]"
    using db_run_plain[OF assms(4), of svc ?db ?rs] kss(1) by (simp add: view)
  note run = run_select[OF assms(2,3) len this, of no_result]
  have "map (row_to_map (svc_stale svc) ?sel) (svc_tree svc ?rs) = map (zip ?sel) (svc_tree svc ?rs)"
    using assms(5,7) width by (auto intro!: row_to_map_zip)
  moreover have "set (map (zip ?sel) (svc_tree svc ?rs)) = (\<lambda>ks. zip ?sel (map (name_of ?v) ks)) ` set kss"
    by (simp add: assms(7) image_image)
  moreover have "cache_agrees (snd (queried svc (dbname, db)))"
    using cache_agrees_after[OF cache_agrees_before[OF assms(11)]] by (simp add: queried_def)
  moreover have "inj_on ?h ?S \<longrightarrow> set kss = ?S" using inj_on_image_eq_iff[of ?h ?S] kss(2,3) by blast
  moreover let ?res = "no_result\<lparr>Rows := map (row_to_map (svc_stale svc) ?sel) (svc_tree svc ?rs),
      Count := of_nat (length (svc_tree svc ?rs))\<rparr>"
  have "hod_run_query_string svc [(dbname, db)] s =
      Some (exec.Done (?res, None, [(dbname, snd (queried svc (dbname, db)))]))"
    using run assms(1,6)
    by (simp add: hod_run_query_string_def hod_run_query_def database_named_def no_result_def queried_def)
  ultimately show ?thesis
    using kss(2,3) by (intro exI[of _ ?res] exI[of _ "set kss"]) (simp add: no_result_def)
qed

section \<open>An example\<close>

lemma small_edges:
  "edge_rel FromSubject (db_snapshot small_db) p =
     (if p = small_key CHR ''p'' then {(small_key CHR ''a'', small_key CHR ''b'')} else {})"
  "edge_rel FromObject (db_snapshot small_db) p =
     (if p = small_key CHR ''p'' then {(small_key CHR ''b'', small_key CHR ''a'')} else {})"
  by (auto simp: edge_rel_def db_snapshot_def small_db_def small_store_def snapshot_view_def edges_def edge_list_def
      split: if_splits)

lemma small_view_fields:
  "vw_graph (db_snapshot small_db) = graphDB small_store"
  "vw_ext (db_snapshot small_db) k = Inr None"
  "vw_uri (db_snapshot small_db) k = snap_get_uri small_store k"
  by (simp_all add: db_snapshot_def small_db_def snapshot_view_def snap_get_extended_index_by_hash_def)
     (simp add: small_store_def)

lemma snapshot_hash_missing: "vw_hash (db_snapshot db) u \<noteq> Inl LdbNotFound"
  by (simp add: db_snapshot_def snapshot_view_def snap_get_hash_def split: option.split)

lemma small_in_graph: "in_graph (db_snapshot small_db) k \<longleftrightarrow> k \<in> {small_key CHR ''a'', small_key CHR ''b''}"
  by (auto simp: in_graph_def small_view_fields small_store_def)

lemma small_fine: "fine (db_snapshot small_db) (svc_runtime plain_services)"
proof -
  have "view_ok FromSubject (db_snapshot small_db)" "view_ok FromObject (db_snapshot small_db)"
    unfolding view_ok_def graph_closed_def index_exact_def small_edges
    by (auto simp: small_view_fields small_store_def index_entry_def snapshot_hash_missing split: if_splits)
  moreover have "edges_converse (db_snapshot small_db)" by (auto simp: edges_converse_def small_edges)
  moreover have "\<not> in_graph (db_snapshot small_db) empty_key" by (simp add: small_in_graph empty_key_def)
  ultimately show ?thesis by (simp add: fine_def plain_services_def iteration_def)
qed

lemma small_cache: "cache_agrees small_db"
  by (simp add: cache_agrees_def small_db_def coherent_new_cache)

text \<open>\<open>SELECT ?x WHERE { ?x pre:p pre:b };\<close>\<close>

definition small_text :: string where
  "small_text = ''SELECT ?x WHERE { ?x pre:p pre:b };''"

definition small_query :: query where
  "small_query = select_where [''?x''] [small_pattern\<lparr>QObject := mkURI ''pre'' ''b''\<rparr>]"

lemma small_parsed: "parse_text (svc_vars plain_services) small_text = Some (ParsedQuery small_query)"
  by code_simp

definition small_dg :: dependency_graph where
  "small_dg = (case make_dependency_graph (expand_query small_db small_query) of
     Some (exec.Done dg) \<Rightarrow> dg | _ \<Rightarrow> undefined)"

definition small_plan :: query_plan where
  "small_plan = projr (form_query_plan small_dg (expand_query small_db small_query))"

lemma small_plans:
  "make_dependency_graph (expand_query small_db small_query) = Some (exec.Done small_dg)"
  "form_query_plan small_dg (expand_query small_db small_query) = Inr small_plan"
  "tree_plan {} (operations small_plan)"
  by code_simp+

lemma small_answerable: "answerable (db_snapshot small_db) (expand_query small_db small_query)"
  unfolding answerable_def
proof (intro conjI)
  let ?v = "db_snapshot small_db" and ?q = "expand_query small_db small_query"
  have q: "SelectVars (Select small_query) = [''?x'']" "Variables ?q = [''?x'']" "query_ends ?q = {''?x''}"
    by code_simp+
  show "\<forall>k. in_graph ?v k \<longrightarrow> (\<exists>u. vw_uri ?v k = Inr u)"
    by (auto simp: small_in_graph small_view_fields snap_get_uri_def small_store_def)
  show "distinct (Variables ?q)" "query_ends ?q \<subseteq> set (Variables ?q)" "set (SelectVars (Select ?q)) \<subseteq> query_ends ?q"
    "length (SelectVars (Select ?q)) \<le> result_columns"
    by (simp_all add: q result_columns_def)
  show "\<forall>t \<in> set (WhereTerms (Where ?q)). consts_known ?v t" by code_simp
qed

lemma small_hashes:
  "inj_on (row_hash (svc_hash plain_services)) (solution_rows (db_snapshot small_db) (expand_query small_db small_query))"
proof (rule inj_on_subset)
  let ?v = "db_snapshot small_db" and ?q = "expand_query small_db small_query"
  let ?keys = "{small_key CHR ''a'', small_key CHR ''b''}"
  show "inj_on (row_hash (svc_hash plain_services)) ((\<lambda>k. [k]) ` ?keys)"
    by (simp add: inj_on_def plain_services_def keys_bytes_def)
  have "f ''?x'' \<in> ?keys" if "f \<in> solutions ?v (query_ends ?q) (WhereTerms (Where ?q))" for f
  proof -
    have "in_graph ?v (f ''?x'')"
      by (rule solution_in_graph[OF that, of "step_triple (var_uri ''x'') ''p'' (const_uri ''b'')"]) code_simp+
    then show ?thesis by (simp add: small_in_graph)
  qed
  moreover have "SelectVars (Select ?q) = [''?x'']" by code_simp
  ultimately show "solution_rows ?v ?q \<subseteq> (\<lambda>k. [k]) ` ?keys" by (auto simp: solution_rows_def)
qed

theorem query_text_correct_witness:
  "\<exists>res. hod_run_query_string plain_services [(''home'', small_db)] small_text =
       Some (exec.Done (res, None, [(''home'', snd (queried plain_services (''home'', small_db)))])) \<and>
     set (Rows res) = (\<lambda>ks. zip (SelectVars (Select small_query)) (map (name_of (db_snapshot small_db)) ks)) `
       solution_rows (db_snapshot small_db) (expand_query small_db small_query) \<and>
     Count res = of_nat (length (Rows res)) \<and> Errors res = [] \<and>
     cache_agrees (snd (queried plain_services (''home'', small_db)))"
proof -
  have q: "\<not> is_insert small_query" "\<not> QCount small_query" "WhereGroup (Where small_query) = None"
    "distinct (SelectVars (Select small_query))"
    "choose_databases plain_services small_query [(''home'', small_db)] = [''home'']"
    by code_simp+
  have "set (svc_tree plain_services rs) = set rs" for rs by (simp add: plain_services_def)
  from query_text_correct[OF small_parsed q this small_plans small_cache small_fine small_answerable] small_hashes
  show ?thesis by blast
qed

end
