(* ===== verification/Spec2Isabelle.thy ===== *)
theory Spec2Isabelle
  imports RollupExample EngineFlaws Storage LexScan QueryParser Cache Handles EndToEnd
begin

text \<open>
  A verification development for HodDB, a graph database for building metadata: RDF triples are loaded
  from Turtle files into LevelDB and queried with a dialect of SPARQL. Paths below are relative to src/.

  The program. A HodDB (db/hoddb.go) has one database (db/db.go) for each building. Loading parses a
  file (turtle/) and writes its triples in a transaction (db/transaction.go): names get eight-byte keys,
  every triple becomes an edge at both of its entities and a pair of the predicate index, inverse
  relationships add edges, and the roll-up precomputes what is reachable by one or more steps. A query
  is scanned and parsed (lang/), its prefixes are expanded and its unions multiplied out, its triples
  are ordered and given operators (db/dependency.go, db/plan.go), the operators walk the graph of a
  snapshot through a cache (db/operators.go, db/traversal.go, db/cache.go) and join relations
  (db/relation.go), and the rows of all databases are gathered into a result, or inserted (db/insert.go).

  Which theory models what, and what its lemmas show.

  \<^item> Prelude, GoStrings: Go's maps as association lists with distinct keys, errors as a sum type (an error
    that wraps another is a different value), byte strings, the functions of the package strings.
  \<^item> Turtle: URIs, triples, data sets, the callbacks of the Raptor parser and the splitting of large files
    (turtle/handle.go, dataset.go, raptor.go). URIs survive printing and parsing; the splitting loses a
    line, and everything after a line of 64 KB or more, where the scanner of Go's library gives up.
  \<^item> Keys, Entities: keys, their order, Murmur3 (db/key.go, db/util.go); entities with their edges, the
    predicate index and the extended index (db/entity.go).
  \<^item> Ast: the syntax tree and the constructors (lang/ast/ast.go); the variables of a query, and the
    expansion of groups against the meaning of groups and unions.
  \<^item> LexTables, Lexer, LexerCorrect, LexTokens, LexGrammar, LexScan: the generated tables and \<open>Scan\<close>
    (lang/lexer/, lang/token/token.go). The tokens cover the text; each state of the automaton stands for
    what may still follow, and the type of a token is the one the grammar gives its literal. The scanner
    moves through the rest of the text, which bounds its loop.
  \<^item> ParseTables, Parser, ParserCert, ParserCorrect, QueryParser: the LR(1) tables, the productions with
    their actions, the loop with its error handling and \<open>Parse\<close> (lang/parser/, lang/errors/,
    lang/parser.go). A certificate, verified entry by entry, gives the symbols below each state and the
    gotos that exist. The parser stops on every text (a shift consumes a token; reductions between two
    shifts decrease a weight of the stack), what it accepts is a derivation of the grammar with the value
    of its actions; it panics on no text without an opening parenthesis, and accepts none with one. The locale \<open>scanner\<close> is the interface
    of the lexer, interpreted for the model of \<open>Scan\<close>.
  \<^item> Traversal, TraversalCorrect, TraversalSound: following property paths (db/traversal.go). A path means
    the composition of the relations of its segments; the searches return exactly its image, in both
    directions and for any order of iteration, when the extended index is exact, and only related keys
    when it is not. The search stack shrinks or a new entity is visited, which bounds the search.
  \<^item> Transaction, TransactionCorrect, RollupSound, Database, RollupExample: the write path
    (db/transaction.go) and the reads of a snapshot (db/snapshot.go). Keys are found when one is free, the
    dictionaries stay inverse, loading triples without self loops and with names that read back stores
    them with their inverses and keeps the invariant of the databases, snapshots answer paths soundly even
    when the roll-up has left the extended index incomplete, and a commit that fails after the names
    leaves keys without a name. The search for a free key is a partial function; it is proved to return while some
    salt gives a free key.
  \<^item> Handles: taking and giving back the five LevelDB handles of a snapshot and of a transaction.
  \<^item> Cache: the cache, the reads through it (locale \<open>cached_read\<close>, interpreted for its five maps), the view
    of a database that a query sees through it (\<open>cached_view\<close>), and queries, a transaction and the evicting
    goroutine as a step relation.
  \<^item> Relations: rows as byte buffers behind the locale \<open>slots\<close>, relations with their index, and joins
    (db/row.go, db/relation.go): the index stays exact and a join computes the matching pairs.
  \<^item> Planning: the order of the triples and the operators (db/dependency.go, db/plan.go). The loop that
    orders the triples is a partial function; both when it returns and when it does not is proved.
  \<^item> Engine, EngineCorrect, EngineFlaws: contexts, operators, result rows, whole queries (db/context.go,
    db/keymap.go, db/operators.go, db/db_api.go). On a database with an exact extended index a query with
    a tree-shaped plan has its solutions as answers, up to the 32-bit hash by which rows are compared;
    other shapes can give wrong answers, no answers or a panic.
  \<^item> Msgpack, MsgStream, EntityCodec, ResultCodec, Storage: the MessagePack functions the generated codecs
    call, the codecs (the files ending in _gen.go), and the stored form of the databases. The locales
    \<open>codec\<close> and \<open>map_codec\<close> carry the round trips, interpreted for every type in both styles of coding;
    the stored values refine the decoded ones the other theories use.
  \<^item> FrontEnd, EndToEnd: starting, loading, queries over several databases, insertion and results
    (db/hoddb.go, db/insert.go, db/result.go, db/util.go). Queries read a snapshot through the database's
    cache, which keeps what they have read and what writes have queued for eviction. EndToEnd composes the
    parser, the engine and the front end: when the cache agrees with the snapshot, a text is answered with
    the solutions of its query.

  How Go is modelled. Integers keep their width where they can overflow (hashes, lengths on the wire,
  runes, the count of a result) and are natural numbers where they index or count what is in memory. A
  nil map or pointer is \<open>None\<close>, a panic a value of its own, a loop that need not end a partial function
  into \<open>option\<close>. What Go leaves open (the order in which a map is iterated, the row a pool hands out,
  which of two ready channels a select takes) is an argument, and the theorems hold for all its values
  or say which they need. Goroutines appear where the code's result depends on them: as the order in
  which branches finish, and as the steps of Cache; elsewhere they run one after the other.

  Not modelled. LevelDB, Bleve, the B-tree, Raptor, SHA-256 and the file system are not HodDB's own
  code: they are arguments, and LevelDB is five maps whose reads fail only with \<open>ErrNotFound\<close>, with an
  argument that says which writes and commits fail. The HTTP server, the client, the configuration, the
  commands and the GraphViz output (main.go, actions.go, dot.go, server/, clients/, config/) only pass strings to the
  operations modelled here and format what they return. Of db/snapshot.go the path-following functions
  are left out: no query calls them. Printing for debugging, logging, timing and the conversion
  helpers in lang/util, which nothing calls, are left out as well.
\<close>

end
